(* ===== verification/Prelude.thy ===== *)
theory Prelude
  imports Main "HOL-Library.Word" "HOL-Library.Monad_Syntax"
begin

unbundle bit_operations_syntax

text \<open>
  Shared vocabulary of the development: machine integer types, error codes
  (inc/error.h), the integer and rounding macros of inc/types.h, and the generic lemmas on
  words, partial maps and linked lists that the component theories use.

  Conventions used everywhere:
  \<^item> a C function that may call \<open>panic\<close>, fail an \<open>assert\<close> or fault
    inside the kernel or the file server returns an \<open>option\<close>: \<open>None\<close> is that
    abnormal end. Error codes are ordinary results, negative integers as in the code;
  \<^item> a C global or a struct reached through a pointer is a component of the state record that
    is passed in and returned;
  \<^item> a null pointer is \<open>None\<close>, a pointer into an array is its index.
\<close>

section \<open>Machine integers\<close>

type_synonym u8 = "8 word"
type_synonym u16 = "16 word"
type_synonym u32 = "32 word"
type_synonym u64 = "64 word"

named_theorems jos_consts \<open>values of the macros and enumerators of the source\<close>

section \<open>Error codes (inc/error.h)\<close>

definition E_UNSPECIFIED :: int where [jos_consts]: "E_UNSPECIFIED = 1"
definition E_BAD_ENV :: int where [jos_consts]: "E_BAD_ENV = 2"
definition E_INVAL :: int where [jos_consts]: "E_INVAL = 3"
definition E_NO_MEM :: int where [jos_consts]: "E_NO_MEM = 4"
definition E_NO_FREE_ENV :: int where [jos_consts]: "E_NO_FREE_ENV = 5"
definition E_FAULT :: int where [jos_consts]: "E_FAULT = 6"
definition E_IPC_NOT_RECV :: int where [jos_consts]: "E_IPC_NOT_RECV = 7"
definition E_EOF :: int where [jos_consts]: "E_EOF = 8"
definition E_NO_DISK :: int where [jos_consts]: "E_NO_DISK = 9"
definition E_MAX_OPEN :: int where [jos_consts]: "E_MAX_OPEN = 10"
definition E_NOT_FOUND :: int where [jos_consts]: "E_NOT_FOUND = 11"
definition E_BAD_PATH :: int where [jos_consts]: "E_BAD_PATH = 12"
definition E_FILE_EXISTS :: int where [jos_consts]: "E_FILE_EXISTS = 13"
definition E_NOT_EXEC :: int where [jos_consts]: "E_NOT_EXEC = 14"
definition E_NOT_SUPP :: int where [jos_consts]: "E_NOT_SUPP = 15"
definition E_TX_FULL :: int where [jos_consts]: "E_TX_FULL = 16"
definition E_RCV_EMPTY :: int where [jos_consts]: "E_RCV_EMPTY = 17"
definition E_PKT_TOO_LONG :: int where [jos_consts]: "E_PKT_TOO_LONG = 18"
definition MAXERROR :: int where [jos_consts]: "MAXERROR = 19"

section \<open>Rounding (inc/types.h)\<close>

text \<open>Both macros compute on \<open>uint64_t\<close>, so the addition in \<open>ROUNDUP\<close> wraps.\<close>

definition ROUNDDOWN :: "u64 \<Rightarrow> u64 \<Rightarrow> u64" where
  "ROUNDDOWN a n = a - a mod n"

definition ROUNDUP :: "u64 \<Rightarrow> u64 \<Rightarrow> u64" where
  "ROUNDUP a n = ROUNDDOWN (a + n - 1) n"

lemma word_unat_eqI: "unat a = unat b \<Longrightarrow> a = b" for a b :: "'a::len word"
  by (simp add: word_unat_eq_iff)

lemma ROUNDDOWN_unat: "unat (ROUNDDOWN a n) = unat a - unat a mod unat n"
proof -
  have "a mod n \<le> a" by (simp add: word_le_nat_alt unat_mod_distrib)
  then show ?thesis by (simp add: ROUNDDOWN_def unat_sub unat_mod_distrib)
qed

lemma ROUNDDOWN_eq: "unat (ROUNDDOWN a n) = unat a div unat n * unat n"
  by (simp add: ROUNDDOWN_unat minus_mod_eq_div_mult)

lemma ROUNDDOWN_le: "ROUNDDOWN a n \<le> a"
  by (simp add: word_le_nat_alt ROUNDDOWN_unat)

lemma ROUNDDOWN_aligned: "unat n dvd unat (ROUNDDOWN a n)"
  by (simp add: ROUNDDOWN_eq)

lemma ROUNDDOWN_id: "unat n dvd unat a \<Longrightarrow> ROUNDDOWN a n = a"
  by (rule word_unat_eqI) (simp add: ROUNDDOWN_unat dvd_eq_mod_eq_0)

lemma ROUNDUP_unat:
  assumes "0 < unat n" and "unat a + unat n \<le> 2 ^ 64"
  shows "unat (ROUNDUP a n) = (unat a + (unat n - 1)) div unat n * unat n"
proof -
  have n1: "unat (n - 1) = unat n - 1"
    using assms(1) by (simp add: unat_minus_one unat_gt_0)
  have "unat a + unat (n - 1) < 2 ^ LENGTH(64)"
    using assms n1 by simp
  then have "unat (a + (n - 1)) = unat a + (unat n - 1)"
    using n1 by (simp add: unat_add_lem [THEN iffD1])
  then show ?thesis by (simp add: ROUNDUP_def ROUNDDOWN_eq add_diff_eq)
qed

text \<open>The alignment test of the system calls, \<open>ROUNDUP(va, PGSIZE) != va\<close>.\<close>

lemma ROUNDUP_eq_self_iff:
  assumes "0 < unat n" and "unat a + unat n \<le> 2 ^ 64"
  shows "ROUNDUP a n = a \<longleftrightarrow> unat n dvd unat a"
proof
  assume "ROUNDUP a n = a"
  then show "unat n dvd unat a"
    by (metis ROUNDUP_def ROUNDDOWN_aligned)
next
  assume "unat n dvd unat a"
  then obtain k where k: "unat a = unat n * k" by (rule dvdE)
  have "(unat n * k + (unat n - 1)) div unat n = k"
    using assms(1) by (intro div_nat_eqI) auto
  then have "unat (ROUNDUP a n) = unat a"
    using ROUNDUP_unat [OF assms] k by simp
  then show "ROUNDUP a n = a" by (rule word_unat_eqI)
qed

section \<open>Linked lists\<close>

text \<open>
  \<open>chain nxt p xs\<close>: following \<open>nxt\<close> from \<open>p\<close> visits exactly
  \<open>xs\<close> and ends in the null pointer. The free lists of pages and of environments are chains.
\<close>

fun chain :: "(nat \<Rightarrow> nat option) \<Rightarrow> nat option \<Rightarrow> nat list \<Rightarrow> bool" where
  "chain nxt p [] \<longleftrightarrow> p = None"
| "chain nxt p (q # qs) \<longleftrightarrow> p = Some q \<and> chain nxt (nxt q) qs"

lemma chain_None [simp]: "chain nxt None xs \<longleftrightarrow> xs = []"
  by (cases xs) auto

lemma chain_Some: "chain nxt (Some q) xs \<longleftrightarrow> (\<exists>qs. xs = q # qs \<and> chain nxt (nxt q) qs)"
  by (cases xs) auto

lemma chain_unique: "chain nxt p xs \<Longrightarrow> chain nxt p ys \<Longrightarrow> xs = ys"
proof (induction xs arbitrary: p ys)
  case Nil
  then show ?case by (cases ys) auto
next
  case (Cons x xs)
  then show ?case by (cases ys) auto
qed

lemma chain_append: "chain nxt p (xs @ y # ys) \<Longrightarrow> chain nxt (Some y) (y # ys)"
  by (induction xs arbitrary: p) auto

lemma chain_distinct: "chain nxt p xs \<Longrightarrow> distinct xs"
proof (induction xs arbitrary: p)
  case Nil
  then show ?case by simp
next
  case (Cons x xs)
  have "x \<notin> set xs"
  proof
    assume "x \<in> set xs"
    then obtain as bs where xs: "xs = as @ x # bs" by (meson split_list)
    with Cons.prems have "chain nxt (Some x) (x # bs)"
      using chain_append [of nxt "nxt x" as x bs] by simp
    moreover from Cons.prems have "chain nxt (Some x) (x # xs)" by simp
    ultimately have "x # bs = x # xs" by (rule chain_unique)
    with xs show False by simp
  qed
  with Cons show ?case by auto
qed

lemma chain_cong:
  "(\<And>x. x \<in> set xs \<Longrightarrow> nxt x = nxt' x) \<Longrightarrow> chain nxt p xs = chain nxt' p xs"
  by (induction xs arbitrary: p) auto

lemma chain_upd [simp]: "x \<notin> set xs \<Longrightarrow> chain (nxt(x := y)) p xs = chain nxt p xs"
  by (rule chain_cong) auto

section \<open>Loops that may stop the machine\<close>

text \<open>A \<open>for\<close> loop over a list of indices; \<open>None\<close> ends it.\<close>

primrec foldM :: "('a \<Rightarrow> 's \<Rightarrow> 's option) \<Rightarrow> 'a list \<Rightarrow> 's \<Rightarrow> 's option" where
  "foldM f [] s = Some s"
| "foldM f (x # xs) s = (case f x s of None \<Rightarrow> None | Some s \<Rightarrow> foldM f xs s)"

lemma foldM_append: "foldM f (xs @ ys) s = (case foldM f xs s of None \<Rightarrow> None | Some s \<Rightarrow> foldM f ys s)"
  by (induction xs arbitrary: s) (auto split: option.splits)

text \<open>A loop whose body keeps an invariant and returns, returns and keeps it.\<close>

lemma foldM_inv:
  assumes "P s" and "\<And>x s. x \<in> set xs \<Longrightarrow> P s \<Longrightarrow> \<exists>s'. f x s = Some s' \<and> P s'"
  shows "\<exists>s'. foldM f xs s = Some s' \<and> P s'"
  using assms
proof (induction xs arbitrary: s)
  case (Cons x xs)
  then obtain s1 where s1: "f x s = Some s1" "P s1" by force
  with Cons.IH [OF s1(2)] Cons.prems(2) show ?case by auto
qed simp

section \<open>Bytes of a word\<close>

definition get_byte :: "u64 \<Rightarrow> nat \<Rightarrow> u8" where
  "get_byte w i = ucast (drop_bit (8 * i) w)"

definition put_byte :: "u64 \<Rightarrow> nat \<Rightarrow> u8 \<Rightarrow> u64" where
  "put_byte w i b = (w AND NOT (push_bit (8 * i) (mask 8))) OR push_bit (8 * i) (ucast b)"

lemma get_put_byte [simp]:
  assumes "i < 8" and "j < 8"
  shows "get_byte (put_byte w i b) j = (if i = j then b else get_byte w j)"
proof (rule bit_word_eqI)
  fix n
  assume "n < LENGTH(8)"
  then have n: "n < 8" by simp
  have "8 * j + n - 8 * i < 8 \<and> 8 * i \<le> 8 * j + n \<longleftrightarrow> i = j" using n by auto
  then show "bit (get_byte (put_byte w i b) j) n = bit (if i = j then b else get_byte w j) n"
    using n assms by (auto simp: get_byte_def put_byte_def bit_simps dest: bit_imp_le_length)
qed

end
