(* ===== verification/Spinlock.thy ===== *)
theory Spinlock
  imports Prelude
begin

text \<open>
  The spin lock of kern/spinlock.c and kern/spinlock.h: the operations one CPU performs, and the
  interleaving of all CPUs at the granularity of the memory accesses of the source. The name and
  the call stack a lock records for diagnostics are left out.
\<close>

section \<open>Operations\<close>

record spinlock =
  locked :: bool
  lk_cpu :: "nat option"

definition holding :: "spinlock \<Rightarrow> nat \<Rightarrow> bool" where
  "holding lk cpu \<longleftrightarrow> locked lk \<and> lk_cpu lk = Some cpu"

definition spin_initlock :: "spinlock \<Rightarrow> spinlock" where
  "spin_initlock lk = lk\<lparr>locked := False, lk_cpu := None\<rparr>"

text \<open>The atomic exchange of \<open>lk->locked\<close> with a new value; returns the old one.\<close>

definition xchg :: "bool \<Rightarrow> spinlock \<Rightarrow> bool \<times> spinlock" where
  "xchg v lk = (locked lk, lk\<lparr>locked := v\<rparr>)"

text \<open>
  \<open>spin_lock\<close> and \<open>spin_unlock\<close> of a CPU that runs alone: \<open>None\<close> is the panic, or
  spinning on a lock that nobody releases.
\<close>

definition spin_lock :: "nat \<Rightarrow> spinlock \<Rightarrow> spinlock option" where
  "spin_lock cpu lk =
     (if holding lk cpu then None
      else (case xchg True lk of (old, lk) \<Rightarrow> if old then None else Some (lk\<lparr>lk_cpu := Some cpu\<rparr>)))"

definition spin_unlock :: "nat \<Rightarrow> spinlock \<Rightarrow> spinlock option" where
  "spin_unlock cpu lk =
     (if \<not> holding lk cpu then None else Some (snd (xchg False (lk\<lparr>lk_cpu := None\<rparr>))))"

section \<open>Interleaved CPUs\<close>

text \<open>
  Where a CPU is: outside, in the loop of \<open>spin_lock\<close>, after the exchange that got the lock
  and before the CPU is recorded, in the critical section, in \<open>spin_unlock\<close> before the
  final exchange, or stopped by a panic.
\<close>

datatype cpu_pc = Outside | Spinning | Claimed | Critical | Releasing | Panicked

record smp =
  lock :: spinlock
  pc :: "nat \<Rightarrow> cpu_pc"

inductive cpu_step :: "smp \<Rightarrow> smp \<Rightarrow> bool" where
  enter: "pc m c = Outside \<Longrightarrow> \<not> holding (lock m) c \<Longrightarrow> cpu_step m (m\<lparr>pc := (pc m)(c := Spinning)\<rparr>)"
| enter_panic: "pc m c = Outside \<Longrightarrow> holding (lock m) c \<Longrightarrow> cpu_step m (m\<lparr>pc := (pc m)(c := Panicked)\<rparr>)"
| spin: "pc m c = Spinning \<Longrightarrow> xchg True (lock m) = (True, lk) \<Longrightarrow> cpu_step m (m\<lparr>lock := lk\<rparr>)"
| claim: "pc m c = Spinning \<Longrightarrow> xchg True (lock m) = (False, lk) \<Longrightarrow>
    cpu_step m (m\<lparr>lock := lk, pc := (pc m)(c := Claimed)\<rparr>)"
| record_cpu: "pc m c = Claimed \<Longrightarrow>
    cpu_step m (m\<lparr>lock := (lock m)\<lparr>lk_cpu := Some c\<rparr>, pc := (pc m)(c := Critical)\<rparr>)"
| leave_panic: "pc m c = Critical \<Longrightarrow> \<not> holding (lock m) c \<Longrightarrow> cpu_step m (m\<lparr>pc := (pc m)(c := Panicked)\<rparr>)"
| leave: "pc m c = Critical \<Longrightarrow> holding (lock m) c \<Longrightarrow>
    cpu_step m (m\<lparr>lock := (lock m)\<lparr>lk_cpu := None\<rparr>, pc := (pc m)(c := Releasing)\<rparr>)"
| release: "pc m c = Releasing \<Longrightarrow> xchg False (lock m) = (old, lk) \<Longrightarrow>
    cpu_step m (m\<lparr>lock := lk, pc := (pc m)(c := Outside)\<rparr>)"

inductive smp_reach :: "smp \<Rightarrow> bool" where
  init: "lock m = spin_initlock lk \<Longrightarrow> (\<And>c. pc m c = Outside) \<Longrightarrow> smp_reach m"
| step: "smp_reach m \<Longrightarrow> cpu_step m m' \<Longrightarrow> smp_reach m'"

section \<open>Mutual exclusion\<close>

definition owns :: "cpu_pc \<Rightarrow> bool" where
  "owns p \<longleftrightarrow> p = Claimed \<or> p = Critical \<or> p = Releasing"

lemma owns_simps [simp]:
  "\<not> owns Outside" "\<not> owns Spinning" "\<not> owns Panicked" "owns Claimed" "owns Critical" "owns Releasing"
  by (simp_all add: owns_def)

text \<open>The CPU that has the lock, if any, is the ghost \<open>ow\<close>.\<close>

definition lock_owner :: "smp \<Rightarrow> nat option \<Rightarrow> bool" where
  "lock_owner m ow \<longleftrightarrow>
     (\<forall>c. owns (pc m c) \<longleftrightarrow> ow = Some c) \<and> (locked (lock m) \<longleftrightarrow> ow \<noteq> None) \<and>
     (\<forall>c. lk_cpu (lock m) = Some c \<longleftrightarrow> pc m c = Critical) \<and> (\<forall>c. pc m c \<noteq> Panicked)"

definition lock_inv :: "smp \<Rightarrow> bool" where
  "lock_inv m \<longleftrightarrow> (\<exists>ow. lock_owner m ow)"

lemma lock_ownerD:
  assumes "lock_owner m ow"
  shows "owns (pc m c) \<longleftrightarrow> ow = Some c" "locked (lock m) \<longleftrightarrow> ow \<noteq> None"
    "lk_cpu (lock m) = Some c \<longleftrightarrow> pc m c = Critical" "pc m c \<noteq> Panicked"
  using assms by (auto simp: lock_owner_def)

lemma lock_owner_step:
  "cpu_step m m' \<Longrightarrow> lock_owner m ow \<Longrightarrow> \<exists>ow'. lock_owner m' ow'"
proof (induction rule: cpu_step.induct)
  case (enter m c)
  then have "ow \<noteq> Some c" using lock_ownerD(1) [OF enter(3), of c] by auto
  with enter have "lock_owner (m\<lparr>pc := (pc m)(c := Spinning)\<rparr>) ow" by (auto simp: lock_owner_def)
  then show ?case by blast
next
  case (enter_panic m c)
  then show ?case using lock_ownerD(3) [OF enter_panic(3), of c] by (auto simp: holding_def)
next
  case (spin m c lk)
  then have "lock_owner (m\<lparr>lock := lk\<rparr>) ow" by (auto simp: lock_owner_def xchg_def)
  then show ?case by blast
next
  case (claim m c lk)
  then have "ow = None" by (auto simp: lock_owner_def xchg_def)
  with claim have "lock_owner (m\<lparr>lock := lk, pc := (pc m)(c := Claimed)\<rparr>) (Some c)"
    by (auto simp: lock_owner_def xchg_def)
  then show ?case by blast
next
  case (record_cpu m c)
  then have ow: "ow = Some c" using lock_ownerD(1) [OF record_cpu(2), of c] by auto
  have nc: "pc m d \<noteq> Critical" for d
    using lock_ownerD(1) [OF record_cpu(2), of d] ow record_cpu(1) by auto
  with record_cpu ow have "lock_owner (m\<lparr>lock := (lock m)\<lparr>lk_cpu := Some c\<rparr>, pc := (pc m)(c := Critical)\<rparr>) ow"
    by (auto simp: lock_owner_def)
  then show ?case by blast
next
  case (leave_panic m c)
  then show ?case using lock_ownerD(1) [OF leave_panic(3), of c] by (auto simp: lock_owner_def holding_def)
next
  case (leave m c)
  then have ow: "ow = Some c" using lock_ownerD(1) [OF leave(3), of c] by auto
  have u: "pc m d = Critical \<longleftrightarrow> d = c" for d
    using lock_ownerD(1) [OF leave(3), of d] ow leave(1) by auto
  have "lock_owner (m\<lparr>lock := (lock m)\<lparr>lk_cpu := None\<rparr>, pc := (pc m)(c := Releasing)\<rparr>) ow"
    by (simp add: lock_owner_def u ow lock_ownerD(1,2,4) [OF leave(3)])
  then show ?case by blast
next
  case (release m c old lk)
  then have ow: "ow = Some c" using lock_ownerD(1) [OF release(3), of c] by auto
  with release have "lock_owner (m\<lparr>lock := lk, pc := (pc m)(c := Outside)\<rparr>) None"
    by (auto simp: lock_owner_def xchg_def)
  then show ?case by blast
qed

lemma lock_inv_step: "cpu_step m m' \<Longrightarrow> lock_inv m \<Longrightarrow> lock_inv m'"
  using lock_owner_step by (auto simp: lock_inv_def)

lemma lock_inv_reach: "smp_reach m \<Longrightarrow> lock_inv m"
proof (induction rule: smp_reach.induct)
  case (init m lk)
  then have "lock_owner m None" by (simp add: lock_owner_def spin_initlock_def)
  then show ?case by (auto simp: lock_inv_def)
next
  case (step m m')
  then show ?case using lock_inv_step by blast
qed



end
