(* ===== verification/Console.thy ===== *)
theory Console
  imports Prelude
begin

text \<open>
  The console of kern/console.c: serial port, keyboard, text display and the circular input
  buffer. What the devices have ready to be read is part of the state: \<open>com_in\<close> the
  bytes waiting in the serial port, \<open>kbd_in\<close> the scan codes waiting in the keyboard
  controller; \<open>com_out\<close> and \<open>lpt_out\<close> are the bytes written to the serial and the
  parallel port, latest first. The delays before an output port accepts a byte, the cursor
  registers and the probing of the display at boot are left out.
\<close>

section \<open>State\<close>

definition CONSBUFSIZE :: nat where [jos_consts]: "CONSBUFSIZE = 512"
definition CRT_COLS :: nat where [jos_consts]: "CRT_COLS = 80"
definition CRT_SIZE :: nat where [jos_consts]: "CRT_SIZE = 25 * 80"

record console =
  serial_exists :: bool
  com_in :: "u8 list"
  kbd_in :: "u8 list"
  shift :: u32
  cbuf :: "nat \<Rightarrow> u8"
  rpos :: nat
  wpos :: nat
  crt_buf :: "nat \<Rightarrow> u16"
  crt_pos :: nat
  my_color :: int
  com_out :: "u8 list"
  lpt_out :: "u8 list"
  rebooting :: bool

section \<open>Input devices\<close>

definition serial_proc_data :: "console \<Rightarrow> int \<times> console" where
  "serial_proc_data c =
     (case com_in c of [] \<Rightarrow> (- 1, c) | b # bs \<Rightarrow> (uint b, c\<lparr>com_in := bs\<rparr>))"

definition SHIFT :: u32 where [jos_consts]: "SHIFT = 1"
definition CTL :: u32 where [jos_consts]: "CTL = 2"
definition ALT :: u32 where [jos_consts]: "ALT = 4"
definition CAPSLOCK :: u32 where [jos_consts]: "CAPSLOCK = 8"
definition NUMLOCK :: u32 where [jos_consts]: "NUMLOCK = 16"
definition SCROLLLOCK :: u32 where [jos_consts]: "SCROLLLOCK = 32"
definition E0ESC :: u32 where [jos_consts]: "E0ESC = 64"

definition shiftcode :: "u8 \<Rightarrow> u32" where
  "shiftcode d =
     (if d = 0x1D then CTL else if d = 0x2A then SHIFT else if d = 0x36 then SHIFT
      else if d = 0x38 then ALT else if d = 0x9D then CTL else if d = 0xB8 then ALT else 0)"

definition togglecode :: "u8 \<Rightarrow> u32" where
  "togglecode d =
     (if d = 0x3A then CAPSLOCK else if d = 0x45 then NUMLOCK else if d = 0x46 then SCROLLLOCK else 0)"

text \<open>Key codes of inc/kbdreg.h, and the entries all maps have for the extended keys.\<close>

definition KEY_HOME :: u8 where [jos_consts]: "KEY_HOME = 0xE0"
definition KEY_DEL :: u8 where [jos_consts]: "KEY_DEL = 0xE9"

definition extended_key :: "u8 \<Rightarrow> u8" where
  "extended_key d =
     (if d = 0xC8 then 0xE2 else if d = 0xC9 then 0xE6 else if d = 0xCB then 0xE4
      else if d = 0xCD then 0xE5 else if d = 0xCF then 0xE1 else if d = 0xD0 then 0xE3
      else if d = 0xD1 then 0xE7 else if d = 0xD2 then 0xE8 else if d = 0xD3 then KEY_DEL else 0)"

definition table :: "u8 list \<Rightarrow> u8 \<Rightarrow> u8" where
  "table xs d = (if unat d < length xs then xs ! unat d else 0)"

definition chars :: "string \<Rightarrow> u8 list" where
  "chars cs = map (\<lambda>c. of_nat (of_char c)) cs"

definition normalrow :: "u8 list" where
  "normalrow =
     [0, 0x1B] @ chars ''1234567890-='' @ [8, 9] @ chars ''qwertyuiop[]'' @ [10, 0] @
     chars ''asdfghjkl;'' @ [39] @ chars ''`'' @ [0, 92] @ chars ''zxcvbnm,./'' @ [0] @ chars ''*'' @
     [0] @ chars '' '' @ replicate 13 0 @ chars ''789-456+1230.'' @ replicate 4 0"

definition normalmap :: "u8 \<Rightarrow> u8" where
  "normalmap d =
     (if d = 0xC7 then KEY_HOME else if d = 0x9C then 10 else if d = 0xB5 then 47
      else if extended_key d \<noteq> 0 then extended_key d else table normalrow d)"

definition shiftrow :: "u8 list" where
  "shiftrow =
     [0, 0x1B] @ chars ''!@#$%^&*()_+'' @ [8, 9] @ chars ''QWERTYUIOP{}'' @ [10, 0] @
     chars ''ASDFGHJKL:'' @ [34] @ chars ''~'' @ [0] @ chars ''|ZXCVBNM<>?'' @ [0] @ chars ''*'' @
     [0] @ chars '' '' @ replicate 13 0 @ chars ''789-456+1230.'' @ replicate 4 0"

definition shiftmap :: "u8 \<Rightarrow> u8" where
  "shiftmap d =
     (if d = 0xC7 then KEY_HOME else if d = 0x9C then 10 else if d = 0xB5 then 47
      else if extended_key d \<noteq> 0 then extended_key d else table shiftrow d)"

text \<open>\<open>C(x)\<close> is \<open>x - '@'\<close>, stored in a byte.\<close>

definition ctlrow :: "u8 list" where
  "ctlrow =
     (let ctl = (\<lambda>cs. map (\<lambda>b. b - 64) (chars cs))
      in replicate 16 0 @ ctl ''QWERTYUIOP'' @ [0, 0, 13, 0] @ ctl ''ASDFGHJKL'' @ [0, 0, 0, 0] @
         [92 - 64] @ ctl ''ZXCVBNM'' @ [0, 0] @ ctl ''/'' @ [0, 0])"

definition ctlmap :: "u8 \<Rightarrow> u8" where
  "ctlmap d =
     (if d = 0x97 then KEY_HOME else if d = 0xB5 then 47 - 64
      else if extended_key d \<noteq> 0 then extended_key d else table ctlrow d)"

definition charcode :: "u32 \<Rightarrow> u8 \<Rightarrow> u8" where
  "charcode i = (if i = 0 then normalmap else if i = 1 then shiftmap else ctlmap)"

definition kbd_proc_data :: "console \<Rightarrow> int \<times> console" where
  "kbd_proc_data con =
     (case kbd_in con of
        [] \<Rightarrow> (- 1, con)
      | data # ds \<Rightarrow>
          let con = con\<lparr>kbd_in := ds\<rparr>
          in if data = 0xE0 then (0, con\<lparr>shift := shift con OR E0ESC\<rparr>)
             else if data AND 0x80 \<noteq> 0 then
               let data = (if shift con AND E0ESC \<noteq> 0 then data else data AND 0x7F)
               in (0, con\<lparr>shift := shift con AND NOT (shiftcode data OR E0ESC)\<rparr>)
             else
               let data' = (if shift con AND E0ESC \<noteq> 0 then data OR 0x80 else data);
                   sh = (if shift con AND E0ESC \<noteq> 0 then shift con AND NOT E0ESC else shift con);
                   sh = (sh OR shiftcode data') XOR togglecode data';
                   c = uint (charcode (sh AND (CTL OR SHIFT)) data');
                   c = (if sh AND CAPSLOCK \<noteq> 0
                        then if 97 \<le> c \<and> c \<le> 122 then c - 32 else if 65 \<le> c \<and> c \<le> 90 then c + 32 else c
                        else c)
               in (c, con\<lparr>shift := sh,
                     rebooting := rebooting con \<or> (NOT sh AND (CTL OR ALT) = 0 \<and> c = uint KEY_DEL)\<rparr>))"

section \<open>The input buffer\<close>

definition cons_store :: "int \<Rightarrow> console \<Rightarrow> console" where
  "cons_store ch c =
     (let w = wpos c + 1
      in c\<lparr>cbuf := (cbuf c)(wpos c := of_int ch), wpos := (if w = CONSBUFSIZE then 0 else w)\<rparr>)"

partial_function (option) cons_intr :: "(console \<Rightarrow> int \<times> console) \<Rightarrow> console \<Rightarrow> console option" where
  "cons_intr proc c =
     (case proc c of
        (ch, c) \<Rightarrow>
          if ch = - 1 then Some c
          else cons_intr proc (if ch = 0 then c else cons_store ch c))"

definition serial_intr :: "console \<Rightarrow> console option" where
  "serial_intr c = (if serial_exists c then cons_intr serial_proc_data c else Some c)"

definition kbd_intr :: "console \<Rightarrow> console option" where
  "kbd_intr c = cons_intr kbd_proc_data c"

definition cons_getc :: "console \<Rightarrow> (int \<times> console) option" where
  "cons_getc c = do {
     c \<leftarrow> serial_intr c;
     c \<leftarrow> kbd_intr c;
     if rpos c \<noteq> wpos c then
       let ch = uint (cbuf c (rpos c));
           r = rpos c + 1
       in Some (ch, c\<lparr>rpos := (if r = CONSBUFSIZE then 0 else r)\<rparr>)
     else Some (0, c)
   }"

section \<open>Output\<close>

definition serial_putc :: "int \<Rightarrow> console \<Rightarrow> console" where
  "serial_putc ch c = c\<lparr>com_out := of_int ch # com_out c\<rparr>"

definition lpt_putc :: "int \<Rightarrow> console \<Rightarrow> console" where
  "lpt_putc ch c = c\<lparr>lpt_out := of_int ch # lpt_out c\<rparr>"

definition cga_put_color :: "int \<Rightarrow> int \<Rightarrow> console \<Rightarrow> console" where
  "cga_put_color forg_col backg_col c = c\<lparr>my_color := push_bit 12 backg_col + push_bit 8 forg_col\<rparr>"

text \<open>The scrolling at the end of \<open>cga_putc\<close>.\<close>

definition cga_scroll :: "console \<Rightarrow> console" where
  "cga_scroll c =
     (if CRT_SIZE \<le> crt_pos c then
        c\<lparr>crt_buf := (\<lambda>i. if i < CRT_SIZE - CRT_COLS then crt_buf c (i + CRT_COLS)
                        else if i < CRT_SIZE then 0x0720 else crt_buf c i),
          crt_pos := crt_pos c - CRT_COLS\<rparr>
      else c)"

text \<open>
  \<open>cga_putc\<close> of a character other than a tab. A tab calls \<open>cons_putc(' ')\<close> five
  times, so the two functions are mutually recursive one level deep.
\<close>

definition cga_attr :: "int \<Rightarrow> console \<Rightarrow> int" where
  "cga_attr ch c =
     (let ch = ch OR my_color c
      in if ch AND NOT 0xFF = 0 \<and> my_color c = 0 then ch OR 0x0700 else ch)"

definition cga_plain :: "int \<Rightarrow> console \<Rightarrow> console" where
  "cga_plain ch c =
     (let ch = cga_attr ch c;
          b = ch AND 0xFF
      in cga_scroll
          (if b = 8 then
             if 0 < crt_pos c
             then c\<lparr>crt_pos := crt_pos c - 1,
                    crt_buf := (crt_buf c)(crt_pos c - 1 := of_int ((ch AND NOT 0xFF) OR 32))\<rparr>
             else c
           else if b = 10 then
             let p = crt_pos c + CRT_COLS in c\<lparr>crt_pos := p - p mod CRT_COLS\<rparr>
           else if b = 13 then c\<lparr>crt_pos := crt_pos c - crt_pos c mod CRT_COLS\<rparr>
           else c\<lparr>crt_buf := (crt_buf c)(crt_pos c := of_int ch), crt_pos := crt_pos c + 1\<rparr>))"

definition cons_putc_plain :: "int \<Rightarrow> console \<Rightarrow> console" where
  "cons_putc_plain ch c = cga_plain ch (lpt_putc ch (serial_putc ch c))"

definition cga_putc :: "int \<Rightarrow> console \<Rightarrow> console" where
  "cga_putc ch c =
     (if cga_attr ch c AND 0xFF = 9 then cga_scroll ((cons_putc_plain 32 ^^ 5) c) else cga_plain ch c)"

definition cons_putc :: "int \<Rightarrow> console \<Rightarrow> console" where
  "cons_putc ch c = cga_putc ch (lpt_putc ch (serial_putc ch c))"

definition cputchar :: "int \<Rightarrow> console \<Rightarrow> console" where
  "cputchar ch c = cons_putc ch c"

section \<open>The input buffer is a queue\<close>

definition cons_ok :: "console \<Rightarrow> bool" where
  "cons_ok c \<longleftrightarrow> rpos c < CONSBUFSIZE \<and> wpos c < CONSBUFSIZE"

text \<open>The characters that have been stored and not read, oldest first.\<close>

definition unread_pos :: "console \<Rightarrow> nat list" where
  "unread_pos c = (if rpos c \<le> wpos c then [rpos c..<wpos c] else [rpos c..<CONSBUFSIZE] @ [0..<wpos c])"

definition unread :: "console \<Rightarrow> u8 list" where
  "unread c = map (cbuf c) (unread_pos c)"

lemma cons_store_frame [simp]:
  "com_in (cons_store ch c) = com_in c" "kbd_in (cons_store ch c) = kbd_in c"
  "rpos (cons_store ch c) = rpos c" "serial_exists (cons_store ch c) = serial_exists c"
  by (simp_all add: cons_store_def Let_def)

lemma cons_store_ok [simp]: "cons_ok c \<Longrightarrow> cons_ok (cons_store ch c)"
  by (auto simp: cons_ok_def cons_store_def Let_def CONSBUFSIZE_def)

lemma unread_length: "length (unread c) = (if rpos c \<le> wpos c then wpos c - rpos c else CONSBUFSIZE - rpos c + wpos c)"
  by (simp add: unread_def unread_pos_def)

lemma unread_store:
  assumes "cons_ok c" and "length (unread c) < CONSBUFSIZE - 1"
  shows "unread (cons_store ch c) = unread c @ [of_int ch]"
proof -
  have w: "wpos c \<notin> set (unread_pos c)" using assms(1) by (auto simp: unread_pos_def cons_ok_def)
  have "unread_pos (cons_store ch c) = unread_pos c @ [wpos c]"
    using assms unfolding unread_length
    by (auto simp: unread_pos_def cons_ok_def cons_store_def Let_def CONSBUFSIZE_def split: if_splits)
      (simp_all add: upt_Suc_append flip: upt_Suc_append)
  moreover have "map (cbuf (cons_store ch c)) (unread_pos c) = map (cbuf c) (unread_pos c)"
    using w by (auto simp: cons_store_def Let_def)
  moreover have "cbuf (cons_store ch c) (wpos c) = of_int ch" by (simp add: cons_store_def Let_def)
  ultimately show ?thesis by (simp add: unread_def)
qed

text \<open>With one more character the full buffer looks empty: all of it is lost.\<close>

lemma unread_store_full:
  assumes "cons_ok c" and "length (unread c) = CONSBUFSIZE - 1"
  shows "unread (cons_store ch c) = []"
  using assms unfolding unread_length
  by (auto simp: unread_def unread_pos_def cons_ok_def cons_store_def Let_def CONSBUFSIZE_def split: if_splits)

lemma unread_store_many:
  "cons_ok c \<Longrightarrow> length (unread c) + length xs < CONSBUFSIZE \<Longrightarrow>
   cons_ok (fold cons_store xs c) \<and> unread (fold cons_store xs c) = unread c @ map of_int xs"
proof (induction xs arbitrary: c)
  case (Cons x xs)
  then have "unread (cons_store x c) = unread c @ [of_int x]" by (intro unread_store) auto
  with Cons show ?case by simp
qed simp

section \<open>The interrupt routines return and keep the order\<close>

lemma fold_store_com [simp]:
  "com_in (fold cons_store xs c) = com_in c" "kbd_in (fold cons_store xs c) = kbd_in c"
  "serial_exists (fold cons_store xs c) = serial_exists c"
  by (induction xs arbitrary: c) simp_all

lemma cons_store_com: "cons_store ch (c\<lparr>com_in := x\<rparr>) = (cons_store ch c)\<lparr>com_in := x\<rparr>"
  by (simp add: cons_store_def Let_def)

lemma serial_proc_data_simps:
  "com_in c = [] \<Longrightarrow> serial_proc_data c = (- 1, c)"
  "com_in c = b # bs \<Longrightarrow> serial_proc_data c = (uint b, c\<lparr>com_in := bs\<rparr>)"
  by (simp_all add: serial_proc_data_def)

lemma com_in_id: "com_in c = x \<Longrightarrow> c\<lparr>com_in := x\<rparr> = c"
  by (cases c) simp

lemma serial_intr_loop:
  "com_in c = bs \<Longrightarrow>
   cons_intr serial_proc_data c = Some ((fold cons_store (map uint (filter (\<lambda>b. b \<noteq> 0) bs)) c)\<lparr>com_in := []\<rparr>)"
proof (induction bs arbitrary: c)
  case Nil
  then show ?case by (subst cons_intr.simps) (simp add: serial_proc_data_simps com_in_id)
next
  case (Cons b bs)
  have f: "fold cons_store xs (c\<lparr>com_in := x\<rparr>) = (fold cons_store xs c)\<lparr>com_in := x\<rparr>" for xs c x
    by (induction xs arbitrary: c) (simp_all add: cons_store_com)
  have "uint b \<noteq> - 1" using uint_ge_0 [of b] by linarith
  with Cons show ?case
    by (subst cons_intr.simps) (simp add: serial_proc_data_simps cons_store_com f unsigned_eq_0_iff)
qed

text \<open>Every scan code is consumed, so the keyboard routine returns as well.\<close>

lemma kbd_proc_data_kbd: "kbd_proc_data c = (ch, c') \<Longrightarrow> kbd_in c \<noteq> [] \<Longrightarrow> kbd_in c' = tl (kbd_in c)"
  by (auto simp: kbd_proc_data_def Let_def split: list.splits if_splits)

lemma uint_u8_not_minus1 [simp]: "uint (x :: u8) \<noteq> - 1" "- 1 \<noteq> uint (x :: u8)"
  using uint_ge_0 [of x] by linarith+

lemma kbd_intr_returns: "\<exists>c'. kbd_intr c = Some c' \<and> kbd_in c' = []"
  unfolding kbd_intr_def
proof (induction "kbd_in c" arbitrary: c)
  case Nil
  then have "kbd_proc_data c = (- 1, c)" by (simp add: kbd_proc_data_def)
  with Nil show ?case by (subst cons_intr.simps) simp
next
  case (Cons d ds)
  obtain ch c1 where k: "kbd_proc_data c = (ch, c1)" by (cases "kbd_proc_data c")
  then have ds: "kbd_in c1 = ds" using kbd_proc_data_kbd [OF k] Cons(2) by (metis list.sel(3) list.distinct(1))
  have "ch \<noteq> - 1"
    using k Cons(2) by (auto simp: kbd_proc_data_def Let_def split: list.splits if_splits)
  then show ?case
    using Cons(1) [of c1] Cons(1) [of "cons_store ch c1"] ds k
    by (subst cons_intr.simps) simp
qed

text \<open>Reading without pending keyboard input.\<close>

lemma kbd_intr_idle: "kbd_in c = [] \<Longrightarrow> kbd_intr c = Some c"
  unfolding kbd_intr_def by (subst cons_intr.simps) (simp add: kbd_proc_data_def)

lemma unread_com [simp]: "unread (c\<lparr>com_in := x\<rparr>) = unread c" "cons_ok (c\<lparr>com_in := x\<rparr>) = cons_ok c"
  by (simp_all add: unread_def unread_pos_def cons_ok_def)

lemma unread_pop:
  assumes "cons_ok c" and "rpos c \<noteq> wpos c"
  shows "unread c = cbuf c (rpos c) # unread (c\<lparr>rpos := (if rpos c + 1 = CONSBUFSIZE then 0 else rpos c + 1)\<rparr>)"
  using assms by (auto simp: unread_def unread_pos_def cons_ok_def upt_conv_Cons)


text \<open>A console without pending input, for the witnesses.\<close>

definition empty_console :: console where
  "empty_console = \<lparr>serial_exists = True, com_in = [], kbd_in = [], shift = 0, cbuf = (\<lambda>_. 0), rpos = 510, wpos = 510,
     crt_buf = (\<lambda>_. 0), crt_pos = 0, my_color = 0, com_out = [], lpt_out = [], rebooting = False\<rparr>"

lemma empty_console_unread:
  "cons_ok (empty_console\<lparr>com_in := x\<rparr>)" "unread (empty_console\<lparr>com_in := x\<rparr>) = []"
  "serial_exists (empty_console\<lparr>com_in := x\<rparr>)" "kbd_in (empty_console\<lparr>com_in := x\<rparr>) = []"
  "unread empty_console = []"
  by (simp_all add: empty_console_def cons_ok_def unread_def unread_pos_def CONSBUFSIZE_def)


section \<open>The cursor stays on the screen\<close>

lemma cga_plain_pos: "crt_pos c < CRT_SIZE \<Longrightarrow> crt_pos (cga_plain ch c) < CRT_SIZE"
proof -
  assume p: "crt_pos c < CRT_SIZE"
  have "(crt_pos c + CRT_COLS) - (crt_pos c + CRT_COLS) mod CRT_COLS < CRT_SIZE + CRT_COLS"
    using p by (simp add: less_imp_diff_less)
  moreover have "crt_pos c - crt_pos c mod CRT_COLS < CRT_SIZE" using p by (simp add: less_imp_diff_less)
  ultimately show ?thesis
    using p by (auto simp: cga_plain_def cga_scroll_def Let_def CRT_SIZE_def CRT_COLS_def)
qed

lemma cons_putc_plain_pos: "crt_pos c < CRT_SIZE \<Longrightarrow> crt_pos ((cons_putc_plain ch ^^ n) c) < CRT_SIZE"
  by (induction n) (simp_all add: cons_putc_plain_def cga_plain_pos serial_putc_def lpt_putc_def)

text \<open>
  The text display never writes outside its buffer: cons_putc keeps the cursor inside the
  CRT_SIZE cells of the screen.
\<close>

theorem cons_putc_in_screen:
  assumes "crt_pos c < CRT_SIZE"
  shows "crt_pos (cons_putc ch c) < CRT_SIZE"
proof -
  let ?d = "lpt_putc ch (serial_putc ch c)"
  have "crt_pos ?d < CRT_SIZE" using assms by (simp add: serial_putc_def lpt_putc_def)
  from cga_plain_pos [OF this, of ch] cons_putc_plain_pos [OF this, where ch = 32 and n = 5] show ?thesis
    by (simp add: cons_putc_def cga_putc_def cga_scroll_def)
qed

theorem cons_putc_in_screen_witness:
  "crt_pos (cons_putc 10 (empty_console\<lparr>crt_pos := 1999\<rparr>)) < CRT_SIZE"
  using cons_putc_in_screen [of "empty_console\<lparr>crt_pos := 1999\<rparr>" 10] by (simp add: CRT_SIZE_def)

end
