(* ===== verification/E1000.thy ===== *)
theory E1000
  imports Prelude
begin

text \<open>
  The network driver of kern/e1000.c: the rings of transmit and receive descriptors and the
  registers of the card that the driver uses. The card itself is outside the model: it consumes
  transmit descriptors and fills receive descriptors between the calls.
\<close>

section \<open>State\<close>

definition E1000_TXDESC :: nat where [jos_consts]: "E1000_TXDESC = 64"
definition E1000_RCVDESC :: nat where [jos_consts]: "E1000_RCVDESC = 64"
definition TX_PKT_SIZE :: nat where [jos_consts]: "TX_PKT_SIZE = 1518"
definition RCV_PKT_SIZE :: nat where [jos_consts]: "RCV_PKT_SIZE = 2048"
definition E1000_TXD_CMD_RS :: u8 where [jos_consts]: "E1000_TXD_CMD_RS = 8"
definition E1000_TXD_CMD_EOP :: u8 where [jos_consts]: "E1000_TXD_CMD_EOP = 1"
definition E1000_TXD_STAT_DD :: u8 where [jos_consts]: "E1000_TXD_STAT_DD = 1"
definition E1000_RXD_STAT_DD :: u8 where [jos_consts]: "E1000_RXD_STAT_DD = 1"
definition E1000_RXD_STAT_EOP :: u8 where [jos_consts]: "E1000_RXD_STAT_EOP = 2"

record tx_desc =
  tx_addr :: u64
  tx_length :: u16
  tx_cmd :: u8
  tx_status :: u8

record rcv_desc =
  rcv_addr :: u64
  rcv_length :: u16
  rcv_status :: u8

text \<open>Registers by their index in the mapped register file, and the buffers of the rings.\<close>

record e1000 =
  regs :: "nat \<Rightarrow> u32"
  tx_desc_array :: "nat \<Rightarrow> tx_desc"
  tx_pkt_bufs :: "nat \<Rightarrow> nat \<Rightarrow> u8"
  rcv_desc_array :: "nat \<Rightarrow> rcv_desc"
  rcv_pkt_bufs :: "nat \<Rightarrow> nat \<Rightarrow> u8"

definition E1000_EERD :: nat where [jos_consts]: "E1000_EERD = 0x14 div 4"
definition E1000_TDBAL :: nat where [jos_consts]: "E1000_TDBAL = 0x3800 div 4"
definition E1000_TDBAH :: nat where [jos_consts]: "E1000_TDBAH = 0x3804 div 4"
definition E1000_TDLEN :: nat where [jos_consts]: "E1000_TDLEN = 0x3808 div 4"
definition E1000_TDH :: nat where [jos_consts]: "E1000_TDH = 0x3810 div 4"
definition E1000_TDT :: nat where [jos_consts]: "E1000_TDT = 0x3818 div 4"
definition E1000_RDBAL :: nat where [jos_consts]: "E1000_RDBAL = 0x2800 div 4"
definition E1000_RDBAH :: nat where [jos_consts]: "E1000_RDBAH = 0x2804 div 4"
definition E1000_RDLEN :: nat where [jos_consts]: "E1000_RDLEN = 0x2808 div 4"
definition E1000_RDH :: nat where [jos_consts]: "E1000_RDH = 0x2810 div 4"
definition E1000_RDT :: nat where [jos_consts]: "E1000_RDT = 0x2818 div 4"
definition E1000_RAL :: nat where [jos_consts]: "E1000_RAL = 0x5400 div 4"
definition E1000_RAH :: nat where [jos_consts]: "E1000_RAH = 0x5404 div 4"
definition E1000_TCTL :: nat where [jos_consts]: "E1000_TCTL = 0x400 div 4"
definition E1000_RCTL :: nat where [jos_consts]: "E1000_RCTL = 0x100 div 4"
definition E1000_TIPG :: nat where [jos_consts]: "E1000_TIPG = 0x410 div 4"

definition set_reg :: "nat \<Rightarrow> u32 \<Rightarrow> e1000 \<Rightarrow> e1000" where
  "set_reg r v d = d\<lparr>regs := (regs d)(r := v)\<rparr>"

definition mod_reg :: "nat \<Rightarrow> (u32 \<Rightarrow> u32) \<Rightarrow> e1000 \<Rightarrow> e1000" where
  "mod_reg r f d = set_reg r (f (regs d r)) d"

section \<open>Initialisation\<close>

text \<open>
  \<open>eeprom w\<close> is the value the EERD register has when the read of EEPROM word \<open>w\<close>
  is done; \<open>txa\<close>, \<open>rxa\<close>, \<open>txb i\<close>, \<open>rxb i\<close> are the physical addresses
  of the rings and of the packet buffers. Enabling the PCI function and mapping the registers
  are calls of other components.
\<close>

definition init_rings :: "(nat \<Rightarrow> u64) \<Rightarrow> (nat \<Rightarrow> u64) \<Rightarrow> e1000 \<Rightarrow> e1000" where
  "init_rings txb rxb d =
     d\<lparr>tx_desc_array := (\<lambda>i. if i < E1000_TXDESC
          then \<lparr>tx_addr = txb i, tx_length = 0, tx_cmd = 0, tx_status = E1000_TXD_STAT_DD\<rparr>
          else tx_desc_array d i),
       tx_pkt_bufs := (\<lambda>i j. if i < E1000_TXDESC \<and> j < TX_PKT_SIZE then 0 else tx_pkt_bufs d i j),
       rcv_desc_array := (\<lambda>i. if i < E1000_RCVDESC
          then \<lparr>rcv_addr = rxb i, rcv_length = 0, rcv_status = 0\<rparr> else rcv_desc_array d i),
       rcv_pkt_bufs := (\<lambda>i j. if i < E1000_RCVDESC \<and> j < RCV_PKT_SIZE then 0 else rcv_pkt_bufs d i j)\<rparr>"

definition init_tx :: "u64 \<Rightarrow> e1000 \<Rightarrow> e1000" where
  "init_tx txa d =
     (let d = set_reg E1000_TDBAL (ucast txa) d;
          d = set_reg E1000_TDBAH 0 d;
          d = set_reg E1000_TDLEN (of_nat (16 * E1000_TXDESC)) d;
          d = set_reg E1000_TDH 0 d;
          d = set_reg E1000_TDT 0 d;
          d = mod_reg E1000_TCTL (\<lambda>v. v OR 0x2) d;
          d = mod_reg E1000_TCTL (\<lambda>v. v OR 0x8) d;
          d = mod_reg E1000_TCTL (\<lambda>v. v AND NOT 0xFF0) d;
          d = mod_reg E1000_TCTL (\<lambda>v. v OR push_bit 4 0x10) d;
          d = mod_reg E1000_TCTL (\<lambda>v. v AND NOT 0x3FF000) d;
          d = mod_reg E1000_TCTL (\<lambda>v. v OR push_bit 12 0x40) d;
          d = set_reg E1000_TIPG 0 d;
          d = mod_reg E1000_TIPG (\<lambda>v. v OR push_bit 20 0x6) d;
          d = mod_reg E1000_TIPG (\<lambda>v. v OR push_bit 10 0x4) d
      in mod_reg E1000_TIPG (\<lambda>v. v OR 0xA) d)"

definition init_rx :: "(nat \<Rightarrow> u32) \<Rightarrow> u64 \<Rightarrow> e1000 \<Rightarrow> e1000" where
  "init_rx eeprom rxa d =
     (let d = set_reg E1000_EERD (eeprom 0) d;
          d = set_reg E1000_RAL (drop_bit 16 (regs d E1000_EERD)) d;
          d = set_reg E1000_EERD (eeprom 1) d;
          d = mod_reg E1000_RAL (\<lambda>v. v OR (regs d E1000_EERD AND 0xFFFF0000)) d;
          d = set_reg E1000_EERD (eeprom 2) d;
          d = set_reg E1000_RAH (drop_bit 16 (regs d E1000_EERD)) d;
          d = mod_reg E1000_RAH (\<lambda>v. v OR push_bit 31 1) d;
          d = set_reg E1000_RDBAL (ucast rxa) d;
          d = set_reg E1000_RDBAH 0 d;
          d = set_reg E1000_RDLEN (of_nat (16 * E1000_RCVDESC)) d;
          d = set_reg E1000_RDH 0 d;
          d = set_reg E1000_RDT 0 d;
          d = mod_reg E1000_RCTL (\<lambda>v. v OR 0x2) d;
          d = mod_reg E1000_RCTL (\<lambda>v. v AND NOT 0x20) d;
          d = mod_reg E1000_RCTL (\<lambda>v. v AND NOT 0xC0) d;
          d = mod_reg E1000_RCTL (\<lambda>v. v AND NOT 0x300) d;
          d = mod_reg E1000_RCTL (\<lambda>v. v AND NOT 0x3000) d;
          d = mod_reg E1000_RCTL (\<lambda>v. v OR 0x8000) d;
          d = mod_reg E1000_RCTL (\<lambda>v. v AND NOT 0x30000) d
      in mod_reg E1000_RCTL (\<lambda>v. v OR 0x04000000) d)"

definition e1000_attach ::
  "(nat \<Rightarrow> u32) \<Rightarrow> u64 \<Rightarrow> u64 \<Rightarrow> (nat \<Rightarrow> u64) \<Rightarrow> (nat \<Rightarrow> u64) \<Rightarrow> e1000 \<Rightarrow> int \<times> e1000" where
  "e1000_attach eeprom txa rxa txb rxb d = (0, init_rx eeprom rxa (init_tx txa (init_rings txb rxb d)))"

section \<open>Transmit and receive\<close>

text \<open>
  \<open>load i\<close> reads byte \<open>i\<close> of the caller's buffer, \<open>None\<close> is a page fault in the
  kernel. A negative length passes the size check; converted to \<open>size_t\<close> it makes
  \<open>memmove\<close> run over all of memory: \<open>None\<close>.
\<close>

fun load_all :: "(nat \<Rightarrow> u8 option) \<Rightarrow> nat \<Rightarrow> nat \<Rightarrow> u8 list option" where
  "load_all load i 0 = Some []"
| "load_all load i (Suc n) = do { b \<leftarrow> load i; bs \<leftarrow> load_all load (Suc i) n; Some (b # bs) }"

definition e1000_transmit :: "(nat \<Rightarrow> u8 option) \<Rightarrow> int \<Rightarrow> e1000 \<Rightarrow> (int \<times> e1000) option" where
  "e1000_transmit load len d =
     (if int TX_PKT_SIZE < len then Some (- E_PKT_TOO_LONG, d)
      else
        let tdt = unat (regs d E1000_TDT);
            desc = tx_desc_array d tdt
        in if tx_status desc AND E1000_TXD_STAT_DD \<noteq> 0 then
             if len < 0 then None
             else do {
               bs \<leftarrow> load_all load 0 (nat len);
               let d = d\<lparr>tx_pkt_bufs := (tx_pkt_bufs d)(tdt :=
                         (\<lambda>j. if j < length bs then bs ! j else tx_pkt_bufs d tdt j))\<rparr>;
               let d = d\<lparr>tx_desc_array := (tx_desc_array d)(tdt := desc\<lparr>tx_length := of_int len,
                         tx_status := tx_status desc AND NOT E1000_TXD_STAT_DD,
                         tx_cmd := tx_cmd desc OR E1000_TXD_CMD_RS OR E1000_TXD_CMD_EOP\<rparr>)\<rparr>;
               Some (0, set_reg E1000_TDT (of_nat ((tdt + 1) mod E1000_TXDESC)) d)
             }
           else Some (- E_TX_FULL, d))"

text \<open>
  The bytes that \<open>memmove\<close> copies to the caller are part of the result. A frame without
  the end-of-packet bit panics.
\<close>

definition e1000_receive :: "e1000 \<Rightarrow> (int \<times> u8 list \<times> e1000) option" where
  "e1000_receive d =
     (let rdt = unat (regs d E1000_RDT);
          desc = rcv_desc_array d rdt
      in if rcv_status desc AND E1000_RXD_STAT_DD \<noteq> 0 then
           if rcv_status desc AND E1000_RXD_STAT_EOP = 0 then None
           else
             let len = unat (rcv_length desc);
                 d' = d\<lparr>rcv_desc_array := (rcv_desc_array d)(rdt := desc\<lparr>rcv_status :=
                        rcv_status desc AND NOT E1000_RXD_STAT_DD AND NOT E1000_RXD_STAT_EOP\<rparr>)\<rparr>
             in Some (int len, map (rcv_pkt_bufs d rdt) [0..<len],
                  set_reg E1000_RDT (of_nat ((rdt + 1) mod E1000_RCVDESC)) d')
         else Some (- E_RCV_EMPTY, [], d))"

section \<open>The transmit ring\<close>

lemma load_all_length: "load_all load i n = Some bs \<Longrightarrow> length bs = n"
  by (induction n arbitrary: i bs) (auto split: Option.bind_splits)

definition tx_ready :: "e1000 \<Rightarrow> nat \<Rightarrow> bool" where
  "tx_ready d i \<longleftrightarrow> tx_status (tx_desc_array d i) AND E1000_TXD_STAT_DD \<noteq> 0"

text \<open>What an accepted packet does.\<close>

lemma transmit_accept:
  assumes "unat (regs d E1000_TDT) < E1000_TXDESC" and "tx_ready d (unat (regs d E1000_TDT))"
    and "length bs \<le> TX_PKT_SIZE" and "load_all load 0 (length bs) = Some bs"
  defines "t \<equiv> unat (regs d E1000_TDT)"
  shows "\<exists>d'. e1000_transmit load (int (length bs)) d = Some (0, d') \<and>
    unat (regs d' E1000_TDT) = (t + 1) mod E1000_TXDESC \<and>
    map (tx_pkt_bufs d' t) [0..<length bs] = bs \<and> unat (tx_length (tx_desc_array d' t)) = length bs \<and>
    \<not> tx_ready d' t \<and> (\<forall>i. i \<noteq> t \<longrightarrow> tx_ready d' i = tx_ready d i \<and> tx_pkt_bufs d' i = tx_pkt_bufs d i)"
proof -
  have l: "length bs < 2 ^ 16" using assms(3) by (simp add: TX_PKT_SIZE_def)
  have "unat (of_nat ((t + 1) mod E1000_TXDESC) :: u32) = (t + 1) mod E1000_TXDESC"
    by (simp add: unat_of_nat E1000_TXDESC_def)
  moreover have "unat (of_int (int (length bs)) :: u16) = length bs" using l by (simp add: unat_of_nat)
  moreover have "map (\<lambda>j. if j < length bs then bs ! j else f j) [0..<length bs] = bs" for f
    by (rule nth_equalityI) auto
  moreover have "(x AND NOT E1000_TXD_STAT_DD) AND E1000_TXD_STAT_DD = 0" for x
    by (simp add: bit_eq_iff bit_simps)
  ultimately show ?thesis
    using assms by (auto simp: e1000_transmit_def tx_ready_def t_def set_reg_def Let_def)
qed

text \<open>A client that sends packets one after the other and stops at the first error.\<close>

definition pkt_load :: "u8 list \<Rightarrow> nat \<Rightarrow> u8 option" where
  "pkt_load bs i = (if i < length bs then Some (bs ! i) else None)"

definition send1 :: "u8 list \<Rightarrow> e1000 \<Rightarrow> e1000 option" where
  "send1 bs d =
     (case e1000_transmit (pkt_load bs) (int (length bs)) d of
        Some (r, d') \<Rightarrow> if r = 0 then Some d' else None | None \<Rightarrow> None)"

lemma load_all_pkt: "i + n \<le> length bs \<Longrightarrow> load_all (pkt_load bs) i n = Some (take n (drop i bs))"
proof (induction n arbitrary: i)
  case (Suc n)
  then have "drop i bs = bs ! i # drop (Suc i) bs" by (simp add: Cons_nth_drop_Suc)
  with Suc show ?case by (simp add: pkt_load_def)
qed simp

lemma ring_slot_neq: "k < n \<Longrightarrow> n < 64 \<Longrightarrow> (t + k) mod 64 \<noteq> (t + n) mod (64 :: nat)"
proof
  assume a: "k < n" "n < 64" and "(t + k) mod 64 = (t + n) mod 64"
  then have "64 dvd (t + n) - (t + k)" by (intro mod_eq_dvd_iff_nat [THEN iffD1]) simp_all
  then have "64 \<le> n - k" using a by (intro dvd_imp_le) auto
  then show False using a by simp
qed

text \<open>The descriptors in use after \<open>ps\<close> has been sent from a ring that was idle at \<open>t\<close>.\<close>

definition ring_holds :: "nat \<Rightarrow> u8 list list \<Rightarrow> e1000 \<Rightarrow> bool" where
  "ring_holds t ps d \<longleftrightarrow>
     unat (regs d E1000_TDT) = (t + length ps) mod E1000_TXDESC \<and>
     (\<forall>k < length ps. \<not> tx_ready d ((t + k) mod E1000_TXDESC) \<and>
        map (tx_pkt_bufs d ((t + k) mod E1000_TXDESC)) [0..<length (ps ! k)] = ps ! k) \<and>
     (\<forall>k. length ps \<le> k \<longrightarrow> k < E1000_TXDESC \<longrightarrow> tx_ready d ((t + k) mod E1000_TXDESC))"

lemma send_ring:
  assumes "ring_holds t [] d" and "length ps \<le> E1000_TXDESC" and "\<forall>p \<in> set ps. length p \<le> TX_PKT_SIZE"
  shows "\<exists>d'. foldM send1 ps d = Some d' \<and> ring_holds t ps d'"
  using assms(2,3)
proof (induction ps rule: rev_induct)
  case Nil
  then show ?case using assms(1) by simp
next
  case (snoc p ps)
  then obtain d1 where d1: "foldM send1 ps d = Some d1" "ring_holds t ps d1" by auto
  let ?t = "unat (regs d1 E1000_TDT)"
  have n: "length ps < E1000_TXDESC" using snoc.prems by simp
  have T: "?t = (t + length ps) mod E1000_TXDESC" and r: "tx_ready d1 ?t"
    using d1(2) n by (auto simp: ring_holds_def)
  obtain d2 where d2: "e1000_transmit (pkt_load p) (int (length p)) d1 = Some (0, d2)"
      "unat (regs d2 E1000_TDT) = (?t + 1) mod E1000_TXDESC" "map (tx_pkt_bufs d2 ?t) [0..<length p] = p"
      "\<not> tx_ready d2 ?t" "\<forall>i. i \<noteq> ?t \<longrightarrow> tx_ready d2 i = tx_ready d1 i \<and> tx_pkt_bufs d2 i = tx_pkt_bufs d1 i"
    using transmit_accept [of d1 p "pkt_load p"] r snoc.prems T load_all_pkt [of 0 "length p" p]
    by (auto simp: E1000_TXDESC_def)
  have old: "(t + k) mod E1000_TXDESC \<noteq> ?t" if "k < length ps" for k
    using ring_slot_neq [OF that] n T by (simp add: E1000_TXDESC_def)
  have new: "(t + k) mod E1000_TXDESC \<noteq> ?t" if "length ps < k" "k < E1000_TXDESC" for k
    using ring_slot_neq [OF that(1), of t] that(2) T by (simp add: E1000_TXDESC_def)
  have "(?t + 1) mod E1000_TXDESC = (t + Suc (length ps)) mod E1000_TXDESC"
    unfolding T by (simp add: mod_Suc_eq)
  then have "ring_holds t (ps @ [p]) d2"
    using d1(2) d2(2-5) old new T
    by (auto simp: ring_holds_def nth_append less_Suc_eq Suc_le_eq simp del: upt_Suc)
  moreover have "send1 p d1 = Some d2" using d2(1) by (simp add: send1_def)
  ultimately show ?case using d1(1) by (simp add: foldM_append)
qed

text \<open>
  C21 From an idle ring up to E1000_TXDESC packets are accepted; each is stored unchanged in the
  descriptor after the previous one, and the packet after the last free descriptor is refused
  with -E_TX_FULL.
\<close>

theorem transmit_ring_order:
  assumes "unat (regs d E1000_TDT) = t" and "t < E1000_TXDESC" and "\<forall>i < E1000_TXDESC. tx_ready d i"
    and "length ps \<le> E1000_TXDESC" and "\<forall>p \<in> set ps. length p \<le> TX_PKT_SIZE"
  shows "\<exists>d'. foldM send1 ps d = Some d' \<and>
    (\<forall>k < length ps. map (tx_pkt_bufs d' ((t + k) mod E1000_TXDESC)) [0..<length (ps ! k)] = ps ! k) \<and>
    (length ps = E1000_TXDESC \<longrightarrow> (\<forall>q. length q \<le> TX_PKT_SIZE \<longrightarrow>
       e1000_transmit (pkt_load q) (int (length q)) d' = Some (- E_TX_FULL, d')))"
proof -
  have "ring_holds t [] d" using assms(1-3) by (simp add: ring_holds_def E1000_TXDESC_def)
  then obtain d' where d': "foldM send1 ps d = Some d'" "ring_holds t ps d'"
    using send_ring assms(4,5) by blast
  have "\<not> tx_ready d' (unat (regs d' E1000_TDT))" if "length ps = E1000_TXDESC"
    using d'(2) that assms(2) by (auto simp: ring_holds_def E1000_TXDESC_def dest: spec [of _ 0])
  then show ?thesis
    using d' by (auto simp: ring_holds_def e1000_transmit_def Let_def tx_ready_def)
qed

text \<open>A card as it is after the initialisation, for the witnesses.\<close>

definition idle_card :: e1000 where
  "idle_card = snd (e1000_attach (\<lambda>_. 0) 0 0 (\<lambda>_. 0) (\<lambda>_. 0)
     \<lparr>regs = (\<lambda>_. 0), tx_desc_array = (\<lambda>_. \<lparr>tx_addr = 0, tx_length = 0, tx_cmd = 0, tx_status = 0\<rparr>),
      tx_pkt_bufs = (\<lambda>_ _. 0), rcv_desc_array = (\<lambda>_. \<lparr>rcv_addr = 0, rcv_length = 0, rcv_status = 0\<rparr>),
      rcv_pkt_bufs = (\<lambda>_ _. 0)\<rparr>)"

lemma reg_simps:
  "regs (set_reg r v d) r' = (if r' = r then v else regs d r')"
  "regs (mod_reg r f d) r' = (if r' = r then f (regs d r) else regs d r')"
  "tx_desc_array (set_reg r v d) = tx_desc_array d" "tx_desc_array (mod_reg r f d) = tx_desc_array d"
  by (simp_all add: set_reg_def mod_reg_def)

lemmas reg_index = E1000_EERD_def E1000_TDBAL_def E1000_TDBAH_def E1000_TDLEN_def E1000_TDH_def E1000_TDT_def
  E1000_RDBAL_def E1000_RDBAH_def E1000_RDLEN_def E1000_RDH_def E1000_RDT_def E1000_RAL_def E1000_RAH_def
  E1000_TCTL_def E1000_RCTL_def E1000_TIPG_def

lemma attach_ready:
  "regs (snd (e1000_attach eeprom txa rxa txb rxb d)) E1000_TDT = 0"
  "i < E1000_TXDESC \<Longrightarrow> tx_ready (snd (e1000_attach eeprom txa rxa txb rxb d)) i"
proof -
  have "regs (init_rx eeprom rxa d) E1000_TDT = regs d E1000_TDT" for d
    unfolding init_rx_def Let_def reg_index by (simp add: reg_simps)
  moreover have "regs (init_tx txa d) E1000_TDT = 0" for d
    unfolding init_tx_def Let_def reg_index by (simp add: reg_simps)
  ultimately show "regs (snd (e1000_attach eeprom txa rxa txb rxb d)) E1000_TDT = 0"
    by (simp add: e1000_attach_def)
  have "tx_desc_array (init_rx eeprom rxa d) = tx_desc_array d" "tx_desc_array (init_tx txa d) = tx_desc_array d" for d
    unfolding init_rx_def init_tx_def Let_def by (simp_all add: reg_simps)
  then show "i < E1000_TXDESC \<Longrightarrow> tx_ready (snd (e1000_attach eeprom txa rxa txb rxb d)) i"
    by (simp add: e1000_attach_def init_rings_def tx_ready_def E1000_TXD_STAT_DD_def)
qed

lemma idle_card_ready: "unat (regs idle_card E1000_TDT) = 0" "\<forall>i < E1000_TXDESC. tx_ready idle_card i"
  by (simp_all add: idle_card_def attach_ready)

theorem transmit_ring_order_witness:
  "\<exists>d'. foldM send1 [[1, 2], [3]] idle_card = Some d' \<and> map (tx_pkt_bufs d' 0) [0..<2] = [1, 2]"
proof -
  define ps :: "u8 list list" where "ps = [[1, 2], [3]]"
  have l: "length ps \<le> E1000_TXDESC" "\<forall>p \<in> set ps. length p \<le> TX_PKT_SIZE"
    by (simp_all add: ps_def E1000_TXDESC_def TX_PKT_SIZE_def)
  have "0 < E1000_TXDESC" by (simp add: E1000_TXDESC_def)
  from transmit_ring_order [OF idle_card_ready(1) this idle_card_ready(2) l]
  obtain d' where d': "foldM send1 ps idle_card = Some d'"
      "\<forall>k < length ps. map (tx_pkt_bufs d' ((0 + k) mod E1000_TXDESC)) [0..<length (ps ! k)] = ps ! k"
    by blast
  from d'(2) [rule_format, of 0] have "map (tx_pkt_bufs d' 0) [0..<2] = [1, 2]" by (simp add: ps_def numeral_2_eq_2)
  with d'(1) [unfolded ps_def] show ?thesis by (intro exI [of _ d'] conjI)
qed

text \<open>
  The driver fills all E1000_TXDESC descriptors and leaves the tail register equal to its
  value before, the head, where the card takes the ring to be empty.
\<close>

theorem transmit_full_ring_tail:
  assumes "unat (regs d E1000_TDT) = t" and "t < E1000_TXDESC" and "\<forall>i < E1000_TXDESC. tx_ready d i"
    and "length ps = E1000_TXDESC" and "\<forall>p \<in> set ps. length p \<le> TX_PKT_SIZE"
  shows "\<exists>d'. foldM send1 ps d = Some d' \<and> unat (regs d' E1000_TDT) = t \<and> (\<forall>i < E1000_TXDESC. \<not> tx_ready d' i)"
proof -
  have "ring_holds t [] d" using assms(1-3) by (simp add: ring_holds_def E1000_TXDESC_def)
  then obtain d' where d': "foldM send1 ps d = Some d'" "ring_holds t ps d'"
    using send_ring assms(4,5) by (metis order_refl)
  have "\<not> tx_ready d' i" if "i < E1000_TXDESC" for i
  proof -
    let ?k = "(i + E1000_TXDESC - t) mod E1000_TXDESC"
    have "(t + ?k) mod E1000_TXDESC = (t + (i + E1000_TXDESC - t)) mod E1000_TXDESC" by (rule mod_add_right_eq)
    also have "t + (i + E1000_TXDESC - t) = i + E1000_TXDESC" using assms(2) by simp
    finally have "(t + ?k) mod E1000_TXDESC = i" using that by simp
    moreover have "?k < length ps" using assms(4) by (simp add: E1000_TXDESC_def)
    ultimately show ?thesis using d'(2) unfolding ring_holds_def by metis
  qed
  then show ?thesis using d' assms(2,4) by (auto simp: ring_holds_def)
qed

theorem transmit_full_ring_tail_witness:
  "\<exists>d'. foldM send1 (replicate 64 [7]) idle_card = Some d' \<and> unat (regs d' E1000_TDT) = 0"
  using transmit_full_ring_tail [OF idle_card_ready(1) _ idle_card_ready(2), of "replicate 64 [7]"]
  by (auto simp: E1000_TXDESC_def TX_PKT_SIZE_def)

end
