(* ===== verification/Kstate.thy ===== *)
theory Kstate
  imports Spinlock Console E1000
begin

text \<open>
  The kernel's data: the paging macros of inc/mmu.h, the address-space layout of
  inc/memlayout.h, \<open>struct Page\<close>, \<open>struct Trapframe\<close> (inc/trap.h),
  \<open>struct Env\<close> (inc/env.h) and the global variables of kern/pmap.c, kern/env.c and
  kern/time.c, collected in the record \<open>kstate\<close>.

  Physical memory is a function from page numbers to the 512 eight-byte slots of the page. A
  kernel pointer \<open>KADDR(pa)\<close> to a page-aligned \<open>pa\<close> is the page number, a
  \<open>pte_t *\<close> is a page number and a slot index, a \<open>struct Page *\<close> is an index of
  \<open>pages\<close> and a \<open>struct Env *\<close> is an index of \<open>envs\<close>.
\<close>

section \<open>Paging macros (inc/mmu.h)\<close>

definition PGSIZE :: u64 where [jos_consts]: "PGSIZE = 4096"
definition PTSIZE :: u64 where [jos_consts]: "PTSIZE = 0x200000"
definition NPTENTRIES :: nat where [jos_consts]: "NPTENTRIES = 512"

definition PPN :: "u64 \<Rightarrow> u64" where
  "PPN pa = drop_bit 12 pa"

definition PTX :: "u64 \<Rightarrow> nat" where
  "PTX la = unat (drop_bit 12 la AND 0x1FF)"

definition PDX :: "u64 \<Rightarrow> nat" where
  "PDX la = unat (drop_bit 21 la AND 0x1FF)"

definition PDPE :: "u64 \<Rightarrow> nat" where
  "PDPE la = unat (drop_bit 30 la AND 0x1FF)"

definition PML4 :: "u64 \<Rightarrow> nat" where
  "PML4 la = unat (drop_bit 39 la AND 0x1FF)"

definition PGOFF :: "u64 \<Rightarrow> u64" where
  "PGOFF la = la AND 0xFFF"

definition PGADDR :: "u64 \<Rightarrow> u64 \<Rightarrow> u64 \<Rightarrow> u64 \<Rightarrow> u64 \<Rightarrow> u64" where
  "PGADDR m p d t off =
     push_bit 39 m OR push_bit 30 p OR push_bit 21 d OR push_bit 12 t OR off"

definition PTE_P :: u64 where [jos_consts]: "PTE_P = 0x001"
definition PTE_W :: u64 where [jos_consts]: "PTE_W = 0x002"
definition PTE_U :: u64 where [jos_consts]: "PTE_U = 0x004"
definition PTE_PWT :: u64 where [jos_consts]: "PTE_PWT = 0x008"
definition PTE_PCD :: u64 where [jos_consts]: "PTE_PCD = 0x010"
definition PTE_A :: u64 where [jos_consts]: "PTE_A = 0x020"
definition PTE_D :: u64 where [jos_consts]: "PTE_D = 0x040"
definition PTE_AVAIL :: u64 where [jos_consts]: "PTE_AVAIL = 0xE00"
definition PTE_SYSCALL :: u64 where
  [jos_consts]: "PTE_SYSCALL = PTE_AVAIL OR PTE_P OR PTE_W OR PTE_U"

text \<open>\<open>~0xFFF\<close> is an \<open>int\<close>; converted to 64 bits it is sign-extended.\<close>

definition PTE_ADDR :: "u64 \<Rightarrow> u64" where
  "PTE_ADDR pte = pte AND NOT 0xFFF"

definition FL_IF :: u64 where [jos_consts]: "FL_IF = 0x200"
definition FL_IOPL_3 :: u64 where [jos_consts]: "FL_IOPL_3 = 0x3000"

section \<open>Address-space layout (inc/memlayout.h)\<close>

definition GD_KT :: u16 where [jos_consts]: "GD_KT = 0x08"
definition GD_UT :: u16 where [jos_consts]: "GD_UT = 0x18"
definition GD_UD :: u16 where [jos_consts]: "GD_UD = 0x20"
definition KERNBASE :: u64 where [jos_consts]: "KERNBASE = 0xF0000000"
definition IOPHYSMEM :: u64 where [jos_consts]: "IOPHYSMEM = 0x0A0000"
definition EXTPHYSMEM :: u64 where [jos_consts]: "EXTPHYSMEM = 0x100000"
definition KSTACKTOP :: u64 where [jos_consts]: "KSTACKTOP = KERNBASE"
definition KSTKSIZE :: u64 where [jos_consts]: "KSTKSIZE = 8 * PGSIZE"
definition KSTKGAP :: u64 where [jos_consts]: "KSTKGAP = 8 * PGSIZE"
definition MMIOLIM :: u64 where [jos_consts]: "MMIOLIM = KSTACKTOP - PTSIZE"
definition MMIOBASE :: u64 where [jos_consts]: "MMIOBASE = MMIOLIM - PTSIZE"
definition ULIM :: u64 where [jos_consts]: "ULIM = MMIOBASE"
definition UVPT :: u64 where [jos_consts]: "UVPT = 0x10000000000"
definition UPAGES :: u64 where [jos_consts]: "UPAGES = ULIM - PTSIZE"
definition UENVS :: u64 where [jos_consts]: "UENVS = UPAGES - PTSIZE"
definition UTOP :: u64 where [jos_consts]: "UTOP = UENVS"
definition UXSTACKTOP :: u64 where [jos_consts]: "UXSTACKTOP = UTOP"
definition USTACKTOP :: u64 where [jos_consts]: "USTACKTOP = UTOP - 2 * PGSIZE"
definition UTEXT :: u64 where [jos_consts]: "UTEXT = 4 * PTSIZE"
definition UTEMP :: u64 where [jos_consts]: "UTEMP = 2 * PTSIZE"
definition PFTEMP :: u64 where [jos_consts]: "PFTEMP = UTEMP + PTSIZE - PGSIZE"
definition MPENTRY_PADDR :: u64 where [jos_consts]: "MPENTRY_PADDR = 0x7000"

section \<open>Structures\<close>

record page =
  pp_link :: "nat option"
  pp_ref :: u16

record PushRegs =
  reg_r15 :: u64
  reg_r14 :: u64
  reg_r13 :: u64
  reg_r12 :: u64
  reg_r11 :: u64
  reg_r10 :: u64
  reg_r9 :: u64
  reg_r8 :: u64
  reg_rsi :: u64
  reg_rdi :: u64
  reg_rbp :: u64
  reg_rdx :: u64
  reg_rcx :: u64
  reg_rbx :: u64
  reg_rax :: u64

text \<open>The padding fields of \<open>struct Trapframe\<close> carry nothing and are left out.\<close>

record Trapframe =
  tf_regs :: PushRegs
  tf_es :: u16
  tf_ds :: u16
  tf_trapno :: u64
  tf_err :: u64
  tf_rip :: u64
  tf_cs :: u16
  tf_eflags :: u64
  tf_rsp :: u64
  tf_ss :: u16

definition zero_regs :: PushRegs where
  "zero_regs = \<lparr>reg_r15 = 0, reg_r14 = 0, reg_r13 = 0, reg_r12 = 0, reg_r11 = 0, reg_r10 = 0,
     reg_r9 = 0, reg_r8 = 0, reg_rsi = 0, reg_rdi = 0, reg_rbp = 0, reg_rdx = 0, reg_rcx = 0,
     reg_rbx = 0, reg_rax = 0\<rparr>"

definition zero_tf :: Trapframe where
  "zero_tf = \<lparr>tf_regs = zero_regs, tf_es = 0, tf_ds = 0, tf_trapno = 0, tf_err = 0, tf_rip = 0,
     tf_cs = 0, tf_eflags = 0, tf_rsp = 0, tf_ss = 0\<rparr>"

text \<open>Values of \<open>env_status\<close> and of \<open>enum EnvType\<close>.\<close>

datatype env_status_t = ENV_FREE | ENV_DYING | ENV_RUNNABLE | ENV_RUNNING | ENV_NOT_RUNNABLE

datatype EnvType = ENV_TYPE_USER | ENV_TYPE_IDLE | ENV_TYPE_FS | ENV_TYPE_NS

definition NENV :: nat where [jos_consts]: "NENV = 1024"
definition NCPU :: nat where [jos_consts]: "NCPU = 8"

text \<open>\<open>envid_t\<close> is \<open>int32_t\<close>; the environment index is its low ten bits.\<close>

type_synonym envid_t = u32

definition ENVX :: "envid_t \<Rightarrow> nat" where
  "ENVX envid = unat (envid AND 1023)"

record env =
  env_tf :: Trapframe
  env_link :: "nat option"
  env_id :: envid_t
  env_parent_id :: envid_t
  env_type :: EnvType
  env_status :: env_status_t
  env_runs :: u32
  env_cpunum :: nat
  env_pml4e :: "nat option"
  env_cr3 :: u64
  env_pgfault_upcall :: u64
  env_ipc_recving :: bool
  env_ipc_dstva :: u64
  env_ipc_value :: u32
  env_ipc_from :: envid_t
  env_ipc_perm :: u32

definition zero_env :: env where
  "zero_env = \<lparr>env_tf = zero_tf, env_link = None, env_id = 0, env_parent_id = 0,
     env_type = ENV_TYPE_USER, env_status = ENV_FREE, env_runs = 0, env_cpunum = 0,
     env_pml4e = None, env_cr3 = 0, env_pgfault_upcall = 0, env_ipc_recving = False,
     env_ipc_dstva = 0, env_ipc_value = 0, env_ipc_from = 0, env_ipc_perm = 0\<rparr>"

section \<open>The kernel state\<close>

text \<open>
  \<open>cpunum\<close> is the CPU that runs the kernel code; \<open>cpu_env\<close> holds the
  \<open>cpu_env\<close> field of every CPU. \<open>cr3\<close> is the page table base register,
  \<open>invlpgs\<close> the addresses given to the \<open>invlpg\<close> instruction, latest first,
  \<open>kernel_lock\<close> the big kernel lock, \<open>cons\<close> the console and \<open>nic\<close> the
  network card with its rings.
\<close>

record kstate =
  npages :: nat
  pages :: "nat \<Rightarrow> page"
  page_free_list :: "nat option"
  nextfree :: u64
  phys :: "nat \<Rightarrow> nat \<Rightarrow> u64"
  boot_pml4e :: nat
  boot_cr3 :: u64
  mmio_base :: u64
  user_mem_check_addr :: u64
  cr3 :: u64
  invlpgs :: "u64 list"
  envs :: "nat \<Rightarrow> env"
  env_free_list :: "nat option"
  cpunum :: nat
  cpu_env :: "nat \<Rightarrow> nat option"
  kernel_lock :: spinlock
  ticks :: u32
  cons :: console
  nic :: e1000

definition curenv :: "kstate \<Rightarrow> nat option" where
  "curenv s = cpu_env s (cpunum s)"

text \<open>Updates of one element of an array, of one field of an element, of one memory slot.\<close>

definition upd_page :: "nat \<Rightarrow> (page \<Rightarrow> page) \<Rightarrow> kstate \<Rightarrow> kstate" where
  "upd_page p f s = s\<lparr>pages := (pages s)(p := f (pages s p))\<rparr>"

definition upd_env :: "nat \<Rightarrow> (env \<Rightarrow> env) \<Rightarrow> kstate \<Rightarrow> kstate" where
  "upd_env e f s = s\<lparr>envs := (envs s)(e := f (envs s e))\<rparr>"

definition wr :: "nat \<Rightarrow> nat \<Rightarrow> u64 \<Rightarrow> kstate \<Rightarrow> kstate" where
  "wr p i v s = s\<lparr>phys := (phys s)(p := (phys s p)(i := v))\<rparr>"

definition memset_page0 :: "nat \<Rightarrow> kstate \<Rightarrow> kstate" where
  "memset_page0 p s = s\<lparr>phys := (phys s)(p := (\<lambda>_. 0))\<rparr>"


section \<open>Frame rules of the updates\<close>

lemma upd_page_frame [simp]:
  "npages (upd_page p f s) = npages s"
  "page_free_list (upd_page p f s) = page_free_list s"
  "nextfree (upd_page p f s) = nextfree s"
  "phys (upd_page p f s) = phys s"
  "boot_pml4e (upd_page p f s) = boot_pml4e s"
  "boot_cr3 (upd_page p f s) = boot_cr3 s"
  "mmio_base (upd_page p f s) = mmio_base s"
  "user_mem_check_addr (upd_page p f s) = user_mem_check_addr s"
  "cr3 (upd_page p f s) = cr3 s"
  "invlpgs (upd_page p f s) = invlpgs s"
  "envs (upd_page p f s) = envs s"
  "env_free_list (upd_page p f s) = env_free_list s"
  "cpunum (upd_page p f s) = cpunum s"
  "cpu_env (upd_page p f s) = cpu_env s"
  "kernel_lock (upd_page p f s) = kernel_lock s"
  "ticks (upd_page p f s) = ticks s"
  "cons (upd_page p f s) = cons s"
  "nic (upd_page p f s) = nic s"
  "curenv (upd_page p f s) = curenv s"
  by (simp_all add: upd_page_def curenv_def)

lemma upd_env_frame [simp]:
  "npages (upd_env e g s) = npages s"
  "pages (upd_env e g s) = pages s"
  "page_free_list (upd_env e g s) = page_free_list s"
  "nextfree (upd_env e g s) = nextfree s"
  "phys (upd_env e g s) = phys s"
  "boot_pml4e (upd_env e g s) = boot_pml4e s"
  "boot_cr3 (upd_env e g s) = boot_cr3 s"
  "mmio_base (upd_env e g s) = mmio_base s"
  "user_mem_check_addr (upd_env e g s) = user_mem_check_addr s"
  "cr3 (upd_env e g s) = cr3 s"
  "invlpgs (upd_env e g s) = invlpgs s"
  "env_free_list (upd_env e g s) = env_free_list s"
  "cpunum (upd_env e g s) = cpunum s"
  "cpu_env (upd_env e g s) = cpu_env s"
  "kernel_lock (upd_env e g s) = kernel_lock s"
  "ticks (upd_env e g s) = ticks s"
  "cons (upd_env e g s) = cons s"
  "nic (upd_env e g s) = nic s"
  "curenv (upd_env e g s) = curenv s"
  by (simp_all add: upd_env_def curenv_def)

lemma wr_frame [simp]:
  "npages (wr p i v s) = npages s"
  "pages (wr p i v s) = pages s"
  "page_free_list (wr p i v s) = page_free_list s"
  "nextfree (wr p i v s) = nextfree s"
  "boot_pml4e (wr p i v s) = boot_pml4e s"
  "boot_cr3 (wr p i v s) = boot_cr3 s"
  "mmio_base (wr p i v s) = mmio_base s"
  "user_mem_check_addr (wr p i v s) = user_mem_check_addr s"
  "cr3 (wr p i v s) = cr3 s"
  "invlpgs (wr p i v s) = invlpgs s"
  "envs (wr p i v s) = envs s"
  "env_free_list (wr p i v s) = env_free_list s"
  "cpunum (wr p i v s) = cpunum s"
  "cpu_env (wr p i v s) = cpu_env s"
  "kernel_lock (wr p i v s) = kernel_lock s"
  "ticks (wr p i v s) = ticks s"
  "cons (wr p i v s) = cons s"
  "nic (wr p i v s) = nic s"
  "curenv (wr p i v s) = curenv s"
  by (simp_all add: wr_def curenv_def)

lemma memset_page0_frame [simp]:
  "npages (memset_page0 p s) = npages s"
  "pages (memset_page0 p s) = pages s"
  "page_free_list (memset_page0 p s) = page_free_list s"
  "nextfree (memset_page0 p s) = nextfree s"
  "boot_pml4e (memset_page0 p s) = boot_pml4e s"
  "boot_cr3 (memset_page0 p s) = boot_cr3 s"
  "mmio_base (memset_page0 p s) = mmio_base s"
  "user_mem_check_addr (memset_page0 p s) = user_mem_check_addr s"
  "cr3 (memset_page0 p s) = cr3 s"
  "invlpgs (memset_page0 p s) = invlpgs s"
  "envs (memset_page0 p s) = envs s"
  "env_free_list (memset_page0 p s) = env_free_list s"
  "cpunum (memset_page0 p s) = cpunum s"
  "cpu_env (memset_page0 p s) = cpu_env s"
  "kernel_lock (memset_page0 p s) = kernel_lock s"
  "ticks (memset_page0 p s) = ticks s"
  "cons (memset_page0 p s) = cons s"
  "nic (memset_page0 p s) = nic s"
  "curenv (memset_page0 p s) = curenv s"
  by (simp_all add: memset_page0_def curenv_def)

lemma pages_upd_page [simp]: "pages (upd_page p f s) = (pages s)(p := f (pages s p))"
  by (simp add: upd_page_def)

lemma envs_upd_env [simp]: "envs (upd_env e g s) = (envs s)(e := g (envs s e))"
  by (simp add: upd_env_def)

lemma phys_wr [simp]: "phys (wr p i v s) = (phys s)(p := (phys s p)(i := v))"
  by (simp add: wr_def)

lemma phys_memset_page0 [simp]: "phys (memset_page0 p s) = (phys s)(p := (\<lambda>_. 0))"
  by (simp add: memset_page0_def)

lemma curenv_updates [simp]:
  "curenv (s\<lparr>page_free_list := fl\<rparr>) = curenv s"
  "curenv (s\<lparr>invlpgs := il\<rparr>) = curenv s"
  "curenv (s\<lparr>user_mem_check_addr := a\<rparr>) = curenv s"
  by (simp_all add: curenv_def)

end
