(* ===== verification/Pmap.thy ===== *)
theory Pmap
  imports Kstate
begin

text \<open>
  Physical page allocator and four-level page tables: kern/pmap.c and the inline functions of
  kern/pmap.h. Operations first, in the order of the source, then the free list as an abstract
  list of page numbers.
\<close>

section \<open>Address conversions (kern/pmap.h)\<close>

definition PADDR :: "u64 \<Rightarrow> u64 option" where
  "PADDR kva = (if kva < KERNBASE then None else Some (kva - KERNBASE))"

text \<open>
  The macro compares the page number, truncated to 32 bits, with \<open>npages\<close> and panics when
  it is not below. A page number that is out of range although its truncation is in range gives
  an address outside physical memory, and every use in this file dereferences it: both cases
  are \<open>None\<close>.
\<close>

definition KADDR :: "kstate \<Rightarrow> u64 \<Rightarrow> nat option" where
  "KADDR s pa =
     (if npages s \<le> unat (ucast (PPN pa) :: u32) \<or> npages s \<le> unat (PPN pa) then None
      else Some (unat (PPN pa)))"

definition page2pa :: "nat \<Rightarrow> u64" where
  "page2pa pp = push_bit 12 (of_nat pp)"

definition pa2page :: "kstate \<Rightarrow> u64 \<Rightarrow> nat option" where
  "pa2page s pa = (if npages s \<le> unat (PPN pa) then None else Some (unat (PPN pa)))"

definition page2kva :: "kstate \<Rightarrow> nat \<Rightarrow> nat option" where
  "page2kva s pp = KADDR s (page2pa pp)"

section \<open>Boot-time allocation\<close>

text \<open>\<open>end\<close>, the end of the kernel image, is set by the linker: the parameter \<open>kend\<close>.\<close>

definition boot_alloc :: "u64 \<Rightarrow> u32 \<Rightarrow> kstate \<Rightarrow> u64 \<times> kstate" where
  "boot_alloc kend n s =
     (let s = (if nextfree s = 0 then s\<lparr>nextfree := ROUNDUP kend PGSIZE\<rparr> else s);
          result = nextfree s
      in (result, s\<lparr>nextfree := ROUNDUP (nextfree s + ucast n) PGSIZE\<rparr>))"

definition BOOT_PAGE_TABLE_START :: u64 where [jos_consts]: "BOOT_PAGE_TABLE_START = 0xf0008000"
definition BOOT_PAGE_TABLE_END :: u64 where [jos_consts]: "BOOT_PAGE_TABLE_END = 0xf000e000"

text \<open>
  \<open>page_init\<close>: one pass over the page array with the running addresses
  \<open>page_start\<close> and \<open>page_end\<close>, 32-bit variables. The first argument counts the
  iterations that are left.
\<close>

definition in_range :: "u64 \<Rightarrow> u64 \<Rightarrow> u32 \<Rightarrow> u32 \<Rightarrow> bool" where
  "in_range lo hi page_start page_end \<longleftrightarrow>
     (lo \<le> ucast page_start \<and> ucast page_start < hi) \<or> (lo \<le> ucast page_end \<and> ucast page_end < hi)"

fun page_init_loop :: "u32 \<Rightarrow> nat \<Rightarrow> nat \<Rightarrow> u32 \<Rightarrow> u32 \<Rightarrow> kstate \<Rightarrow> kstate" where
  "page_init_loop kernel_end 0 i page_start page_end s = s"
| "page_init_loop kernel_end (Suc n) i page_start page_end s =
     (let s = upd_page i (\<lambda>p. p\<lparr>pp_ref := 0\<rparr>) s;
          s = (if i = 0 then s
               else if in_range IOPHYSMEM EXTPHYSMEM page_start page_end then s
               else if in_range EXTPHYSMEM (ucast kernel_end) page_start page_end then s
               else if in_range (BOOT_PAGE_TABLE_START - KERNBASE) (BOOT_PAGE_TABLE_END - KERNBASE)
                         page_start page_end then s
               else if ucast page_start = MPENTRY_PADDR then s
               else (upd_page i (\<lambda>p. p\<lparr>pp_link := page_free_list s\<rparr>) s)\<lparr>page_free_list := Some i\<rparr>)
      in page_init_loop kernel_end n (Suc i) (page_start + 4096) (page_end + 4096) s)"

definition page_init :: "kstate \<Rightarrow> kstate option" where
  "page_init s = do {
     kernel_end \<leftarrow> PADDR (nextfree s);
     Some (page_init_loop (ucast kernel_end) (npages s) 0 0 4095 s)
   }"

section \<open>The page allocator\<close>

definition ALLOC_ZERO :: u32 where [jos_consts]: "ALLOC_ZERO = 1"

definition page_alloc :: "u32 \<Rightarrow> kstate \<Rightarrow> (nat option \<times> kstate) option" where
  "page_alloc alloc_flags s =
     (case page_free_list s of
        None \<Rightarrow> Some (None, s)
      | Some pp \<Rightarrow> do {
          s \<leftarrow> (if alloc_flags AND ALLOC_ZERO \<noteq> 0
               then do { kva \<leftarrow> page2kva s pp; Some (memset_page0 kva s) }
               else Some s);
          let s = s\<lparr>page_free_list := pp_link (pages s pp)\<rparr>;
          Some (Some pp, upd_page pp (\<lambda>p. p\<lparr>pp_link := None\<rparr>) s)
        })"

definition page_initpp :: "nat \<Rightarrow> kstate \<Rightarrow> kstate" where
  "page_initpp pp s = upd_page pp (\<lambda>p. \<lparr>pp_link = None, pp_ref = 0\<rparr>) s"

text \<open>The loop of \<open>page_free\<close> that looks for the page on the free list.\<close>

partial_function (option) on_free_list :: "(nat \<Rightarrow> page) \<Rightarrow> nat option \<Rightarrow> nat \<Rightarrow> bool option" where
  "on_free_list pgs p pp =
     (case p of
        None \<Rightarrow> Some False
      | Some q \<Rightarrow> if q = pp then Some True else on_free_list pgs (pp_link (pgs q)) pp)"

definition page_free :: "nat \<Rightarrow> kstate \<Rightarrow> kstate option" where
  "page_free pp s =
     (if pp_ref (pages s pp) \<noteq> 0 then Some s
      else do {
        found \<leftarrow> on_free_list (pages s) (page_free_list s) pp;
        if found then Some s
        else Some ((upd_page pp (\<lambda>p. p\<lparr>pp_link := page_free_list s\<rparr>) s)\<lparr>page_free_list := Some pp\<rparr>)
      })"

definition page_decref :: "nat \<Rightarrow> kstate \<Rightarrow> kstate option" where
  "page_decref pp s =
     (let s = upd_page pp (\<lambda>p. p\<lparr>pp_ref := pp_ref p - 1\<rparr>) s
      in if pp_ref (pages s pp) = 0 then page_free pp s else Some s)"

section \<open>Page table walks\<close>

text \<open>
  What \<open>pml4e_walk\<close>, \<open>pdpe_walk\<close> and \<open>pgdir_walk\<close> do with an empty
  entry when \<open>create\<close> is set: allocate a page, count the reference, store the entry and
  clear the page.
\<close>

definition table_alloc :: "nat \<Rightarrow> nat \<Rightarrow> kstate \<Rightarrow> (nat option \<times> kstate) option" where
  "table_alloc tbl i s = do {
     (newPage, s) \<leftarrow> page_alloc 0 s;
     (case newPage of
        None \<Rightarrow> Some (None, s)
      | Some pp \<Rightarrow> do {
          let s = upd_page pp (\<lambda>p. p\<lparr>pp_ref := pp_ref p + 1\<rparr>) s;
          let s = wr tbl i (page2pa pp OR PTE_U OR PTE_W OR PTE_P) s;
          kva \<leftarrow> page2kva s pp;
          Some (Some pp, memset_page0 kva s)
        })
   }"

text \<open>Undoing it when the deeper walk fails.\<close>

definition table_undo :: "nat \<Rightarrow> nat \<Rightarrow> nat option \<Rightarrow> kstate \<Rightarrow> kstate option" where
  "table_undo tbl i newPage s =
     (case newPage of
        None \<Rightarrow> Some s
      | Some pp \<Rightarrow> page_free pp (upd_page pp (\<lambda>p. p\<lparr>pp_ref := 0\<rparr>) (wr tbl i 0 s)))"

text \<open>
  \<open>pgdir_walk\<close> returns the page table, not the entry: \<open>pml4e_walk\<close> adds
  \<open>PTX(va)\<close>. The address computed by \<open>KADDR\<close> is never null, so the undo branch of
  \<open>pgdir_walk\<close> is dead.
\<close>

definition pgdir_walk :: "nat \<Rightarrow> u64 \<Rightarrow> bool \<Rightarrow> kstate \<Rightarrow> (nat option \<times> kstate) option" where
  "pgdir_walk pgdir va create s =
     (if phys s pgdir (PDX va) = 0 then
        if \<not> create then Some (None, s)
        else do {
          (newPage, s) \<leftarrow> table_alloc pgdir (PDX va) s;
          if newPage = None then Some (None, s)
          else do {
            result \<leftarrow> KADDR s (PTE_ADDR (phys s pgdir (PDX va)));
            Some (Some result, s)
          }
        }
      else do {
        result \<leftarrow> KADDR s (PTE_ADDR (phys s pgdir (PDX va)));
        Some (Some result, s)
      })"

definition pdpe_walk :: "nat \<Rightarrow> u64 \<Rightarrow> bool \<Rightarrow> kstate \<Rightarrow> (nat option \<times> kstate) option" where
  "pdpe_walk pdpe va create s =
     (if phys s pdpe (PDPE va) = 0 then
        if \<not> create then Some (None, s)
        else do {
          (newPage, s) \<leftarrow> table_alloc pdpe (PDPE va) s;
          if newPage = None then Some (None, s)
          else do {
            pde \<leftarrow> KADDR s (PTE_ADDR (phys s pdpe (PDPE va)));
            (result, s) \<leftarrow> pgdir_walk pde va create s;
            s \<leftarrow> (if result = None then table_undo pdpe (PDPE va) newPage s else Some s);
            Some (result, s)
          }
        }
      else do {
        pde \<leftarrow> KADDR s (PTE_ADDR (phys s pdpe (PDPE va)));
        pgdir_walk pde va create s
      })"

definition pml4e_walk ::
  "nat \<Rightarrow> u64 \<Rightarrow> bool \<Rightarrow> kstate \<Rightarrow> ((nat \<times> nat) option \<times> kstate) option" where
  "pml4e_walk pml4e va create s =
     (if phys s pml4e (PML4 va) = 0 then
        if \<not> create then Some (None, s)
        else do {
          (newPage, s) \<leftarrow> table_alloc pml4e (PML4 va) s;
          if newPage = None then Some (None, s)
          else do {
            pdpe \<leftarrow> KADDR s (PTE_ADDR (phys s pml4e (PML4 va)));
            (result, s) \<leftarrow> pdpe_walk pdpe va create s;
            s \<leftarrow> (if result = None then table_undo pml4e (PML4 va) newPage s else Some s);
            Some (map_option (\<lambda>pt. (pt, PTX va)) result, s)
          }
        }
      else do {
        pdpe \<leftarrow> KADDR s (PTE_ADDR (phys s pml4e (PML4 va)));
        (result, s) \<leftarrow> pdpe_walk pdpe va create s;
        Some (map_option (\<lambda>pt. (pt, PTX va)) result, s)
      })"

text \<open>Storing through a null \<open>ppte\<close> faults: a failed walk ends the loop with \<open>None\<close>.\<close>

partial_function (option) boot_map_loop ::
  "nat \<Rightarrow> u64 \<Rightarrow> u64 \<Rightarrow> u32 \<Rightarrow> u64 \<Rightarrow> u64 \<Rightarrow> kstate \<Rightarrow> kstate option" where
  "boot_map_loop pml4e la sz perm virtual_addr physical_addr s =
     (if virtual_addr - la < sz then do {
        (ppte, s) \<leftarrow> pml4e_walk pml4e virtual_addr True s;
        (p, i) \<leftarrow> ppte;
        boot_map_loop pml4e la sz perm (virtual_addr + PGSIZE) (physical_addr + PGSIZE)
          (wr p i (physical_addr OR scast perm OR PTE_P) s)
      } else Some s)"

definition boot_map_segment :: "nat \<Rightarrow> u64 \<Rightarrow> u64 \<Rightarrow> u64 \<Rightarrow> u32 \<Rightarrow> kstate \<Rightarrow> kstate option" where
  "boot_map_segment pml4e la sz pa perm s = boot_map_loop pml4e la sz perm la pa s"

section \<open>Mappings\<close>

definition page_lookup :: "nat \<Rightarrow> u64 \<Rightarrow> kstate \<Rightarrow> (nat \<times> nat \<times> nat) option option" where
  "page_lookup pml4e va s = do {
     (pte, s) \<leftarrow> pml4e_walk pml4e va False s;
     (case pte of
        None \<Rightarrow> Some None
      | Some (p, i) \<Rightarrow> do { pp \<leftarrow> pa2page s (phys s p i); Some (Some (pp, p, i)) })
   }"

definition tlb_invalidate :: "nat \<Rightarrow> u64 \<Rightarrow> kstate \<Rightarrow> kstate" where
  "tlb_invalidate pml4e va s =
     (case curenv s of
        None \<Rightarrow> s\<lparr>invlpgs := va # invlpgs s\<rparr>
      | Some e \<Rightarrow> if env_pml4e (envs s e) = Some pml4e then s\<lparr>invlpgs := va # invlpgs s\<rparr> else s)"

definition page_remove :: "nat \<Rightarrow> u64 \<Rightarrow> kstate \<Rightarrow> kstate option" where
  "page_remove pml4e va s = do {
     r \<leftarrow> page_lookup pml4e va s;
     (case r of
        None \<Rightarrow> Some s
      | Some (pp, p, i) \<Rightarrow> do {
          s \<leftarrow> page_decref pp s;
          Some (tlb_invalidate pml4e va (wr p i 0 s))
        })
   }"

definition page_insert :: "nat \<Rightarrow> nat \<Rightarrow> u64 \<Rightarrow> u32 \<Rightarrow> kstate \<Rightarrow> (int \<times> kstate) option" where
  "page_insert pml4e pp va perm s = do {
     (pte, s) \<leftarrow> pml4e_walk pml4e va True s;
     (case pte of
        None \<Rightarrow> Some (- E_NO_MEM, s)
      | Some (p, i) \<Rightarrow> do {
          s \<leftarrow> (if PTE_ADDR (phys s p i) \<noteq> page2pa pp then do {
                 s \<leftarrow> (if phys s p i \<noteq> 0 then page_remove pml4e va s else Some s);
                 let s = wr p i (page2pa pp) s;
                 Some (upd_page pp (\<lambda>q. q\<lparr>pp_ref := pp_ref q + 1\<rparr>) s)
               } else Some (wr p i (phys s p i AND NOT 0xFFF) s));
          let s = wr p i (phys s p i OR scast perm OR PTE_P) s;
          Some (0, s)
        })
   }"

definition mmio_map_region :: "u64 \<Rightarrow> u64 \<Rightarrow> kstate \<Rightarrow> (u64 \<times> kstate) option" where
  "mmio_map_region pa sz s =
     (let sz = ROUNDUP sz PGSIZE;
          base = mmio_base s
      in if MMIOLIM \<le> base + sz then None
         else do {
           s \<leftarrow> boot_map_segment (boot_pml4e s) base sz pa
                 (ucast (PTE_W OR PTE_PCD OR PTE_PWT)) s;
           Some (base, s\<lparr>mmio_base := base + sz\<rparr>)
         })"

text \<open>The software walk the kernel uses to check its own tables; \<open>~0\<close> when not mapped.\<close>

definition check_va2pa :: "nat \<Rightarrow> u64 \<Rightarrow> kstate \<Rightarrow> u64 option" where
  "check_va2pa pml4e va s =
     (if phys s pml4e (PML4 va) AND PTE_P = 0 then Some (- 1)
      else do {
        pdpe \<leftarrow> KADDR s (PTE_ADDR (phys s pml4e (PML4 va)));
        if phys s pdpe (PDPE va) AND PTE_P = 0 then Some (- 1)
        else do {
          pde \<leftarrow> KADDR s (PTE_ADDR (phys s pdpe (PDPE va)));
          if phys s pde (PDX va) AND PTE_P = 0 then Some (- 1)
          else do {
            pte \<leftarrow> KADDR s (PTE_ADDR (phys s pde (PDX va)));
            if phys s pte (PTX va) AND PTE_P = 0 then Some (- 1)
            else Some (PTE_ADDR (phys s pte (PTX va)))
          }
        }
      })"

section \<open>Checking user pointers\<close>

text \<open>
  The diagnostic of \<open>user_mem_check\<close> prints \<open>*ppte\<close> also when \<open>ppte\<close> is
  null. Reading address 0 in the kernel faults unless the address space in force maps it.
\<close>

definition null_read :: "kstate \<Rightarrow> unit option" where
  "null_read s =
     (case check_va2pa (unat (PPN (cr3 s))) 0 s of
        None \<Rightarrow> None
      | Some pa \<Rightarrow> if pa = - 1 then None else Some ())"

partial_function (option) user_mem_loop ::
  "nat \<Rightarrow> u64 \<Rightarrow> u64 \<Rightarrow> u64 \<Rightarrow> u64 \<Rightarrow> kstate \<Rightarrow> (int \<times> kstate) option" where
  "user_mem_loop pml4e va end_va perm addr s =
     (if addr < end_va then do {
        (ppte, s) \<leftarrow> pml4e_walk pml4e addr False s;
        (case ppte of
           None \<Rightarrow> do {
             null_read s;
             Some (- E_FAULT, s\<lparr>user_mem_check_addr := if addr = va then va else ROUNDDOWN addr PGSIZE\<rparr>)
           }
         | Some (p, i) \<Rightarrow>
             if phys s p i AND (perm OR PTE_P) \<noteq> (perm OR PTE_P)
             then Some (- E_FAULT,
                    s\<lparr>user_mem_check_addr := if addr = va then va else ROUNDDOWN addr PGSIZE\<rparr>)
             else user_mem_loop pml4e va end_va perm (addr + PGSIZE) s)
      } else Some (0, s))"

definition user_mem_check :: "nat \<Rightarrow> u64 \<Rightarrow> u64 \<Rightarrow> u64 \<Rightarrow> kstate \<Rightarrow> (int \<times> kstate) option" where
  "user_mem_check pml4e va len perm s =
     (let end_va = ROUNDUP (va + len) PGSIZE
      in if ULIM \<le> va + len then Some (- E_FAULT, s\<lparr>user_mem_check_addr := va\<rparr>)
         else user_mem_loop pml4e va end_va perm va s)"

end
