(* ===== verification/Pool.thy ===== *)
theory Pool
  imports Prelude
begin

text \<open>
  The contract of an allocator of numbered resources, as the kernel's page allocator and the
  file server's block allocator offer it to their clients, and what every client gets from it.
\<close>

text \<open>A client that asks for \<open>n\<close> resources and stops at the first refusal.\<close>

fun alloc_many :: "('s \<Rightarrow> (nat option \<times> 's) option) \<Rightarrow> nat \<Rightarrow> 's \<Rightarrow> (nat list \<times> 's) option" where
  "alloc_many alloc 0 s = Some ([], s)"
| "alloc_many alloc (Suc n) s =
     (case alloc s of
        None \<Rightarrow> None
      | Some (None, s) \<Rightarrow> Some ([], s)
      | Some (Some x, s) \<Rightarrow>
          (case alloc_many alloc n s of None \<Rightarrow> None | Some (xs, s) \<Rightarrow> Some (x # xs, s)))"

text \<open>
  \<open>inv s F\<close>: the state is well formed and \<open>F\<close> is the set of free resources;
  \<open>releasable s x\<close>: the conditions under which the code may give \<open>x\<close> back.
\<close>

locale pool =
  fixes inv :: "'s \<Rightarrow> nat set \<Rightarrow> bool"
    and alloc :: "'s \<Rightarrow> (nat option \<times> 's) option"
    and release :: "nat \<Rightarrow> 's \<Rightarrow> 's option"
    and releasable :: "'s \<Rightarrow> nat \<Rightarrow> bool"
  assumes inv_finite: "inv s F \<Longrightarrow> finite F"
    and alloc_empty: "inv s {} \<Longrightarrow> \<exists>s'. alloc s = Some (None, s') \<and> inv s' {}"
    and alloc_some: "inv s F \<Longrightarrow> F \<noteq> {} \<Longrightarrow>
      \<exists>x s'. alloc s = Some (Some x, s') \<and> x \<in> F \<and> inv s' (F - {x})"
    and release_ok: "inv s F \<Longrightarrow> releasable s x \<Longrightarrow> x \<notin> F \<Longrightarrow>
      \<exists>s'. release x s = Some s' \<and> inv s' (insert x F)"
begin

lemma alloc_many_distinct:
  "inv s F \<Longrightarrow>
   \<exists>xs s'. alloc_many alloc n s = Some (xs, s') \<and> length xs = min n (card F) \<and> distinct xs \<and>
     set xs \<subseteq> F \<and> inv s' (F - set xs)"
proof (induction n arbitrary: s F)
  case 0
  then show ?case by simp
next
  case (Suc n)
  show ?case
  proof (cases "F = {}")
    case True
    with Suc.prems alloc_empty [of s] show ?thesis by auto
  next
    case False
    with Suc.prems alloc_some [of s F] obtain x s1
      where x: "alloc s = Some (Some x, s1)" "x \<in> F" "inv s1 (F - {x})" by blast
    from Suc.IH [OF x(3)] obtain xs s'
      where xs: "alloc_many alloc n s1 = Some (xs, s')" "length xs = min n (card (F - {x}))"
        "distinct xs" "set xs \<subseteq> F - {x}" "inv s' (F - {x} - set xs)" by blast
    have "card F = Suc (card (F - {x}))"
      using inv_finite [OF Suc.prems] x(2) by (metis card_Suc_Diff1)
    moreover have "F - {x} - set xs = F - set (x # xs)" by auto
    ultimately show ?thesis using x xs by (auto simp: subset_Diff_insert)
  qed
qed

lemma release_alloc:
  assumes "inv s F" "releasable s x" "x \<notin> F"
  shows "\<exists>s' y s''. release x s = Some s' \<and> alloc s' = Some (Some y, s'') \<and> y \<in> insert x F"
proof -
  from release_ok [OF assms] obtain s' where s': "release x s = Some s'" "inv s' (insert x F)" by blast
  with alloc_some [OF s'(2)] show ?thesis by blast
qed

end

end
