(* ===== verification/Page_Alloc.thy ===== *)
theory Page_Alloc
  imports Pmap Pool
begin

text \<open>
  Correctness of the physical page allocator of kern/pmap.c: conversions between page numbers
  and physical addresses, the free list as an abstract list, and what \<open>page_alloc\<close>,
  \<open>page_free\<close>, \<open>page_decref\<close> and \<open>page_init\<close> do to it.
\<close>

section \<open>Conversions\<close>

lemma unat_PPN: "unat (PPN pa) = unat pa div 4096"
  by (simp add: PPN_def drop_bit_eq_div unat_div_distrib)

lemma unat_page2pa: "p < 2 ^ 52 \<Longrightarrow> unat (page2pa p) = p * 4096"
  by (simp add: page2pa_def push_bit_eq_mult unat_word_ariths unat_of_nat mult.commute)

lemma PPN_page2pa [simp]: "p < 2 ^ 52 \<Longrightarrow> unat (PPN (page2pa p)) = p"
  by (simp add: unat_PPN unat_page2pa)

lemma page2pa_inj: "p < 2 ^ 52 \<Longrightarrow> q < 2 ^ 52 \<Longrightarrow> page2pa p = page2pa q \<longleftrightarrow> p = q"
  by (metis PPN_page2pa)

lemma PTE_ADDR_mask: "PTE_ADDR e = e AND NOT (mask 12)"
  by (simp add: PTE_ADDR_def mask_eq_exp_minus_1)

lemma PPN_PTE_ADDR [simp]: "PPN (PTE_ADDR e) = PPN e"
  unfolding PPN_def PTE_ADDR_mask
  by (rule bit_word_eqI) (auto simp: bit_simps dest: bit_imp_le_length)

lemma PTE_ADDR_eq_iff: "PTE_ADDR e = page2pa p \<longleftrightarrow> unat (PPN e) = p" if "p < 2 ^ 52"
proof -
  have a: "PTE_ADDR e = push_bit 12 (PPN e)"
    unfolding PPN_def PTE_ADDR_mask
    by (rule bit_word_eqI) (auto simp: bit_simps)
  have "PPN e = of_nat p \<longleftrightarrow> unat (PPN e) = p"
    using that by (auto simp: unat_of_nat)
  moreover have "PTE_ADDR e = page2pa p \<longleftrightarrow> PPN e = of_nat p"
  proof
    assume "PTE_ADDR e = page2pa p"
    then have "PPN (PTE_ADDR e) = PPN (page2pa p)" by simp
    then have "PPN e = PPN (page2pa p)" by simp
    moreover have "PPN (page2pa p) = of_nat p"
      using that by (intro word_unat_eqI) (simp add: unat_of_nat)
    ultimately show "PPN e = of_nat p" by simp
  next
    assume "PPN e = of_nat p"
    then show "PTE_ADDR e = page2pa p" by (simp add: a page2pa_def)
  qed
  ultimately show ?thesis by simp
qed

lemma PPN_or_small: "f < 4096 \<Longrightarrow> PPN (page2pa p OR f) = PPN (page2pa p)"
proof -
  assume "f < 4096"
  then have "drop_bit 12 f = 0"
    by (simp add: drop_bit_eq_div word_less_nat_alt word_unat_eq_iff unat_div_distrib)
  then show ?thesis by (simp add: PPN_def drop_bit_or)
qed

lemma KADDR_page2pa: "p < npages s \<Longrightarrow> npages s \<le> 2 ^ 32 \<Longrightarrow> KADDR s (page2pa p) = Some p"
  by (simp add: KADDR_def unsigned_ucast_eq take_bit_eq_mod)

section \<open>The free list\<close>

definition free_pages :: "kstate \<Rightarrow> nat list \<Rightarrow> bool" where
  "free_pages s xs \<longleftrightarrow> chain (\<lambda>p. pp_link (pages s p)) (page_free_list s) xs"

text \<open>
  The allocator's invariant: the linked free list is the list \<open>xs\<close>, its pages exist, are
  not page 0 and have no references. The machine has at most 4 GiB of memory.
\<close>

definition alloc_inv :: "kstate \<Rightarrow> nat list \<Rightarrow> bool" where
  "alloc_inv s xs \<longleftrightarrow> free_pages s xs \<and> npages s \<le> 2 ^ 20 \<and>
     (\<forall>p \<in> set xs. p \<noteq> 0 \<and> p < npages s \<and> pp_ref (pages s p) = 0)"

lemma chain_pages_upd [simp]:
  "q \<notin> set xs \<Longrightarrow> chain (\<lambda>x. pp_link (if x = q then v else pgs x)) p xs = chain (\<lambda>x. pp_link (pgs x)) p xs"
  by (rule chain_cong) auto

lemma free_pages_distinct: "free_pages s xs \<Longrightarrow> distinct xs"
  unfolding free_pages_def by (rule chain_distinct)

lemma alloc_invD:
  assumes "alloc_inv s xs"
  shows "free_pages s xs" "distinct xs" "npages s \<le> 2 ^ 20"
    "p \<in> set xs \<Longrightarrow> p \<noteq> 0" "p \<in> set xs \<Longrightarrow> p < npages s"
    "p \<in> set xs \<Longrightarrow> pp_ref (pages s p) = 0"
  using assms by (auto simp: alloc_inv_def dest: free_pages_distinct)

lemma on_free_list_chain:
  "chain (\<lambda>p. pp_link (pgs p)) p xs \<Longrightarrow> on_free_list pgs p pp = Some (pp \<in> set xs)"
  by (induction xs arbitrary: p) (auto simp: on_free_list.simps)

lemma page2kva_ok: "p < npages s \<Longrightarrow> npages s \<le> 2 ^ 20 \<Longrightarrow> page2kva s p = Some p"
  by (simp add: page2kva_def KADDR_page2pa)

section \<open>page_alloc and page_free as operations on a list\<close>

lemma page_alloc_empty: "alloc_inv s [] \<Longrightarrow> page_alloc fl s = Some (None, s)"
  by (simp add: alloc_inv_def free_pages_def page_alloc_def)

definition alloc_state :: "u32 \<Rightarrow> nat \<Rightarrow> kstate \<Rightarrow> kstate" where
  "alloc_state fl p s =
     (let s = (if fl AND ALLOC_ZERO \<noteq> 0 then memset_page0 p s else s)
      in upd_page p (\<lambda>q. q\<lparr>pp_link := None\<rparr>) (s\<lparr>page_free_list := pp_link (pages s p)\<rparr>))"

lemma page_alloc_head:
  "alloc_inv s (p # ps) \<Longrightarrow> page_alloc fl s = Some (Some p, alloc_state fl p s)"
  by (auto simp: alloc_inv_def free_pages_def page_alloc_def alloc_state_def page2kva_ok Let_def)

lemma alloc_state_simps [simp]:
  "pages (alloc_state fl p s) = (pages s)(p := (pages s p)\<lparr>pp_link := None\<rparr>)"
  "npages (alloc_state fl p s) = npages s"
  "page_free_list (alloc_state fl p s) = pp_link (pages s p)"
  "envs (alloc_state fl p s) = envs s"
  "env_free_list (alloc_state fl p s) = env_free_list s"
  "boot_pml4e (alloc_state fl p s) = boot_pml4e s"
  "cr3 (alloc_state fl p s) = cr3 s"
  "curenv (alloc_state fl p s) = curenv s"
  "phys (alloc_state fl p s) =
     (if fl AND ALLOC_ZERO \<noteq> 0 then (phys s)(p := (\<lambda>_. 0)) else phys s)"
  by (simp_all add: alloc_state_def Let_def curenv_def)

lemma alloc_state_inv:
  assumes "alloc_inv s (p # ps)"
  shows "alloc_inv (alloc_state fl p s) ps"
proof -
  have "p \<notin> set ps" using alloc_invD(2) [OF assms] by simp
  then show ?thesis
    using assms by (auto simp: alloc_inv_def free_pages_def)
qed

definition free_state :: "nat \<Rightarrow> kstate \<Rightarrow> kstate" where
  "free_state pp s =
     (upd_page pp (\<lambda>p. p\<lparr>pp_link := page_free_list s\<rparr>) s)\<lparr>page_free_list := Some pp\<rparr>"

lemma free_state_simps [simp]:
  "pages (free_state p s) = (pages s)(p := (pages s p)\<lparr>pp_link := page_free_list s\<rparr>)"
  "npages (free_state p s) = npages s"
  "page_free_list (free_state p s) = Some p"
  "envs (free_state p s) = envs s"
  "env_free_list (free_state p s) = env_free_list s"
  "boot_pml4e (free_state p s) = boot_pml4e s"
  "cr3 (free_state p s) = cr3 s"
  "curenv (free_state p s) = curenv s"
  "phys (free_state p s) = phys s"
  by (simp_all add: free_state_def curenv_def)

lemma page_free_eq:
  "alloc_inv s xs \<Longrightarrow>
   page_free pp s = Some (if pp_ref (pages s pp) \<noteq> 0 \<or> pp \<in> set xs then s else free_state pp s)"
  by (auto simp: page_free_def alloc_inv_def free_pages_def on_free_list_chain free_state_def)

lemma free_state_inv:
  assumes "alloc_inv s xs" and "pp \<noteq> 0" and "pp < npages s" and "pp_ref (pages s pp) = 0"
    and "pp \<notin> set xs"
  shows "alloc_inv (free_state pp s) (pp # xs)"
  using assms by (auto simp: alloc_inv_def free_pages_def)

lemma dec_ref_inv:
  assumes "alloc_inv s xs" and "pp \<notin> set xs"
  shows "alloc_inv (upd_page pp (\<lambda>p. p\<lparr>pp_ref := f (pp_ref p)\<rparr>) s) xs"
  using assms by (auto simp: alloc_inv_def free_pages_def)

text \<open>\<open>page_decref\<close> on a page in use: the page goes to the free list exactly when its
  last reference goes.\<close>

lemma page_decref_eq:
  assumes "alloc_inv s xs" and "pp \<notin> set xs"
  defines "s1 \<equiv> upd_page pp (\<lambda>p. p\<lparr>pp_ref := pp_ref p - 1\<rparr>) s"
  shows "page_decref pp s = Some (if pp_ref (pages s pp) = 1 then free_state pp s1 else s1)"
proof -
  have "alloc_inv s1 xs" unfolding s1_def by (rule dec_ref_inv [OF assms(1,2)])
  from page_free_eq [OF this] show ?thesis
    using assms(2) by (auto simp: page_decref_def Let_def s1_def)
qed

section \<open>page_init\<close>

text \<open>The pages that \<open>page_init\<close> keeps off the free list, by page number.\<close>

definition reserved_page :: "u32 \<Rightarrow> nat \<Rightarrow> bool" where
  "reserved_page kernel_end i \<longleftrightarrow>
     i = 0 \<or> 160 \<le> i \<and> i < 256 \<or> 256 \<le> i \<and> i * 4096 < unat kernel_end \<or> 8 \<le> i \<and> i < 14 \<or> i = 7"

lemma in_range_nat:
  assumes "i < 2 ^ 20"
  shows "in_range lo hi (of_nat (i * 4096)) (of_nat (i * 4096 + 4095)) \<longleftrightarrow>
    (unat lo \<le> i * 4096 \<and> i * 4096 < unat hi) \<or> (unat lo \<le> i * 4096 + 4095 \<and> i * 4096 + 4095 < unat hi)"
proof -
  have "unat (ucast (of_nat (i * 4096) :: u32) :: u64) = i * 4096"
    and "unat (ucast (of_nat (i * 4096 + 4095) :: u32) :: u64) = i * 4096 + 4095"
    using assms by (simp_all add: unsigned_ucast_eq unat_of_nat take_bit_eq_mod del: of_nat_add of_nat_mult)
  then show ?thesis by (simp add: in_range_def word_le_nat_alt word_less_nat_alt)
qed

lemma page_init_guard:
  assumes "i < 2 ^ 20"
  shows "(i = 0 \<or> in_range IOPHYSMEM EXTPHYSMEM (of_nat (i * 4096)) (of_nat (i * 4096 + 4095)) \<or>
      in_range EXTPHYSMEM (ucast kernel_end) (of_nat (i * 4096)) (of_nat (i * 4096 + 4095)) \<or>
      in_range (BOOT_PAGE_TABLE_START - KERNBASE) (BOOT_PAGE_TABLE_END - KERNBASE)
        (of_nat (i * 4096)) (of_nat (i * 4096 + 4095)) \<or>
      ucast (of_nat (i * 4096) :: u32) = MPENTRY_PADDR) \<longleftrightarrow> reserved_page kernel_end i"
proof -
  have mp: "ucast (of_nat (i * 4096) :: u32) = MPENTRY_PADDR \<longleftrightarrow> i = 7"
    using assms by (simp add: word_unat_eq_iff unsigned_ucast_eq unat_of_nat take_bit_eq_mod jos_consts
        del: of_nat_add of_nat_mult)
  have k: "unat (ucast kernel_end :: u64) = unat kernel_end"
    using unsigned_less [of kernel_end, where ?'a = nat]
    by (simp add: unsigned_ucast_eq take_bit_eq_mod)
  show ?thesis
    unfolding in_range_nat [OF assms] mp k reserved_page_def
    unfolding jos_consts by simp arith
qed

lemma page_init_loop_spec:
  assumes "i + n \<le> npages s" and "npages s \<le> 2 ^ 20" and "alloc_inv s xs"
    and "\<And>x. x \<in> set xs \<Longrightarrow> x < i" and "ps = of_nat (i * 4096)" and "pe = of_nat (i * 4096 + 4095)"
  shows "alloc_inv (page_init_loop kernel_end n i ps pe s)
           (rev (filter (\<lambda>k. \<not> reserved_page kernel_end k) [i..<i + n]) @ xs)"
  using assms
proof (induction n arbitrary: i ps pe s xs)
  case 0
  then show ?case by simp
next
  case (Suc n)
  let ?s1 = "upd_page i (\<lambda>p. p\<lparr>pp_ref := 0\<rparr>) s"
  let ?s2 = "if reserved_page kernel_end i then ?s1 else free_state i ?s1"
  let ?xs = "if reserved_page kernel_end i then xs else i # xs"
  have i: "i < 2 ^ 20" and nx: "i \<notin> set xs" using Suc.prems by auto
  have inv1: "alloc_inv ?s1 xs"
    using dec_ref_inv [OF Suc.prems(3) nx, of "\<lambda>_. 0"] by simp
  have inv2: "alloc_inv ?s2 ?xs"
    using inv1 nx Suc.prems(1) free_state_inv [OF inv1, of i]
    by (auto simp: reserved_page_def)
  have step: "page_init_loop kernel_end (Suc n) i ps pe s =
      page_init_loop kernel_end n (Suc i) (ps + 4096) (pe + 4096) ?s2"
    using page_init_guard [OF i, of kernel_end]
    unfolding Suc.prems(5,6) by (auto simp: Let_def free_state_def)
  have "alloc_inv (page_init_loop kernel_end n (Suc i) (ps + 4096) (pe + 4096) ?s2)
      (rev (filter (\<lambda>k. \<not> reserved_page kernel_end k) [Suc i..<Suc i + n]) @ ?xs)"
    by (rule Suc.IH [OF _ _ inv2]) (use Suc.prems in \<open>auto simp: algebra_simps less_SucI split: if_splits\<close>)
  moreover have "[i..<i + Suc n] = i # [Suc i..<Suc i + n]"
    by (simp add: upt_conv_Cons)
  ultimately show ?case unfolding step by (simp split: if_splits)
qed

section \<open>The allocator satisfies the pool contract\<close>

definition page_pool :: "kstate \<Rightarrow> nat set \<Rightarrow> bool" where
  "page_pool s F \<longleftrightarrow> (\<exists>xs. alloc_inv s xs \<and> set xs = F)"

definition page_releasable :: "kstate \<Rightarrow> nat \<Rightarrow> bool" where
  "page_releasable s p \<longleftrightarrow> p \<noteq> 0 \<and> p < npages s \<and> pp_ref (pages s p) = 0"

interpretation page_pool: pool page_pool "page_alloc fl" page_free page_releasable
proof unfold_locales
  fix s F
  assume "page_pool s F"
  then show "finite F" by (auto simp: page_pool_def)
next
  fix s
  assume "page_pool s {}"
  then show "\<exists>s'. page_alloc fl s = Some (None, s') \<and> page_pool s' {}"
    by (auto simp: page_pool_def page_alloc_empty)
next
  fix s F
  assume "page_pool s F" and ne: "F \<noteq> {}"
  then obtain xs where xs: "alloc_inv s xs" "set xs = F" by (auto simp: page_pool_def)
  with ne obtain p ps where inv: "alloc_inv s (p # ps)" and F: "set (p # ps) = F"
    by (cases xs) auto
  have "set ps = F - {p}" using F alloc_invD(2) [OF inv] by auto
  then have "page_pool (alloc_state fl p s) (F - {p})"
    using alloc_state_inv [OF inv] by (auto simp: page_pool_def)
  then show "\<exists>x s'. page_alloc fl s = Some (Some x, s') \<and> x \<in> F \<and> page_pool s' (F - {x})"
    using page_alloc_head [OF inv] F by auto
next
  fix s F x
  assume "page_pool s F" and rel: "page_releasable s x" and "x \<notin> F"
  then obtain xs where inv: "alloc_inv s xs" and F: "set xs = F" and x: "x \<notin> set xs"
    by (auto simp: page_pool_def)
  have "alloc_inv (free_state x s) (x # xs)"
    using rel by (intro free_state_inv [OF inv _ _ _ x]) (auto simp: page_releasable_def)
  then show "\<exists>s'. page_free x s = Some s' \<and> page_pool s' (insert x F)"
    using page_free_eq [OF inv, of x] rel x F
    by (auto simp: page_releasable_def page_pool_def intro!: exI [of _ "x # xs"])
qed

end
