(* ===== verification/Page_Tables.thy ===== *)
theory Page_Tables
  imports Page_Alloc
begin

text \<open>
  Correctness of the four-level page tables of kern/pmap.c. A path through the tables is the
  list of its indices. The first part is about plain memory: reading an entry along a path,
  the tree-shape invariant, and what one store does to all paths. The second part shows that
  the three walk functions of the source are one generic walk along a path and derives what
  \<open>page_insert\<close>, \<open>page_remove\<close> and \<open>page_lookup\<close> do to an address space.
\<close>

section \<open>Paths in memory\<close>

type_synonym memory = "nat \<Rightarrow> nat \<Rightarrow> u64"

definition tgt :: "u64 \<Rightarrow> nat" where
  "tgt e = unat (PPN e)"

text \<open>\<open>slot m p is\<close>: the slot the last index of the path selects, if the path exists.\<close>

fun slot :: "memory \<Rightarrow> nat \<Rightarrow> nat list \<Rightarrow> (nat \<times> nat) option" where
  "slot m p [] = None"
| "slot m p [i] = Some (p, i)"
| "slot m p (i # j # js) = (if m p i = 0 then None else slot m (tgt (m p i)) (j # js))"

text \<open>\<open>entry m p is\<close>: the entry at the end of the path, 0 when the path does not exist.\<close>

definition entry :: "memory \<Rightarrow> nat \<Rightarrow> nat list \<Rightarrow> u64" where
  "entry m p is = (case slot m p is of None \<Rightarrow> 0 | Some (q, j) \<Rightarrow> m q j)"

lemma entry_simps [simp]:
  "entry m p [i] = m p i"
  "entry m p (i # j # js) = (if m p i = 0 then 0 else entry m (tgt (m p i)) (j # js))"
  by (simp_all add: entry_def)

text \<open>
  \<open>lv p\<close> is the level of table page \<open>p\<close> (4 for a page map level 4, 1 for a page
  table) and 0 for every other page. \<open>own p i\<close> says that slot \<open>i\<close> of the table
  \<open>p\<close> belongs to the tree: the slots an address space shares with the kernel and the
  self-map at UVPT do not.
\<close>

type_synonym levels = "nat \<Rightarrow> nat"
type_synonym owner = "nat \<Rightarrow> nat \<Rightarrow> bool"

definition tree_inv :: "memory \<Rightarrow> levels \<Rightarrow> owner \<Rightarrow> bool" where
  "tree_inv m lv own \<longleftrightarrow>
     (\<forall>p i. 2 \<le> lv p \<longrightarrow> own p i \<longrightarrow> m p i \<noteq> 0 \<longrightarrow> Suc (lv (tgt (m p i))) = lv p) \<and>
     (\<forall>p i q j. 2 \<le> lv p \<longrightarrow> 2 \<le> lv q \<longrightarrow> own p i \<longrightarrow> own q j \<longrightarrow> m p i \<noteq> 0 \<longrightarrow> m q j \<noteq> 0 \<longrightarrow>
        tgt (m p i) = tgt (m q j) \<longrightarrow> p = q \<and> i = j) \<and>
     (\<forall>p i. 2 \<le> lv p \<longrightarrow> own p i \<longrightarrow> m p i \<noteq> 0 \<longrightarrow> m p i AND 7 = 7)"

lemma tree_invD:
  assumes "tree_inv m lv own"
  shows "2 \<le> lv p \<Longrightarrow> own p i \<Longrightarrow> m p i \<noteq> 0 \<Longrightarrow> Suc (lv (tgt (m p i))) = lv p"
    and "2 \<le> lv p \<Longrightarrow> 2 \<le> lv q \<Longrightarrow> own p i \<Longrightarrow> own q j \<Longrightarrow> m p i \<noteq> 0 \<Longrightarrow> m q j \<noteq> 0 \<Longrightarrow>
        tgt (m p i) = tgt (m q j) \<Longrightarrow> p = q \<and> i = j"
    and "2 \<le> lv p \<Longrightarrow> own p i \<Longrightarrow> m p i \<noteq> 0 \<Longrightarrow> m p i AND 7 = 7"
  using assms unfolding tree_inv_def by blast+

text \<open>All slots of a path belong to the tree.\<close>

fun owned :: "memory \<Rightarrow> owner \<Rightarrow> nat \<Rightarrow> nat list \<Rightarrow> bool" where
  "owned m own p [] \<longleftrightarrow> True"
| "owned m own p (i # is) \<longleftrightarrow> own p i \<and> (is \<noteq> [] \<longrightarrow> m p i \<noteq> 0 \<longrightarrow> owned m own (tgt (m p i)) is)"

lemma slot_level:
  "tree_inv m lv own \<Longrightarrow> lv p = length is \<Longrightarrow> owned m own p is \<Longrightarrow> slot m p is = Some (q, j) \<Longrightarrow>
   lv q = 1 \<and> own q j \<and> j = last is"
proof (induction m p "is" rule: slot.induct)
  case (3 m p i j' js)
  then have "Suc (lv (tgt (m p i))) = lv p" by (intro tree_invD(1) [OF 3(2)]) (auto split: if_splits)
  with 3 show ?case by (auto split: if_splits)
qed auto

text \<open>Two owned paths of the same length that end in the same slot are the same path.\<close>

lemma slot_inj:
  assumes "tree_inv m lv own"
  shows "length is = length js \<Longrightarrow> lv p = length is \<Longrightarrow> lv q = length js \<Longrightarrow>
    owned m own p is \<Longrightarrow> owned m own q js \<Longrightarrow> slot m p is = Some x \<Longrightarrow> slot m q js = Some x \<Longrightarrow>
    p = q \<and> is = js"
proof (induction "is" js arbitrary: p q rule: list_induct2)
  case Nil
  then show ?case by simp
next
  case (Cons i "is" j js)
  show ?case
  proof (cases "is")
    case Nil
    with Cons show ?thesis by auto
  next
    case (Cons i' is')
    with Cons.hyps obtain j' js' where js: "js = j' # js'" by (cases js) auto
    have nz: "m p i \<noteq> 0" "m q j \<noteq> 0" and o: "own p i" "own q j"
      using Cons.prems Cons js by (auto split: if_splits)
    have l2: "2 \<le> lv p" "2 \<le> lv q" using Cons.prems Cons js by auto
    have "Suc (lv (tgt (m p i))) = lv p" "Suc (lv (tgt (m q j))) = lv q"
      using tree_invD(1) [OF assms] l2 nz o by auto
    then have "tgt (m p i) = tgt (m q j) \<and> is = js"
      using Cons.prems nz Cons js by (intro Cons.IH) auto
    with tree_invD(2) [OF assms] l2 nz o show ?thesis by metis
  qed
qed

section \<open>What one store does to the paths\<close>

lemma leaf_store:
  assumes "tree_inv m lv own" and "lv p = 1"
  shows "lv q = length js \<Longrightarrow> owned m own q js \<Longrightarrow>
    slot (m(p := (m p)(i := v))) q js = slot m q js \<and> owned (m(p := (m p)(i := v))) own q js"
proof -
  define m' where "m' = m(p := (m p)(i := v))"
  have same: "m' q j = m q j" if "2 \<le> lv q" for q j using assms(2) that by (auto simp: m'_def)
  have "slot m' q js = slot m q js \<and> owned m' own q js" if "lv q = length js" "owned m own q js"
    using that
  proof (induction js arbitrary: q)
    case (Cons j js)
    show ?case
    proof (cases js)
      case Nil
      with Cons.prems show ?thesis by simp
    next
      case (Cons j' js')
      then have q: "2 \<le> lv q" using Cons.prems by simp
      have "m q j \<noteq> 0 \<Longrightarrow> lv (tgt (m q j)) = length js"
        using tree_invD(1) [OF assms(1) q, of j] Cons.prems Cons by auto
      with Cons.IH [of "tgt (m q j)"] Cons.prems Cons same [OF q] show ?thesis
        by (cases "m q j = 0") simp_all
    qed
  qed simp
  then show "lv q = length js \<Longrightarrow> owned m own q js \<Longrightarrow>
    slot (m(p := (m p)(i := v))) q js = slot m q js \<and> owned (m(p := (m p)(i := v))) own q js"
    by (simp add: m'_def)
qed

lemma tree_inv_leaf_store:
  "tree_inv m lv own \<Longrightarrow> lv p = 1 \<Longrightarrow> tree_inv (m(p := (m p)(i := v))) lv own"
  unfolding tree_inv_def by auto

lemma tree_inv_cong:
  assumes "tree_inv m lv own" and "\<And>q j. lv q \<noteq> 0 \<Longrightarrow> m' q j = m q j"
  shows "tree_inv m' lv own"
proof -
  have "m' q j = m q j" if "2 \<le> lv q" for q j using assms(2) that by simp
  then show ?thesis using assms(1) by (simp add: tree_inv_def)
qed

lemma entry_leaf_store:
  assumes "tree_inv m lv own" and "lv p = 1" and "lv q = length js" and "owned m own q js"
  shows "entry (m(p := (m p)(i := v))) q js = (if slot m q js = Some (p, i) then v else entry m q js)"
  using leaf_store [OF assms, of i v] by (auto simp: entry_def split: option.splits)

text \<open>
  Linking a cleared page \<open>p\<close> that is not a table yet into the empty slot \<open>i\<close> of
  table \<open>t\<close> changes no entry at the end of any path.
\<close>

definition linkable :: "memory \<Rightarrow> levels \<Rightarrow> owner \<Rightarrow> nat \<Rightarrow> nat \<Rightarrow> u64 \<Rightarrow> bool" where
  "linkable m lv own t i e \<longleftrightarrow>
     tree_inv m lv own \<and> 2 \<le> lv t \<and> own t i \<and> m t i = 0 \<and> lv (tgt e) = 0 \<and> e \<noteq> 0 \<and> e AND 7 = 7"

definition link_mem :: "memory \<Rightarrow> nat \<Rightarrow> nat \<Rightarrow> u64 \<Rightarrow> memory" where
  "link_mem m t i e = (m(t := (m t)(i := e)))(tgt e := (\<lambda>_. 0))"

definition link_lv :: "levels \<Rightarrow> nat \<Rightarrow> u64 \<Rightarrow> levels" where
  "link_lv lv t e = lv(tgt e := lv t - 1)"

definition link_own :: "owner \<Rightarrow> u64 \<Rightarrow> owner" where
  "link_own own e = own(tgt e := (\<lambda>_. True))"

lemma link_own_iff [simp]: "link_own own e q j \<longleftrightarrow> q = tgt e \<or> own q j"
  by (simp add: link_own_def)

lemma link_same:
  "linkable m lv own t i e \<Longrightarrow> lv q \<noteq> 0 \<Longrightarrow>
   link_mem m t i e q j = (if q = t \<and> j = i then e else m q j)"
  by (auto simp: link_mem_def linkable_def)

lemma zero_table_entry: "(\<And>j. m p j = 0) \<Longrightarrow> entry m p js = 0"
  by (cases js rule: list.exhaust [case_names Nil Cons], simp add: entry_def)
    (metis entry_simps neq_Nil_conv)

lemma zero_table_owned: "(\<And>j. m p j = 0) \<Longrightarrow> (\<And>j. own p j) \<Longrightarrow> owned m own p js"
  by (cases js) auto

lemma link_entry:
  assumes L: "linkable m lv own t i e"
  shows "lv q = length js \<Longrightarrow> owned m own q js \<Longrightarrow>
    entry (link_mem m t i e) q js = entry m q js \<and> owned (link_mem m t i e) (link_own own e) q js"
proof (induction js arbitrary: q)
  case Nil
  then show ?case by (simp add: entry_def)
next
  case (Cons j js)
  have lq: "lv q \<noteq> 0" "q \<noteq> tgt e" using Cons.prems L by (auto simp: linkable_def)
  show ?case
  proof (cases js)
    case Nil
    have "q \<noteq> t" using L Cons.prems Nil by (auto simp: linkable_def)
    with Nil Cons.prems lq show ?thesis by (simp add: link_same [OF L])
  next
    case (Cons j' js')
    then have q: "2 \<le> lv q" using Cons.prems by simp
    show ?thesis
    proof (cases "q = t \<and> j = i")
      case True
      have z: "link_mem m t i e (tgt e) k = 0" for k by (simp add: link_mem_def)
      have "entry (link_mem m t i e) (tgt e) js = 0" by (rule zero_table_entry) (rule z)
      moreover have "owned (link_mem m t i e) (link_own own e) (tgt e) js"
        by (rule zero_table_owned) (simp_all add: z)
      ultimately show ?thesis
        using True Cons.prems Cons lq L by (auto simp: link_same [OF L] linkable_def z)
    next
      case False
      then have same: "link_mem m t i e q j = m q j" using lq by (auto simp: link_same [OF L])
      have "m q j \<noteq> 0 \<Longrightarrow> lv (tgt (m q j)) = length js"
        using tree_invD(1) [of m lv own q j] L q Cons.prems Cons by (auto simp: linkable_def)
      then show ?thesis
        using Cons.IH [of "tgt (m q j)"] Cons.prems Cons same lq by auto
    qed
  qed
qed

lemma link_tree:
  assumes L: "linkable m lv own t i e"
  shows "tree_inv (link_mem m t i e) (link_lv lv t e) (link_own own e)"
proof -
  have T: "tree_inv m lv own" and t: "t \<noteq> tgt e" "2 \<le> lv t" using L by (auto simp: linkable_def)
  have no_in: "tgt (m q j) \<noteq> tgt e" if "2 \<le> lv q" "own q j" "m q j \<noteq> 0" for q j
    using tree_invD(1) [OF T that] L that(1) by (auto simp: linkable_def)
  have "Suc (link_lv lv t e (tgt (link_mem m t i e q j))) = link_lv lv t e q"
    if "2 \<le> link_lv lv t e q" "link_own own e q j" "link_mem m t i e q j \<noteq> 0" for q j
    using that tree_invD(1) [OF T, of q j] no_in [of q j] t
    by (auto simp: link_mem_def link_lv_def split: if_splits)
  moreover have "q = q' \<and> j = j'"
    if "2 \<le> link_lv lv t e q" "link_own own e q j" "link_mem m t i e q j \<noteq> 0"
      "2 \<le> link_lv lv t e q'" "link_own own e q' j'" "link_mem m t i e q' j' \<noteq> 0"
      "tgt (link_mem m t i e q j) = tgt (link_mem m t i e q' j')" for q j q' j'
    using that tree_invD(2) [OF T, of q q' j j'] no_in [of q j] no_in [of q' j'] t
    by (auto simp: link_mem_def link_lv_def split: if_splits)
  moreover have "link_mem m t i e q j AND 7 = 7"
    if "2 \<le> link_lv lv t e q" "link_own own e q j" "link_mem m t i e q j \<noteq> 0" for q j
    using that tree_invD(3) [OF T, of q j] L by (auto simp: link_mem_def link_lv_def linkable_def split: if_splits)
  ultimately show ?thesis unfolding tree_inv_def by blast
qed

end
