(* ===== verification/Walk.thy ===== *)
theory Walk
  imports Page_Tables
begin

text \<open>
  The walk functions of kern/pmap.c as one walk along a path of indices: it keeps the combined
  invariant of allocator and page tables, and when it runs out of memory it gives back every
  table page it took.
\<close>

section \<open>The generic walk\<close>

fun gwalk :: "nat \<Rightarrow> nat list \<Rightarrow> bool \<Rightarrow> kstate \<Rightarrow> (nat option \<times> kstate) option" where
  "gwalk t [] create s = Some (Some t, s)"
| "gwalk t (i # is) create s =
     (if phys s t i = 0 then
        if \<not> create then Some (None, s)
        else do {
          (newPage, s) \<leftarrow> table_alloc t i s;
          if newPage = None then Some (None, s)
          else do {
            n \<leftarrow> KADDR s (PTE_ADDR (phys s t i));
            (result, s) \<leftarrow> gwalk n is create s;
            s \<leftarrow> (if result = None then table_undo t i newPage s else Some s);
            Some (result, s)
          }
        }
      else do {
        n \<leftarrow> KADDR s (PTE_ADDR (phys s t i));
        gwalk n is create s
      })"

lemma pgdir_walk_gwalk: "pgdir_walk pgdir va create s = gwalk pgdir [PDX va] create s"
  by (auto simp: pgdir_walk_def split: Option.bind_splits)

lemma pdpe_walk_gwalk: "pdpe_walk pdpe va create s = gwalk pdpe [PDPE va, PDX va] create s"
  unfolding pdpe_walk_def gwalk.simps(2) [of pdpe] pgdir_walk_gwalk ..

lemma pml4e_walk_gwalk:
  "pml4e_walk pml4e va create s =
     map_option (\<lambda>(r, s). (map_option (\<lambda>pt. (pt, PTX va)) r, s))
       (gwalk pml4e [PML4 va, PDPE va, PDX va] create s)"
  unfolding pml4e_walk_def gwalk.simps(2) [of pml4e] pdpe_walk_gwalk
  by (auto simp del: gwalk.simps split: Option.bind_splits)

section \<open>The invariant of the memory manager\<close>

text \<open>
  The ghost state: the level of every page, the slots that belong to the trees, and for every
  page the references the kernel itself holds (a table is held by its parent, a root by its
  environment).
\<close>

record vm_ghost =
  lev :: levels
  own :: owner
  held :: "nat \<Rightarrow> nat"

definition leafs :: "memory \<Rightarrow> levels \<Rightarrow> owner \<Rightarrow> nat \<Rightarrow> (nat \<times> nat) set" where
  "leafs m lv ow q = {(p, i). lv p = 1 \<and> ow p i \<and> i < 512 \<and> m p i \<noteq> 0 \<and> tgt (m p i) = q}"

definition vm_inv :: "kstate \<Rightarrow> nat list \<Rightarrow> vm_ghost \<Rightarrow> bool" where
  "vm_inv s xs g \<longleftrightarrow>
     alloc_inv s xs \<and> tree_inv (phys s) (lev g) (own g) \<and>
     (\<forall>p. lev g p \<noteq> 0 \<longrightarrow> p \<noteq> 0 \<and> p < npages s \<and> held g p \<noteq> 0) \<and>
     (\<forall>p i. lev g p = 1 \<longrightarrow> own g p i \<longrightarrow> phys s p i \<noteq> 0 \<longrightarrow>
        tgt (phys s p i) \<noteq> 0 \<and> tgt (phys s p i) < npages s) \<and>
     (\<forall>q < npages s. unat (pp_ref (pages s q)) = card (leafs (phys s) (lev g) (own g) q) + held g q)"

lemma vm_invD:
  assumes "vm_inv s xs g"
  shows "alloc_inv s xs" "tree_inv (phys s) (lev g) (own g)" "npages s \<le> 2 ^ 20"
    "lev g p \<noteq> 0 \<Longrightarrow> p \<noteq> 0" "lev g p \<noteq> 0 \<Longrightarrow> p < npages s" "lev g p \<noteq> 0 \<Longrightarrow> held g p \<noteq> 0"
    "lev g p = 1 \<Longrightarrow> own g p i \<Longrightarrow> phys s p i \<noteq> 0 \<Longrightarrow> tgt (phys s p i) \<noteq> 0"
    "lev g p = 1 \<Longrightarrow> own g p i \<Longrightarrow> phys s p i \<noteq> 0 \<Longrightarrow> tgt (phys s p i) < npages s"
    "q < npages s \<Longrightarrow> unat (pp_ref (pages s q)) = card (leafs (phys s) (lev g) (own g) q) + held g q"
  using assms by (auto simp: vm_inv_def dest: alloc_invD(3))

lemma finite_leafs: "vm_inv s xs g \<Longrightarrow> finite (leafs (phys s) (lev g) (own g) q)"
  by (rule finite_subset [of _ "{..<npages s} \<times> {..<512}"]) (auto simp: leafs_def intro: vm_invD(5))

lemma held_not_free: "vm_inv s xs g \<Longrightarrow> q < npages s \<Longrightarrow> held g q \<noteq> 0 \<Longrightarrow> q \<notin> set xs"
  using vm_invD(9) [of s xs g q] alloc_invD(6) [of s xs q] vm_invD(1) [of s xs g] by auto

lemma table_not_free: "vm_inv s xs g \<Longrightarrow> lev g q \<noteq> 0 \<Longrightarrow> q \<notin> set xs"
  using held_not_free vm_invD(5,6) by blast

lemma leaf_not_free: "vm_inv s xs g \<Longrightarrow> x \<in> leafs (phys s) (lev g) (own g) q \<Longrightarrow> q \<notin> set xs"
proof
  assume inv: "vm_inv s xs g" and x: "x \<in> leafs (phys s) (lev g) (own g) q" and q: "q \<in> set xs"
  then have "card (leafs (phys s) (lev g) (own g) q) = 0"
    using vm_invD(9) [OF inv, of q] alloc_invD(5,6) [OF vm_invD(1) [OF inv] q] by simp
  with finite_leafs [OF inv, of q] x show False by auto
qed

text \<open>What a step of the memory manager does not touch.\<close>

definition mm_only :: "kstate \<Rightarrow> kstate \<Rightarrow> bool" where
  "mm_only s s' \<longleftrightarrow>
     (\<exists>pgs l m tlb. s' = s\<lparr>pages := pgs, page_free_list := l, phys := m, invlpgs := tlb\<rparr>)"

lemma mm_onlyI: "s' = s\<lparr>pages := pgs, page_free_list := l, phys := m, invlpgs := tlb\<rparr> \<Longrightarrow> mm_only s s'"
  by (auto simp: mm_only_def)

lemma mm_only_refl [simp, intro]: "mm_only s s"
  by (rule mm_onlyI [where pgs = "pages s" and l = "page_free_list s" and m = "phys s" and tlb = "invlpgs s"]) simp

lemma mm_only_trans: "mm_only s s' \<Longrightarrow> mm_only s' s'' \<Longrightarrow> mm_only s s''"
  unfolding mm_only_def by (elim exE, intro exI) simp

lemma mm_only_update [simp]:
  "mm_only s (s\<lparr>pages := pgs\<rparr>)" "mm_only s (s\<lparr>page_free_list := l\<rparr>)"
  "mm_only s (s\<lparr>phys := m\<rparr>)" "mm_only s (s\<lparr>invlpgs := tlb\<rparr>)"
  by (rule mm_onlyI [where pgs = "pgs" and l = "page_free_list s" and m = "phys s" and tlb = "invlpgs s"], simp)
    (rule mm_onlyI [where pgs = "pages s" and l = "l" and m = "phys s" and tlb = "invlpgs s"], simp,
     rule mm_onlyI [where pgs = "pages s" and l = "page_free_list s" and m = "m" and tlb = "invlpgs s"], simp,
     rule mm_onlyI [where pgs = "pages s" and l = "page_free_list s" and m = "phys s" and tlb = "tlb"], simp)

lemma mm_only_step [simp]:
  assumes "mm_only s s'"
  shows "mm_only s (upd_page p f s')" "mm_only s (wr p i v s')" "mm_only s (memset_page0 p s')"
    "mm_only s (s'\<lparr>page_free_list := l\<rparr>)" "mm_only s (s'\<lparr>invlpgs := tlb\<rparr>)"
  unfolding upd_page_def wr_def memset_page0_def
  by (rule mm_only_trans [OF assms], rule mm_only_update)+

lemma mm_only_alloc_free [simp]:
  "mm_only s s' \<Longrightarrow> mm_only s (alloc_state fl p s')" "mm_only s s' \<Longrightarrow> mm_only s (free_state p s')"
  unfolding alloc_state_def free_state_def Let_def by auto

lemma mm_only_fields:
  assumes "mm_only s s'"
  shows "npages s' = npages s" "envs s' = envs s" "env_free_list s' = env_free_list s"
    "curenv s' = curenv s" "cr3 s' = cr3 s" "boot_pml4e s' = boot_pml4e s"
  using assms by (auto simp: mm_only_def curenv_def)

text \<open>
  Every table stays a table and every entry that points to one stays; every path of the old
  tables is a path of the new ones with the same entry at its end.
\<close>

definition keeps_paths :: "kstate \<Rightarrow> vm_ghost \<Rightarrow> kstate \<Rightarrow> vm_ghost \<Rightarrow> bool" where
  "keeps_paths s g s' g' \<longleftrightarrow>
     (\<forall>q. lev g q \<noteq> 0 \<longrightarrow> lev g' q = lev g q) \<and>
     (\<forall>q i. 2 \<le> lev g q \<longrightarrow> own g q i \<longrightarrow>
        own g' q i \<and> (phys s q i \<noteq> 0 \<longrightarrow> phys s' q i = phys s q i)) \<and>
     (\<forall>q js. js \<noteq> [] \<longrightarrow> lev g q = length js \<longrightarrow> owned (phys s) (own g) q js \<longrightarrow>
        entry (phys s') q js = entry (phys s) q js \<and> owned (phys s') (own g') q js)"

lemma keeps_paths_refl [simp, intro]: "keeps_paths s g s g"
  by (simp add: keeps_paths_def)

lemma keeps_paths_trans: "keeps_paths s g s' g' \<Longrightarrow> keeps_paths s' g' s'' g'' \<Longrightarrow> keeps_paths s g s'' g''"
  unfolding keeps_paths_def by simp

lemma keeps_pathsD:
  assumes "keeps_paths s g s' g'"
  shows "lev g q \<noteq> 0 \<Longrightarrow> lev g' q = lev g q"
    "2 \<le> lev g q \<Longrightarrow> own g q i \<Longrightarrow> own g' q i"
    "2 \<le> lev g q \<Longrightarrow> own g q i \<Longrightarrow> phys s q i \<noteq> 0 \<Longrightarrow> phys s' q i = phys s q i"
    "js \<noteq> [] \<Longrightarrow> lev g q = length js \<Longrightarrow> owned (phys s) (own g) q js \<Longrightarrow>
      entry (phys s') q js = entry (phys s) q js"
    "js \<noteq> [] \<Longrightarrow> lev g q = length js \<Longrightarrow> owned (phys s) (own g) q js \<Longrightarrow>
      owned (phys s') (own g') q js"
  using assms unfolding keeps_paths_def by auto

text \<open>
  Pages in use that are no tables, and slots of tables that belong to no tree, keep their
  contents; the ghost state of the pages in use stays.
\<close>

definition keeps_data :: "nat list \<Rightarrow> vm_ghost \<Rightarrow> kstate \<Rightarrow> kstate \<Rightarrow> bool" where
  "keeps_data xs g s s' \<longleftrightarrow>
     (\<forall>q j. q \<notin> set xs \<longrightarrow> lev g q = 0 \<or> \<not> own g q j \<longrightarrow> phys s' q j = phys s q j)"

definition same_ghost :: "nat list \<Rightarrow> vm_ghost \<Rightarrow> vm_ghost \<Rightarrow> bool" where
  "same_ghost xs g g' \<longleftrightarrow>
     (\<forall>p. p \<notin> set xs \<longrightarrow> lev g' p = lev g p \<and> own g' p = own g p \<and> held g' p = held g p)"

lemma keeps_data_refl [simp, intro]: "keeps_data xs g s s"
  by (simp add: keeps_data_def)

lemma same_ghost_refl [simp, intro]: "same_ghost xs g g"
  by (simp add: same_ghost_def)

lemma same_ghostD:
  assumes "same_ghost xs g g'" and "p \<notin> set xs"
  shows "lev g' p = lev g p" "own g' p = own g p" "held g' p = held g p"
  using assms by (simp_all add: same_ghost_def)

lemma keeps_data_trans:
  assumes "keeps_data xs g s s'" and "keeps_data ys g' s' s''" and "same_ghost xs g g'" and "set ys \<subseteq> set xs"
  shows "keeps_data xs g s s''"
proof -
  have "phys s'' q j = phys s q j" if "q \<notin> set xs" "lev g q = 0 \<or> \<not> own g q j" for q j
    using assms that same_ghostD [OF assms(3) that(1)] unfolding keeps_data_def by (metis subsetD)
  then show ?thesis by (simp add: keeps_data_def)
qed

section \<open>One step of the walk\<close>

definition table_pte :: "nat \<Rightarrow> u64" where
  "table_pte p = page2pa p OR PTE_U OR PTE_W OR PTE_P"

lemma table_pte_ne0 [simp]: "table_pte p \<noteq> 0"
proof
  assume "table_pte p = 0"
  then have "bit (table_pte p) 0 = bit (0 :: u64) 0" by simp
  then show False by (simp add: table_pte_def jos_consts bit_simps)
qed

lemma table_pte_flags [simp]: "table_pte p AND 7 = 7"
proof -
  have "(page2pa p OR 7) AND 7 = (7 :: u64)" by (simp add: bit.conj_disj_distrib2)
  moreover have "PTE_U OR PTE_W OR PTE_P = 7" by (simp add: jos_consts)
  ultimately show ?thesis by (simp add: table_pte_def or.assoc)
qed

lemma tgt_table_pte [simp]: "p < 2 ^ 52 \<Longrightarrow> tgt (table_pte p) = p"
  unfolding tgt_def table_pte_def or.assoc
  by (subst PPN_or_small) (simp_all add: jos_consts)

definition table_state :: "nat \<Rightarrow> nat \<Rightarrow> nat \<Rightarrow> kstate \<Rightarrow> kstate" where
  "table_state t i p s =
     memset_page0 p (wr t i (table_pte p) (upd_page p (\<lambda>q. q\<lparr>pp_ref := pp_ref q + 1\<rparr>) (alloc_state 0 p s)))"

definition table_ghost :: "nat \<Rightarrow> nat \<Rightarrow> vm_ghost \<Rightarrow> vm_ghost" where
  "table_ghost t p g =
     \<lparr>lev = link_lv (lev g) t (table_pte p), own = link_own (own g) (table_pte p),
      held = (held g)(p := 1)\<rparr>"

lemma table_alloc_none: "alloc_inv s [] \<Longrightarrow> table_alloc t i s = Some (None, s)"
  by (simp add: table_alloc_def page_alloc_empty)

lemma table_alloc_some:
  assumes "alloc_inv s (p # ps)"
  shows "table_alloc t i s = Some (Some p, table_state t i p s)"
  using alloc_invD(3) [OF assms] alloc_invD(5) [OF assms, of p]
  by (simp add: table_alloc_def page_alloc_head [OF assms] page2kva_ok table_state_def table_pte_def or.assoc)

lemma table_state_simps [simp]:
  "npages (table_state t i p s) = npages s"
  "page_free_list (table_state t i p s) = pp_link (pages s p)"
  "pages (table_state t i p s) = (pages s)(p := (pages s p)\<lparr>pp_link := None, pp_ref := pp_ref (pages s p) + 1\<rparr>)"
  by (simp_all add: table_state_def)

lemma table_state_mm_only [simp]: "mm_only s (table_state t i p s)"
  by (simp add: table_state_def)

lemma table_state_phys:
  "p < 2 ^ 52 \<Longrightarrow> phys (table_state t i p s) = link_mem (phys s) t i (table_pte p)"
  by (auto simp: table_state_def link_mem_def ALLOC_ZERO_def fun_eq_iff)

lemma table_state_alloc_inv: "alloc_inv s (p # ps) \<Longrightarrow> alloc_inv (table_state t i p s) ps"
  using alloc_invD(2) [of s "p # ps"]
  by (auto simp: alloc_inv_def free_pages_def)

lemma link_leafs:
  assumes "linkable m lv ow t i e"
  shows "leafs (link_mem m t i e) (link_lv lv t e) (link_own ow e) q = leafs m lv ow q"
  using assms by (auto simp: leafs_def link_mem_def link_lv_def linkable_def split: if_splits)

text \<open>The facts about one allocated table, for a slot of the tree that is empty.\<close>

lemma table_step:
  assumes inv: "vm_inv s (p # ps) g" and t: "2 \<le> lev g t" "own g t i" "phys s t i = 0"
  shows "vm_inv (table_state t i p s) ps (table_ghost t p g)"
    and "keeps_paths s g (table_state t i p s) (table_ghost t p g)"
    and "lev g p = 0"
proof -
  have a: "alloc_inv s (p # ps)" by (rule vm_invD(1) [OF inv])
  have p: "p < npages s" "p < 2 ^ 52" "p \<noteq> 0" and r: "pp_ref (pages s p) = 0"
    using alloc_invD(3) [OF a] alloc_invD(4-6) [OF a, of p] by auto
  show l: "lev g p = 0" using table_not_free [OF inv, of p] by auto
  have tp: "t \<noteq> p" using t l by auto
  have L: "linkable (phys s) (lev g) (own g) t i (table_pte p)"
    using vm_invD(2) [OF inv] t l p by (simp add: linkable_def)
  have h: "held g p = 0" "leafs (phys s) (lev g) (own g) p = {}"
    using held_not_free [OF inv p(1)] leaf_not_free [OF inv] by auto
  show "keeps_paths s g (table_state t i p s) (table_ghost t p g)"
    using link_entry [OF L] l p t
    by (auto simp: keeps_paths_def table_state_phys table_ghost_def link_lv_def link_same [OF L])
  have "unat (pp_ref (pages (table_state t i p s) q)) =
      card (leafs (phys (table_state t i p s)) (lev (table_ghost t p g)) (own (table_ghost t p g)) q) +
      held (table_ghost t p g) q" if "q < npages s" for q
    using vm_invD(9) [OF inv that] h r p
    by (simp add: table_state_phys table_ghost_def link_leafs [OF L])
  moreover have "tgt (phys (table_state t i p s) q j) \<noteq> 0 \<and> tgt (phys (table_state t i p s) q j) < npages s"
    if "lev (table_ghost t p g) q = 1" "own (table_ghost t p g) q j" "phys (table_state t i p s) q j \<noteq> 0" for q j
    using that vm_invD(7,8) [OF inv, of q j] t tp p
    by (auto simp: table_state_phys table_ghost_def link_mem_def link_lv_def split: if_splits)
  ultimately show "vm_inv (table_state t i p s) ps (table_ghost t p g)"
    unfolding vm_inv_def
    using table_state_alloc_inv [OF a] link_tree [OF L] vm_invD(4,5,6) [OF inv] p
    by (auto simp: table_state_phys table_ghost_def link_lv_def)
qed

lemma same_table_ghost: "p < 2 ^ 52 \<Longrightarrow> same_ghost (p # ps) g (table_ghost t p g)"
  by (simp add: same_ghost_def table_ghost_def link_lv_def link_own_def)

lemma keeps_data_table:
  "2 \<le> lev g t \<Longrightarrow> own g t i \<Longrightarrow> p < 2 ^ 52 \<Longrightarrow> keeps_data (p # ps) g s (table_state t i p s)"
  by (auto simp: keeps_data_def table_state_phys link_mem_def)

section \<open>The whole walk\<close>

lemma KADDR_tgt: "tgt e < npages s \<Longrightarrow> npages s \<le> 2 ^ 20 \<Longrightarrow> KADDR s (PTE_ADDR e) = Some (tgt e)"
  by (simp add: KADDR_def tgt_def unsigned_ucast_eq take_bit_eq_mod)

lemma slot_Cons_snoc [simp]:
  "slot m p (i # is @ [j]) = (if m p i = 0 then None else slot m (tgt (m p i)) (is @ [j]))"
  by (cases "is") auto

lemma walk_next:
  assumes "vm_inv s xs g" and "lev g t = Suc (length (i # is))" and "owned (phys s) (own g) t (i # is @ [j])"
    and "phys s t i \<noteq> 0"
  shows "lev g (tgt (phys s t i)) = Suc (length is)"
    and "owned (phys s) (own g) (tgt (phys s t i)) (is @ [j])"
    and "KADDR s (PTE_ADDR (phys s t i)) = Some (tgt (phys s t i))"
proof -
  show l: "lev g (tgt (phys s t i)) = Suc (length is)"
    using tree_invD(1) [OF vm_invD(2) [OF assms(1)], of t i] assms by auto
  show "owned (phys s) (own g) (tgt (phys s t i)) (is @ [j])"
    using assms by (cases "is") auto
  show "KADDR s (PTE_ADDR (phys s t i)) = Some (tgt (phys s t i))"
    using vm_invD(5) [OF assms(1)] vm_invD(3) [OF assms(1)] l by (intro KADDR_tgt) auto
qed

lemma gwalk_found:
  "vm_inv s xs g \<Longrightarrow> lev g t = Suc (length is) \<Longrightarrow> owned (phys s) (own g) t (is @ [j]) \<Longrightarrow>
   slot (phys s) t (is @ [j]) = Some (q, k) \<Longrightarrow> gwalk t is create s = Some (Some q, s)"
proof (induction "is" arbitrary: t)
  case (Cons i "is")
  then have nz: "phys s t i \<noteq> 0" by (auto split: if_splits)
  note n = walk_next [OF Cons.prems(1,2) Cons.prems(3) [simplified append_Cons] nz]
  show ?case using Cons.IH [OF Cons.prems(1) n(1,2)] Cons.prems(4) n(3) nz by simp
qed simp

lemma gwalk_absent:
  "vm_inv s xs g \<Longrightarrow> lev g t = Suc (length is) \<Longrightarrow> owned (phys s) (own g) t (is @ [j]) \<Longrightarrow>
   slot (phys s) t (is @ [j]) = None \<Longrightarrow> gwalk t is False s = Some (None, s)"
proof (induction "is" arbitrary: t)
  case (Cons i "is")
  show ?case
  proof (cases "phys s t i = 0")
    case False
    note n = walk_next [OF Cons.prems(1,2) Cons.prems(3) [simplified append_Cons] False]
    show ?thesis using Cons.IH [OF Cons.prems(1) n(1,2)] Cons.prems(4) n(3) False by simp
  qed simp
qed simp

text \<open>What a step takes from the free list, and how far it raises reference counts, at most.\<close>

definition spends :: "nat \<Rightarrow> nat \<Rightarrow> nat list \<Rightarrow> kstate \<Rightarrow> nat list \<Rightarrow> kstate \<Rightarrow> bool" where
  "spends n k xs s xs' s' \<longleftrightarrow>
     length xs \<le> length xs' + n \<and> (\<forall>p. unat (pp_ref (pages s' p)) \<le> unat (pp_ref (pages s p)) + k)"

lemma unat_inc_le: "unat (r + 1) \<le> unat r + 1" for r :: u16
  by (simp add: unat_word_ariths)

lemma spends_refl [simp, intro]: "spends n k xs s xs s"
  by (simp add: spends_def)

lemma spends_trans:
  assumes "spends n k xs s ys s1" and "spends n' k' ys s1 zs s2"
  shows "spends (n + n') (k + k') xs s zs s2"
proof -
  have "unat (pp_ref (pages s2 p)) \<le> unat (pp_ref (pages s p)) + (k + k')" for p
  proof -
    have "unat (pp_ref (pages s1 p)) \<le> unat (pp_ref (pages s p)) + k" "unat (pp_ref (pages s2 p)) \<le> unat (pp_ref (pages s1 p)) + k'"
      using assms by (simp_all add: spends_def)
    then show ?thesis by linarith
  qed
  then show ?thesis using assms by (simp add: spends_def)
qed

lemma spends_mono: "spends n k xs s ys s' \<Longrightarrow> n \<le> n' \<Longrightarrow> k \<le> k' \<Longrightarrow> spends n' k' xs s ys s'"
  using spends_trans [of n k xs s ys s' "n' - n" "k' - k" ys s'] by simp

text \<open>The state a failed walk leaves: only the contents of free pages may have changed.\<close>

definition rolled_back :: "nat list \<Rightarrow> kstate \<Rightarrow> kstate \<Rightarrow> bool" where
  "rolled_back xs s s' \<longleftrightarrow>
     mm_only s s' \<and> pages s' = pages s \<and> page_free_list s' = page_free_list s \<and>
     (\<forall>q. q \<notin> set xs \<longrightarrow> phys s' q = phys s q)"

definition created :: "nat list \<Rightarrow> vm_ghost \<Rightarrow> kstate \<Rightarrow> nat \<Rightarrow> nat list \<Rightarrow> nat \<Rightarrow> kstate \<Rightarrow> bool" where
  "created xs g s t path q s' \<longleftrightarrow> mm_only s s' \<and>
     (\<exists>ys zs g'. xs = ys @ zs \<and> vm_inv s' zs g' \<and> keeps_paths s g s' g' \<and>
        lev g' q = 1 \<and> same_ghost ys g g' \<and> keeps_data xs g s s' \<and> spends (length path - 1) 1 xs s zs s' \<and>
        (\<forall>p. p \<notin> set ys \<longrightarrow> pages s' p = pages s p) \<and>
        slot (phys s') t path = Some (q, last path))"

lemma table_undo_state:
  assumes inv: "vm_inv s (p # ps) g" and t: "2 \<le> lev g t" "own g t i" "phys s t i = 0"
    and rb: "rolled_back ps (table_state t i p s) s'"
  shows "\<exists>s''. table_undo t i (Some p) s' = Some s'' \<and> rolled_back (p # ps) s s''"
proof -
  have a: "alloc_inv s (p # ps)" by (rule vm_invD(1) [OF inv])
  then have link: "pp_link (pages s p) = (case ps of [] \<Rightarrow> None | q # _ \<Rightarrow> Some q)"
    and r: "pp_ref (pages s p) = 0"
    by (auto simp: alloc_inv_def free_pages_def split: list.splits)
  have p: "p \<notin> set ps" "p < 2 ^ 52" "t \<notin> set (p # ps)"
    using alloc_invD(2,3) [OF a] alloc_invD(5) [OF a, of p] table_not_free [OF inv, of t] t(1) by auto
  let ?u = "upd_page p (\<lambda>p. p\<lparr>pp_ref := 0\<rparr>) (wr t i 0 s')"
  have m: "mm_only s s'"
    using rb mm_only_trans [OF table_state_mm_only, of t i p s s'] by (simp add: rolled_back_def)
  have np: "npages s' = npages s" using mm_only_fields(1) [OF m] .
  have "alloc_inv ?u ps"
    using table_state_alloc_inv [OF a, of t i] rb p(1) np
    by (auto simp: alloc_inv_def free_pages_def rolled_back_def)
  then have "table_undo t i (Some p) s' = Some (free_state p ?u)"
    using page_free_eq [of ?u ps p] p(1) by (simp add: table_undo_def)
  moreover have "rolled_back (p # ps) s (free_state p ?u)"
    using rb p m link r t(3) a
    by (auto simp: rolled_back_def table_state_phys link_mem_def fun_eq_iff alloc_inv_def free_pages_def)
  ultimately show ?thesis by blast
qed

lemma created_deeper:
  assumes c: "created xs g s (tgt (phys s t i)) (is @ [j]) q s'"
    and t: "2 \<le> lev g t" "own g t i" "phys s t i \<noteq> 0"
  shows "created xs g s t (i # is @ [j]) q s'"
proof -
  obtain ys zs g' where g': "xs = ys @ zs" "vm_inv s' zs g'" "keeps_paths s g s' g'" "lev g' q = 1"
      "same_ghost ys g g'" "\<forall>x. x \<notin> set ys \<longrightarrow> pages s' x = pages s x"
      "slot (phys s') (tgt (phys s t i)) (is @ [j]) = Some (q, j)" "keeps_data xs g s s'" "spends (length is) 1 xs s zs s'"
      and m: "mm_only s s'"
    using c by (auto simp: created_def)
  have "slot (phys s') t (i # is @ [j]) = Some (q, j)"
    using keeps_pathsD(3) [OF g'(3) t] g'(7) t by simp
  with g' m spends_mono [OF g'(9), of "length (i # is)" 1] show ?thesis
    unfolding created_def by (intro conjI exI [of _ ys] exI [of _ zs] exI [of _ g']) auto
qed

lemma created_step:
  assumes inv: "vm_inv s (p # ps) g" and t: "2 \<le> lev g t" "own g t i" "phys s t i = 0"
    and c: "created ps (table_ghost t p g) (table_state t i p s) p (is @ [j]) q s'"
  shows "created (p # ps) g s t (i # is @ [j]) q s'"
proof -
  note st = table_step [OF inv t]
  obtain ys zs g' where g': "ps = ys @ zs" "vm_inv s' zs g'"
      "keeps_paths (table_state t i p s) (table_ghost t p g) s' g'" "lev g' q = 1"
      "same_ghost ys (table_ghost t p g) g'"
      "\<forall>x. x \<notin> set ys \<longrightarrow> pages s' x = pages (table_state t i p s) x"
      "slot (phys s') p (is @ [j]) = Some (q, j)" "keeps_data ps (table_ghost t p g) (table_state t i p s) s'"
      "spends (length is) 1 ps (table_state t i p s) zs s'" and m: "mm_only (table_state t i p s) s'"
    using c by (auto simp: created_def)
  have p: "p < 2 ^ 52" "t \<noteq> p"
    using alloc_invD(3) [OF vm_invD(1) [OF inv]] alloc_invD(5) [OF vm_invD(1) [OF inv], of p] st(3) t
    by auto
  have "phys s' t i = table_pte p"
    using keeps_pathsD(3) [OF g'(3), of t i] p t
    by (simp add: table_state_phys link_mem_def table_ghost_def link_lv_def)
  then have "slot (phys s') t (i # is @ [j]) = Some (q, j)" using g'(7) p by simp
  moreover have "same_ghost (p # ys) g g'"
    using g'(5) same_table_ghost [of p ps g t] p(1)
    by (auto simp: same_ghost_def table_ghost_def link_lv_def link_own_def)
  moreover have "keeps_data (p # ps) g s s'"
    by (rule keeps_data_trans [OF keeps_data_table [OF t(1,2) p(1)] g'(8) same_table_ghost [OF p(1)]]) auto
  moreover have pg: "pages s' x = pages s x" if "x \<notin> set (p # ys)" for x
    using g'(6) that by simp
  moreover have "spends (length (i # is)) 1 (p # ps) s zs s'"
  proof -
    have np: "p \<notin> set ys" "pp_ref (pages s p) = 0"
      using alloc_invD(2) [OF vm_invD(1) [OF inv]] alloc_invD(6) [OF vm_invD(1) [OF inv], of p] g'(1) by auto
    then have "pp_ref (pages s' p) = 1" using g'(6) by simp
    then have "unat (pp_ref (pages s' x)) \<le> unat (pp_ref (pages s x)) + 1" for x
      using spends_def [THEN iffD1, OF g'(9), THEN conjunct2, THEN spec, of x] np(2) by (cases "x = p") simp_all
    then show ?thesis using g'(9) by (simp add: spends_def)
  qed
  ultimately show ?thesis
    using g' keeps_paths_trans [OF st(2) g'(3)] mm_only_trans [OF table_state_mm_only m]
    unfolding created_def
    by (intro conjI exI [of _ "p # ys"] exI [of _ zs] exI [of _ g']) auto
qed

text \<open>What the walk promises, as one predicate over its result.\<close>

definition walk_result ::
  "nat list \<Rightarrow> vm_ghost \<Rightarrow> kstate \<Rightarrow> nat \<Rightarrow> nat list \<Rightarrow> nat \<Rightarrow> (nat option \<times> kstate) option \<Rightarrow> bool" where
  "walk_result xs g s t is j w \<longleftrightarrow>
     (\<exists>s'. w = Some (None, s') \<and> length xs < length is \<and> rolled_back xs s s') \<or>
     (\<exists>q s'. w = Some (Some q, s') \<and> created xs g s t (is @ [j]) q s')"

lemma walk_result_alloc:
  assumes inv: "vm_inv s (p # ps) g" and t: "lev g t = Suc (length (i # is))" "own g t i" "phys s t i = 0"
    and IH: "\<And>s g t. vm_inv s ps g \<Longrightarrow> lev g t = Suc (length is) \<Longrightarrow> owned (phys s) (own g) t (is @ [j]) \<Longrightarrow>
      walk_result ps g s t is j (gwalk t is True s)"
  shows "walk_result (p # ps) g s t (i # is) j (gwalk t (i # is) True s)"
proof -
  let ?s = "table_state t i p s" and ?g = "table_ghost t p g"
  have lt: "2 \<le> lev g t" using t by simp
  note st = table_step [OF inv lt t(2,3)] and a = vm_invD(1) [OF inv]
  have p: "p < 2 ^ 52" "p < npages s" "t \<noteq> p"
    using alloc_invD(3) [OF a] alloc_invD(5) [OF a, of p] st(3) lt by auto
  have ph: "phys ?s t i = table_pte p" "\<And>k. phys ?s p k = 0"
    using p by (auto simp: table_state_phys link_mem_def)
  have K: "KADDR ?s (PTE_ADDR (table_pte p)) = Some p"
    using KADDR_tgt [of "table_pte p" ?s] p vm_invD(3) [OF inv] by simp
  have "owned (phys ?s) (own ?g) p (is @ [j])"
    by (rule zero_table_owned) (use p in \<open>simp_all add: ph table_ghost_def\<close>)
  then have sp: "walk_result ps ?g ?s p is j (gwalk p is True ?s)"
    using p t by (intro IH st) (simp_all add: table_ghost_def link_lv_def)
  have w: "gwalk t (i # is) True s = do {
      (r, s) \<leftarrow> gwalk p is True ?s;
      s \<leftarrow> (if r = None then table_undo t i (Some p) s else Some s); Some (r, s) }"
    using t(3) table_alloc_some [OF a, of t i] ph(1) K by simp
  from sp show ?thesis unfolding w walk_result_def
    using table_undo_state [OF inv lt t(2,3)] created_step [OF inv lt t(2,3)]
    by fastforce
qed

lemma gwalk_create:
  "vm_inv s xs g \<Longrightarrow> lev g t = Suc (length is) \<Longrightarrow> owned (phys s) (own g) t (is @ [j]) \<Longrightarrow>
   walk_result xs g s t is j (gwalk t is True s)"
proof (induction "is" arbitrary: t s xs g)
  case Nil
  then have "created xs g s t ([] @ [j]) t s"
    unfolding created_def by (intro conjI exI [of _ "[]"] exI [of _ xs] exI [of _ g]) auto
  then show ?case by (simp add: walk_result_def)
next
  case (Cons i "is")
  have o: "own g t i" "2 \<le> lev g t" using Cons.prems by simp_all
  show ?case
  proof (cases "phys s t i = 0")
    case False
    note n = walk_next [OF Cons.prems(1,2) Cons.prems(3) [simplified append_Cons] False]
    have "gwalk t (i # is) True s = gwalk (tgt (phys s t i)) is True s" using n(3) False by simp
    then show ?thesis
      using Cons.IH [OF Cons.prems(1) n(1,2)] created_deeper [OF _ o(2,1) False]
      by (auto simp: walk_result_def)
  next
    case True
    show ?thesis
    proof (cases xs)
      case Nil
      then show ?thesis
        using True table_alloc_none [of s t i] vm_invD(1) [OF Cons.prems(1)]
        by (auto simp: rolled_back_def walk_result_def)
    next
      case (Cons p ps)
      then show ?thesis
        using walk_result_alloc [of s p ps g t i "is" j] Cons.prems True o Cons.IH by auto
    qed
  qed
qed

end
