(* ===== verification/Mapping_Spec.thy ===== *)
theory Mapping_Spec
  imports Walk
begin

text \<open>
  What \<open>page_lookup\<close>, \<open>page_remove\<close> and \<open>page_insert\<close> of kern/pmap.c do to the
  mappings of all address spaces and to the reference counts.
\<close>

section \<open>Addresses as paths\<close>

definition path :: "u64 \<Rightarrow> nat list" where
  "path va = [PML4 va, PDPE va, PDX va, PTX va]"

definition pte_at :: "kstate \<Rightarrow> nat \<Rightarrow> u64 \<Rightarrow> u64" where
  "pte_at s root va = entry (phys s) root (path va)"

text \<open>\<open>root\<close> is a page map level 4 and the walk for \<open>va\<close> stays in slots it owns.\<close>

definition addr_ok :: "kstate \<Rightarrow> vm_ghost \<Rightarrow> nat \<Rightarrow> u64 \<Rightarrow> bool" where
  "addr_ok s g root va \<longleftrightarrow> lev g root = 4 \<and> owned (phys s) (own g) root (path va)"

lemma path_ne [simp]: "path va \<noteq> []" "length (path va) = 4" "last (path va) = PTX va"
  "[PML4 va, PDPE va, PDX va] @ [PTX va] = path va"
  by (simp_all add: path_def)

lemma PTX_less: "PTX va < 512"
proof -
  have "unat (drop_bit 12 va AND 0x1FF) \<le> unat (0x1FF :: u64)"
    by (rule word_le_nat_alt [THEN iffD1]) (rule word_and_le1)
  then show ?thesis by (simp add: PTX_def)
qed

lemma walk_found:
  "vm_inv s xs g \<Longrightarrow> addr_ok s g root va \<Longrightarrow> slot (phys s) root (path va) = Some (q, j) \<Longrightarrow>
   pml4e_walk root va create s = Some (Some (q, PTX va), s)"
  using gwalk_found [of s xs g root "[PML4 va, PDPE va, PDX va]" "PTX va" q j create]
  by (simp add: pml4e_walk_gwalk addr_ok_def path_def del: gwalk.simps slot.simps owned.simps slot_Cons_snoc)

lemma walk_absent:
  "vm_inv s xs g \<Longrightarrow> addr_ok s g root va \<Longrightarrow> slot (phys s) root (path va) = None \<Longrightarrow>
   pml4e_walk root va False s = Some (None, s)"
  using gwalk_absent [of s xs g root "[PML4 va, PDPE va, PDX va]" "PTX va"]
  by (simp add: pml4e_walk_gwalk addr_ok_def path_def del: gwalk.simps slot.simps owned.simps slot_Cons_snoc)

lemma walk_create:
  assumes "vm_inv s xs g" and "addr_ok s g root va"
  shows "(\<exists>s'. pml4e_walk root va True s = Some (None, s') \<and> length xs < 3 \<and> rolled_back xs s s') \<or>
    (\<exists>q s'. pml4e_walk root va True s = Some (Some (q, PTX va), s') \<and> created xs g s root (path va) q s')"
proof -
  have "walk_result xs g s root [PML4 va, PDPE va, PDX va] (PTX va)
      (gwalk root [PML4 va, PDPE va, PDX va] True s)"
    by (rule gwalk_create [OF assms(1)]) (use assms(2) in \<open>simp_all add: addr_ok_def path_def\<close>)
  then show ?thesis
    by (auto simp: walk_result_def pml4e_walk_gwalk path_def simp del: gwalk.simps)
qed

lemma slot_leaf:
  assumes "vm_inv s xs g" and "addr_ok s g root va" and "slot (phys s) root (path va) = Some (q, j)"
  shows "lev g q = 1" "own g q j" "j = PTX va"
  using slot_level [OF vm_invD(2) [OF assms(1)] _ _ assms(3)] assms(2) by (auto simp: addr_ok_def)

section \<open>Stores into page tables\<close>

text \<open>A store through the slot of \<open>va\<close> changes the entry of \<open>va\<close> and of no other address.\<close>

lemma pte_at_store:
  assumes inv: "vm_inv s xs g" and ok: "addr_ok s g root va" and sl: "slot (phys s) root (path va) = Some (q, j)"
    and ok': "addr_ok s g root' va'"
  shows "addr_ok (wr q j v s) g root' va'"
    and "pte_at (wr q j v s) root' va' =
      (if root' = root \<and> path va' = path va then v else pte_at s root' va')"
proof -
  note T = vm_invD(2) [OF inv] and l = slot_leaf [OF inv ok sl]
  have "slot (phys s) root' (path va') = Some (q, j) \<longleftrightarrow> root' = root \<and> path va' = path va"
    using slot_inj [OF T, of "path va'" "path va" root' root "(q, j)"] ok ok' sl by (auto simp: addr_ok_def)
  then show "pte_at (wr q j v s) root' va' =
      (if root' = root \<and> path va' = path va then v else pte_at s root' va')"
    using entry_leaf_store [OF T l(1), of root' "path va'" j v] ok' by (simp add: pte_at_def addr_ok_def wr_def)
  show "addr_ok (wr q j v s) g root' va'"
    using leaf_store [OF T l(1), of root' "path va'" j v] ok' by (simp add: addr_ok_def wr_def)
qed

lemma leafs_store:
  "lv p = 1 \<Longrightarrow> ow p i \<Longrightarrow> i < 512 \<Longrightarrow> leafs (m(p := (m p)(i := v))) lv ow q =
     (if v \<noteq> 0 \<and> tgt v = q then insert (p, i) (leafs m lv ow q) else leafs m lv ow q - {(p, i)})"
  by (auto simp: leafs_def split: if_splits)

lemma vm_inv_leafI:
  assumes inv: "vm_inv s xs g" and l: "lev g q = 1"
    and s': "phys s' = (phys s)(q := (phys s q)(j := v))" "npages s' = npages s" "alloc_inv s' xs'"
    and v: "v \<noteq> 0 \<Longrightarrow> tgt v \<noteq> 0 \<and> tgt v < npages s"
    and c: "\<And>x. x < npages s \<Longrightarrow> unat (pp_ref (pages s' x)) = card (leafs (phys s') (lev g) (own g) x) + held g x"
  shows "vm_inv s' xs' g"
proof -
  have "tgt (phys s' p i) \<noteq> 0 \<and> tgt (phys s' p i) < npages s"
    if "lev g p = 1" "own g p i" "phys s' p i \<noteq> 0" for p i
    using vm_invD(7,8) [OF inv that(1,2)] v that by (auto simp: s' split: if_splits)
  moreover have "p \<noteq> 0 \<and> p < npages s \<and> held g p \<noteq> 0" if "lev g p \<noteq> 0" for p
    using vm_invD(4-6) [OF inv that] by simp
  moreover have "tree_inv (phys s') (lev g) (own g)"
    unfolding s'(1) by (rule tree_inv_leaf_store [OF vm_invD(2) [OF inv] l])
  ultimately show ?thesis
    using s'(3) c unfolding vm_inv_def s'(2) by blast
qed

text \<open>The three ways the source changes a leaf entry: map, unmap, and change the permissions.\<close>

lemma leaf_retag:
  assumes inv: "vm_inv s xs g" and l: "lev g q = 1" "own g q j" "j < 512"
    and e: "phys s q j \<noteq> 0" "v \<noteq> 0" "tgt v = tgt (phys s q j)"
  shows "vm_inv (wr q j v s) xs g"
proof (rule vm_inv_leafI [OF inv l(1)])
  have lf: "leafs ((phys s)(q := (phys s q)(j := v))) (lev g) (own g) x = leafs (phys s) (lev g) (own g) x" for x
    using l e by (auto simp: leafs_def split: if_splits)
  show "unat (pp_ref (pages (wr q j v s) x)) = card (leafs (phys (wr q j v s)) (lev g) (own g) x) + held g x"
    if "x < npages s" for x using vm_invD(9) [OF inv that] lf by (simp add: wr_def)
  show "alloc_inv (wr q j v s) xs"
    using vm_invD(1) [OF inv] by (simp add: alloc_inv_def free_pages_def)
  show "tgt v \<noteq> 0 \<and> tgt v < npages s" using vm_invD(7,8) [OF inv l(1,2) e(1)] e by simp
qed (simp_all add: wr_def)

lemma leaf_map:
  assumes inv: "vm_inv s xs g" and l: "lev g q = 1" "own g q j" "j < 512"
    and e: "phys s q j = 0" "v \<noteq> 0"
    and pp: "tgt v \<noteq> 0" "tgt v < npages s" "tgt v \<notin> set xs" "pp_ref (pages s (tgt v)) \<noteq> - 1"
  shows "vm_inv (upd_page (tgt v) (\<lambda>p. p\<lparr>pp_ref := pp_ref p + 1\<rparr>) (wr q j v s)) xs g" (is "vm_inv ?s' xs g")
proof (rule vm_inv_leafI [OF inv l(1)])
  have nl: "(q, j) \<notin> leafs (phys s) (lev g) (own g) x" for x using e by (simp add: leafs_def)
  have c: "card (leafs ((phys s)(q := (phys s q)(j := v))) (lev g) (own g) x) =
      (if x = tgt v then 1 else 0) + card (leafs (phys s) (lev g) (own g) x)" for x
    unfolding leafs_store [of "lev g" q "own g" j, OF l] using nl finite_leafs [OF inv] e by auto
  have r: "unat (pp_ref (pages s (tgt v)) + 1) = Suc (unat (pp_ref (pages s (tgt v))))"
    using pp(4) by (metis add.commute eq_neg_iff_add_eq_0 unatSuc)
  show "unat (pp_ref (pages ?s' x)) = card (leafs (phys ?s') (lev g) (own g) x) + held g x"
    if "x < npages s" for x using vm_invD(9) [OF inv that] c r by (auto simp: wr_def)
  show "alloc_inv ?s' xs"
    using vm_invD(1) [OF inv] pp by (auto simp: alloc_inv_def free_pages_def)
  show "tgt v \<noteq> 0 \<and> tgt v < npages s" using pp by simp
qed (simp_all add: wr_def)

definition unmap_state :: "nat \<Rightarrow> nat \<Rightarrow> kstate \<Rightarrow> kstate" where
  "unmap_state q j s =
     (let pp = tgt (phys s q j);
          s' = upd_page pp (\<lambda>p. p\<lparr>pp_ref := pp_ref p - 1\<rparr>) s
      in wr q j 0 (if pp_ref (pages s pp) = 1 then free_state pp s' else s'))"

lemma leaf_unmap:
  assumes inv: "vm_inv s xs g" and l: "lev g q = 1" "own g q j" "j < 512" and e: "phys s q j \<noteq> 0"
  defines "pp \<equiv> tgt (phys s q j)"
  shows "vm_inv (unmap_state q j s) (if pp_ref (pages s pp) = 1 then pp # xs else xs) g"
proof (rule vm_inv_leafI [OF inv l(1), of _ j 0])
  have il: "(q, j) \<in> leafs (phys s) (lev g) (own g) x \<longleftrightarrow> x = pp" for x
    using e l by (auto simp: leafs_def pp_def)
  have c: "card (leafs ((phys s)(q := (phys s q)(j := 0))) (lev g) (own g) x) =
      card (leafs (phys s) (lev g) (own g) x) - (if x = pp then 1 else 0)" for x
    unfolding leafs_store [of "lev g" q "own g" j, OF l] using il finite_leafs [OF inv, of x] by simp
  have pp: "pp \<noteq> 0" "pp < npages s" "pp \<notin> set xs"
    using vm_invD(7,8) [OF inv l(1,2) e] leaf_not_free [OF inv, of "(q, j)"] il pp_def by auto
  have pos: "0 < card (leafs (phys s) (lev g) (own g) pp)"
    using il finite_leafs [OF inv] by (auto simp: card_gt_0_iff)
  then have "pp_ref (pages s pp) \<noteq> 0" using vm_invD(9) [OF inv pp(2)] by auto
  then have r: "unat (pp_ref (pages s pp) - 1) = unat (pp_ref (pages s pp)) - 1" by (rule unat_minus_one)
  show "unat (pp_ref (pages (unmap_state q j s) x)) =
      card (leafs (phys (unmap_state q j s)) (lev g) (own g) x) + held g x" if "x < npages s" for x
    using vm_invD(9) [OF inv that] c r pos
    by (cases "x = pp") (auto simp: unmap_state_def wr_def Let_def pp_def [symmetric])
  have "alloc_inv (upd_page pp (\<lambda>p. p\<lparr>pp_ref := pp_ref p - 1\<rparr>) s) xs"
    by (rule dec_ref_inv [OF vm_invD(1) [OF inv] pp(3)])
  with pp show "alloc_inv (unmap_state q j s) (if pp_ref (pages s pp) = 1 then pp # xs else xs)"
    using free_state_inv [of "upd_page pp (\<lambda>p. p\<lparr>pp_ref := pp_ref p - 1\<rparr>) s" xs pp]
    by (auto simp: unmap_state_def Let_def pp_def [symmetric] alloc_inv_def free_pages_def)
qed (simp_all add: unmap_state_def wr_def Let_def)

section \<open>page_lookup and page_remove\<close>

lemma pte_slot: "pte_at s root va \<noteq> 0 \<Longrightarrow> \<exists>q j. slot (phys s) root (path va) = Some (q, j) \<and> phys s q j = pte_at s root va"
  by (auto simp: pte_at_def entry_def split: option.splits)

lemma page_lookup_mapped:
  assumes inv: "vm_inv s xs g" and ok: "addr_ok s g root va" and sl: "slot (phys s) root (path va) = Some (q, j)"
    and e: "phys s q j \<noteq> 0"
  shows "page_lookup root va s = Some (Some (tgt (phys s q j), q, j))"
proof -
  note l = slot_leaf [OF inv ok sl]
  have "tgt (phys s q j) < npages s" using vm_invD(8) [OF inv l(1,2) e] .
  then show ?thesis
    using walk_found [OF inv ok sl, of False] l(3)
    by (simp add: page_lookup_def pa2page_def tgt_def)
qed

lemma page_lookup_no_table:
  "vm_inv s xs g \<Longrightarrow> addr_ok s g root va \<Longrightarrow> slot (phys s) root (path va) = None \<Longrightarrow>
   page_lookup root va s = Some None"
  by (simp add: page_lookup_def walk_absent)

lemma page_lookup_empty_pte:
  assumes "vm_inv s xs g" and "addr_ok s g root va" and "slot (phys s) root (path va) = Some (q, j)"
    and "phys s q j = 0" and "0 < npages s"
  shows "page_lookup root va s = Some (Some (0, q, j))"
  using walk_found [OF assms(1-3), of False] slot_leaf(3) [OF assms(1-3)] assms(4,5)
  by (simp add: page_lookup_def pa2page_def PPN_def)

lemma tlb_invalidate_simps [simp]:
  "phys (tlb_invalidate root va s) = phys s" "pages (tlb_invalidate root va s) = pages s"
  "npages (tlb_invalidate root va s) = npages s"
  "page_free_list (tlb_invalidate root va s) = page_free_list s"
  by (auto simp: tlb_invalidate_def split: option.splits)

lemma tlb_invalidate_mm [simp]: "mm_only s s' \<Longrightarrow> mm_only s (tlb_invalidate root va s')"
  by (auto simp: tlb_invalidate_def split: option.splits)

lemma tlb_invalidate_inv [simp]:
  "vm_inv (tlb_invalidate root va s) xs g = vm_inv s xs g"
  "addr_ok (tlb_invalidate root va s) g r' va' = addr_ok s g r' va'"
  "pte_at (tlb_invalidate root va s) r' va' = pte_at s r' va'"
  by (simp_all add: vm_inv_def alloc_inv_def free_pages_def addr_ok_def pte_at_def)

lemma page_remove_mapped:
  assumes inv: "vm_inv s xs g" and ok: "addr_ok s g root va" and sl: "slot (phys s) root (path va) = Some (q, j)"
    and e: "phys s q j \<noteq> 0"
  shows "page_remove root va s = Some (tlb_invalidate root va (unmap_state q j s))"
proof -
  have "tgt (phys s q j) \<notin> set xs"
    using leaf_not_free [OF inv, of "(q, j)"] slot_leaf [OF inv ok sl] e PTX_less by (auto simp: leafs_def)
  from page_decref_eq [OF vm_invD(1) [OF inv] this] show ?thesis
    by (simp add: page_remove_def page_lookup_mapped [OF assms] unmap_state_def Let_def)
qed

lemma unmap_state_mm [simp]: "mm_only s s' \<Longrightarrow> mm_only s (unmap_state q j s')"
  by (simp add: unmap_state_def Let_def)

lemma unmap_state_pte:
  assumes "vm_inv s xs g" and "addr_ok s g root va" and "slot (phys s) root (path va) = Some (q, j)"
    and "addr_ok s g root' va'"
  shows "addr_ok (unmap_state q j s) g root' va'"
    and "pte_at (unmap_state q j s) root' va' =
      (if root' = root \<and> path va' = path va then 0 else pte_at s root' va')"
  using pte_at_store [OF assms, of 0]
  by (auto simp: unmap_state_def Let_def addr_ok_def pte_at_def wr_def)

lemma unmap_state_pages: "p \<noteq> tgt (phys s q j) \<Longrightarrow> pages (unmap_state q j s) p = pages s p"
  by (simp add: unmap_state_def Let_def)

lemma unmap_state_phys: "phys (unmap_state q j s) = (phys s)(q := (phys s q)(j := 0))"
  by (simp add: unmap_state_def Let_def)

lemma keeps_data_leaf:
  "lev g q = 1 \<Longrightarrow> own g q j \<Longrightarrow> phys s' = (phys s)(q := (phys s q)(j := v)) \<Longrightarrow> keeps_data ys g s s'"
  by (auto simp: keeps_data_def)

text \<open>The page of the old mapping joins the free list exactly when it was mapped once.\<close>

definition after_unmap :: "kstate \<Rightarrow> nat \<Rightarrow> nat list \<Rightarrow> nat list" where
  "after_unmap s pp xs = (if pp_ref (pages s pp) = 1 then pp # xs else xs)"

lemma page_remove_spec:
  assumes inv: "vm_inv s xs g" and ok: "addr_ok s g root va" and e: "pte_at s root va \<noteq> 0"
  defines "pp \<equiv> tgt (pte_at s root va)"
  shows "\<exists>s'. page_remove root va s = Some s' \<and> mm_only s s' \<and> vm_inv s' (after_unmap s pp xs) g \<and>
    pp_ref (pages s' pp) = pp_ref (pages s pp) - 1 \<and> (\<forall>p. p \<noteq> pp \<longrightarrow> pages s' p = pages s p) \<and>
    keeps_data ys g s s' \<and>
    (\<forall>r a. addr_ok s g r a \<longrightarrow> addr_ok s' g r a \<and>
       pte_at s' r a = (if r = root \<and> path a = path va then 0 else pte_at s r a))"
proof -
  obtain q j where sl: "slot (phys s) root (path va) = Some (q, j)" and pe: "phys s q j = pte_at s root va"
    using pte_slot [OF e] by blast
  note l = slot_leaf [OF inv ok sl]
  have nz: "phys s q j \<noteq> 0" using e pe by simp
  have "page_remove root va s = Some (tlb_invalidate root va (unmap_state q j s))"
    by (rule page_remove_mapped [OF inv ok sl nz])
  moreover have "vm_inv (unmap_state q j s) (after_unmap s pp xs) g"
    unfolding pp_def pe [symmetric] after_unmap_def
    by (rule leaf_unmap [OF inv l(1,2) _ nz]) (simp add: l(3) PTX_less)
  moreover have "keeps_data ys g s (tlb_invalidate root va (unmap_state q j s))"
    by (rule keeps_data_leaf [OF l(1,2)]) (simp add: unmap_state_phys)
  ultimately show ?thesis
    using unmap_state_pte [OF inv ok sl] unmap_state_pages [of _ s q j]
    by (auto simp: pp_def pe [symmetric] unmap_state_def Let_def)
qed

section \<open>page_insert\<close>

definition leaf_pte :: "nat \<Rightarrow> u32 \<Rightarrow> u64" where
  "leaf_pte pp perm = page2pa pp OR scast perm OR PTE_P"

lemma leaf_pte_ne0 [simp]: "leaf_pte pp perm \<noteq> 0"
proof
  assume "leaf_pte pp perm = 0"
  then have "bit (leaf_pte pp perm) 0 = bit (0 :: u64) 0" by simp
  then show False by (simp add: leaf_pte_def jos_consts bit_simps)
qed

lemma tgt_or: "tgt (a OR b) = unat (PPN a OR PPN b)"
  by (simp add: tgt_def PPN_def drop_bit_or)

lemma scast_perm_small:
  assumes "perm < (4096 :: u32)"
  shows "PPN (scast perm :: u64) = 0"
proof -
  have "unat perm < 4096" using assms by (simp add: word_less_nat_alt)
  then have "\<not> bit perm n" if "12 \<le> n" for n
  proof -
    have "drop_bit 12 perm = 0"
      using assms by (simp add: drop_bit_eq_div word_less_nat_alt word_unat_eq_iff unat_div_distrib)
    then have "\<not> bit (drop_bit 12 perm) (n - 12)" by simp
    then show ?thesis using that by (simp add: bit_drop_bit_eq)
  qed
  then show ?thesis
    unfolding PPN_def by (intro bit_word_eqI) (auto simp: bit_simps)
qed

lemma PPN_or: "PPN (a OR b) = PPN a OR PPN b"
  by (simp add: PPN_def drop_bit_or)

lemma PPN_PTE_P [simp]: "PPN PTE_P = 0"
  by (simp add: PPN_def jos_consts)

lemma tgt_leaf_pte [simp]: "pp < 2 ^ 52 \<Longrightarrow> perm < 4096 \<Longrightarrow> tgt (leaf_pte pp perm) = pp"
  by (simp add: leaf_pte_def tgt_def PPN_or scast_perm_small)

lemma wr_wr [simp]: "wr q j a (wr q j b s) = wr q j a s"
  by (simp add: wr_def)

lemma wr_upd_wr [simp]: "wr q j a (upd_page p f (wr q j b s)) = upd_page p f (wr q j a s)"
  by (simp add: wr_def upd_page_def)

text \<open>The part of \<open>page_insert\<close> after a successful walk.\<close>

definition insert_at :: "nat \<Rightarrow> nat \<Rightarrow> nat \<Rightarrow> u64 \<Rightarrow> nat \<Rightarrow> u32 \<Rightarrow> kstate \<Rightarrow> kstate option" where
  "insert_at q j root va pp perm s =
     (if PTE_ADDR (phys s q j) \<noteq> page2pa pp then do {
        s \<leftarrow> (if phys s q j \<noteq> 0 then page_remove root va s else Some s);
        Some (upd_page pp (\<lambda>p. p\<lparr>pp_ref := pp_ref p + 1\<rparr>) (wr q j (leaf_pte pp perm) s))
      } else Some (wr q j (leaf_pte pp perm) s))"

lemma page_insert_walk:
  "page_insert root pp va perm s = do {
     (pte, s) \<leftarrow> pml4e_walk root va True s;
     (case pte of None \<Rightarrow> Some (- E_NO_MEM, s)
      | Some (q, j) \<Rightarrow> do { s \<leftarrow> insert_at q j root va pp perm s; Some (0, s) })
   }"
proof -
  have "e AND - 4096 = page2pa pp" if "PTE_ADDR e = page2pa pp" for e
    using that by (simp add: PTE_ADDR_def)
  then show ?thesis
    unfolding page_insert_def insert_at_def
    by (auto simp: leaf_pte_def split: Option.bind_splits option.splits)
qed

text \<open>Everything \<open>page_insert\<close> promises about the tables of all address spaces.\<close>

definition mapped ::
  "kstate \<Rightarrow> vm_ghost \<Rightarrow> kstate \<Rightarrow> vm_ghost \<Rightarrow> nat \<Rightarrow> u64 \<Rightarrow> u64 \<Rightarrow> bool" where
  "mapped s g s' g' root va v \<longleftrightarrow>
     (\<forall>r a. addr_ok s g r a \<longrightarrow> addr_ok s' g' r a \<and>
        pte_at s' r a = (if r = root \<and> path a = path va then v else pte_at s r a))"

lemma insert_new:
  assumes inv: "vm_inv s xs g" and ok: "addr_ok s g root va" and sl: "slot (phys s) root (path va) = Some (q, j)"
    and e: "phys s q j = 0"
    and pp: "pp \<noteq> 0" "pp < npages s" "pp \<notin> set xs" "pp_ref (pages s pp) \<noteq> - 1" and perm: "perm < 4096"
  defines "s' \<equiv> upd_page pp (\<lambda>p. p\<lparr>pp_ref := pp_ref p + 1\<rparr>) (wr q j (leaf_pte pp perm) s)"
  shows "vm_inv s' xs g" and "mapped s g s' g root va (leaf_pte pp perm)"
proof -
  note l = slot_leaf(1,2) [OF inv ok sl]
  have j: "j < 512" using slot_leaf(3) [OF inv ok sl] PTX_less by simp
  have p52: "pp < 2 ^ 52" using pp(2) vm_invD(3) [OF inv] by simp
  show "vm_inv s' xs g"
    using leaf_map [OF inv l j e, of "leaf_pte pp perm"] pp p52 perm by (simp add: s'_def)
  show "mapped s g s' g root va (leaf_pte pp perm)"
    using pte_at_store [OF inv ok sl] by (auto simp: s'_def mapped_def addr_ok_def pte_at_def)
qed

lemma unmap_state_slot:
  assumes "vm_inv s xs g" and "addr_ok s g root va" and "slot (phys s) root (path va) = Some (q, j)"
  shows "slot (phys (unmap_state q j s)) root (path va) = Some (q, j)" "phys (unmap_state q j s) q j = 0"
  using leaf_store [OF vm_invD(2) [OF assms(1)] slot_leaf(1) [OF assms], of root "path va" j 0] assms(2,3)
  by (auto simp: unmap_state_def wr_def Let_def addr_ok_def)

lemma leaf_ref_pos:
  assumes inv: "vm_inv s xs g" and l: "lev g q = 1" "own g q j" and j: "j < 512" and nz: "phys s q j \<noteq> 0"
  shows "pp_ref (pages s (tgt (phys s q j))) \<noteq> 0"
proof -
  let ?t = "tgt (phys s q j)"
  have "(q, j) \<in> leafs (phys s) (lev g) (own g) ?t" using l j nz by (simp add: leafs_def)
  then have "0 < card (leafs (phys s) (lev g) (own g) ?t)" using finite_leafs [OF inv] by (auto simp: card_gt_0_iff)
  then show ?thesis using vm_invD(9) [OF inv vm_invD(8) [OF inv l nz]] by auto
qed

lemma insert_at_spec:
  assumes inv: "vm_inv s xs g" and ok: "addr_ok s g root va" and sl: "slot (phys s) root (path va) = Some (q, j)"
    and pp: "pp \<noteq> 0" "pp < npages s" "pp \<notin> set xs" "pp_ref (pages s pp) \<noteq> - 1" and perm: "perm < 4096"
  shows "\<exists>s'. insert_at q j root va pp perm s = Some s' \<and> mm_only s s' \<and>
    vm_inv s' (if phys s q j = 0 \<or> tgt (phys s q j) = pp then xs else after_unmap s (tgt (phys s q j)) xs) g \<and>
    keeps_data ys g s s' \<and> mapped s g s' g root va (leaf_pte pp perm) \<and>
    (\<forall>p. unat (pp_ref (pages s' p)) \<le> unat (pp_ref (pages s p)) + 1)"
proof -
  note l = slot_leaf(1,2) [OF inv ok sl]
  note inc = unat_inc_le
  have dec: "unat (pp_ref (pages s (tgt (phys s q j))) - 1) \<le> unat (pp_ref (pages s (tgt (phys s q j))))" if "phys s q j \<noteq> 0"
  proof -
    have "pp_ref (pages s (tgt (phys s q j))) \<noteq> 0"
      using leaf_ref_pos [OF inv l] slot_leaf(3) [OF inv ok sl] PTX_less that by auto
    then show ?thesis by (simp add: unat_minus_one)
  qed
  have j: "j < 512" using slot_leaf(3) [OF inv ok sl] PTX_less by simp
  have p52: "pp < 2 ^ 52" using pp(2) vm_invD(3) [OF inv] by simp
  note kd = keeps_data_leaf [OF l]
  let ?v = "leaf_pte pp perm"
  have eq: "PTE_ADDR (phys s q j) = page2pa pp \<longleftrightarrow> tgt (phys s q j) = pp"
    using PTE_ADDR_eq_iff [OF p52] by (simp add: tgt_def)
  have t0: "tgt 0 \<noteq> pp" using pp(1) by (simp add: tgt_def PPN_def)
  consider (same) "phys s q j \<noteq> 0" "tgt (phys s q j) = pp" | (new) "phys s q j = 0"
    | (other) "phys s q j \<noteq> 0" "tgt (phys s q j) \<noteq> pp"
    by blast
  then show ?thesis
  proof cases
    case same
    then have "vm_inv (wr q j ?v s) xs g"
      using leaf_retag [OF inv l j, of ?v] p52 perm by simp
    then show ?thesis
      using same eq pte_at_store [OF inv ok sl] by (auto simp: insert_at_def mapped_def intro: kd)
  next
    case new
    show ?thesis using insert_new [OF inv ok sl new pp perm] new eq t0 inc [of "pp_ref (pages s pp)"]
      by (auto simp: insert_at_def intro: kd)
  next
    case other
    let ?u = "tlb_invalidate root va (unmap_state q j s)"
    let ?xs = "after_unmap s (tgt (phys s q j)) xs"
    have u: "vm_inv ?u ?xs g" using leaf_unmap [OF inv l j other(1)] by (simp add: after_unmap_def)
    have uok: "addr_ok ?u g root va" using unmap_state_pte(1) [OF inv ok sl ok] by simp
    note us = unmap_state_slot [OF inv ok sl]
    have "npages ?u = npages s" by (rule mm_only_fields(1)) simp
    then have n: "vm_inv (upd_page pp (\<lambda>p. p\<lparr>pp_ref := pp_ref p + 1\<rparr>) (wr q j ?v ?u)) ?xs g"
      "mapped ?u g (upd_page pp (\<lambda>p. p\<lparr>pp_ref := pp_ref p + 1\<rparr>) (wr q j ?v ?u)) g root va ?v"
      using insert_new [OF u uok _ _ pp(1) _ _ _ perm] us pp other unmap_state_pages [of pp s q j]
      by (simp_all add: after_unmap_def)
    from n(2) have "mapped s g (upd_page pp (\<lambda>p. p\<lparr>pp_ref := pp_ref p + 1\<rparr>) (wr q j ?v ?u)) g root va ?v"
      using unmap_state_pte [OF inv ok sl] by (auto simp: mapped_def)
    moreover have "unat (pp_ref (pages (upd_page pp (\<lambda>p. p\<lparr>pp_ref := pp_ref p + 1\<rparr>) (wr q j ?v ?u)) p)) \<le> unat (pp_ref (pages s p)) + 1" for p
      using other inc [of "pp_ref (pages s pp)"] dec by (auto simp: unmap_state_def Let_def free_state_def)
    ultimately show ?thesis using n(1) other eq page_remove_mapped [OF inv ok sl other(1)]
      by (simp add: insert_at_def kd [of _ s ?v] unmap_state_phys)
  qed
qed

text \<open>
  \<open>page_insert\<close> either maps the page and touches no other mapping of any address space, or
  returns \<open>-E_NO_MEM\<close> with the tables, the free list and the reference counts as they were.
\<close>

lemma page_insert_spec:
  assumes inv: "vm_inv s xs g" and ok: "addr_ok s g root va"
    and pp: "pp \<noteq> 0" "pp < npages s" "pp \<notin> set xs" "pp_ref (pages s pp) \<noteq> - 1" and perm: "perm < 4096"
  shows "(\<exists>s'. page_insert root pp va perm s = Some (- E_NO_MEM, s') \<and> length xs < 3 \<and> rolled_back xs s s') \<or>
    (\<exists>s' xs' g'. page_insert root pp va perm s = Some (0, s') \<and> mm_only s s' \<and> vm_inv s' xs' g' \<and>
       same_ghost xs g g' \<and> keeps_data xs g s s' \<and> pp \<notin> set xs' \<and> spends 3 2 xs s xs' s' \<and>
       mapped s g s' g' root va (leaf_pte pp perm))"
proof -
  from walk_create [OF inv ok] consider
    (fail) s' where "pml4e_walk root va True s = Some (None, s')" "length xs < 3" "rolled_back xs s s'"
  | (ok) q s' where "pml4e_walk root va True s = Some (Some (q, PTX va), s')" "created xs g s root (path va) q s'"
    by blast
  then show ?thesis
  proof cases
    case fail
    then show ?thesis by (simp add: page_insert_walk)
  next
    case (ok q s1)
    then obtain ys zs g' where c: "xs = ys @ zs" "vm_inv s1 zs g'" "keeps_paths s g s1 g'"
        "\<forall>p. p \<notin> set ys \<longrightarrow> pages s1 p = pages s p"
        "slot (phys s1) root (path va) = Some (q, PTX va)" "mm_only s s1" "same_ghost ys g g'" "keeps_data xs g s s1"
        "spends 3 1 xs s zs s1"
      by (auto simp: created_def)
    have k: "addr_ok s1 g' r a \<and> pte_at s1 r a = pte_at s r a" if "addr_ok s g r a" for r a
      using keeps_pathsD(1) [OF c(3), of r] keeps_pathsD(4,5) [OF c(3), of "path a" r] that
      by (simp add: addr_ok_def pte_at_def)
    have pp1: "pp < npages s1" "pp \<notin> set zs" "pp_ref (pages s1 pp) \<noteq> - 1"
      using pp c(1,4) mm_only_fields(1) [OF c(6)] by auto
    obtain s' where s': "insert_at q (PTX va) root va pp perm s1 = Some s'" "mm_only s1 s'"
      "vm_inv s' (if phys s1 q (PTX va) = 0 \<or> tgt (phys s1 q (PTX va)) = pp then zs
          else after_unmap s1 (tgt (phys s1 q (PTX va))) zs) g'"
      "keeps_data zs g' s1 s'" "mapped s1 g' s' g' root va (leaf_pte pp perm)"
      "\<forall>p. unat (pp_ref (pages s' p)) \<le> unat (pp_ref (pages s1 p)) + 1"
      using insert_at_spec [OF c(2) k [THEN conjunct1, OF assms(2)] c(5) pp(1) pp1 perm] by blast
    have "mapped s g s' g' root va (leaf_pte pp perm)" using s'(5) k by (auto simp: mapped_def)
    moreover have "page_insert root pp va perm s = Some (0, s')"
      using ok(1) s'(1) by (simp add: page_insert_walk)
    moreover have sg: "same_ghost xs g g'" using c(1,7) by (simp add: same_ghost_def)
    moreover have "keeps_data xs g s s'" using c(1) by (intro keeps_data_trans [OF c(8) s'(4) sg]) simp
    moreover have "pp \<notin> set (if phys s1 q (PTX va) = 0 \<or> tgt (phys s1 q (PTX va)) = pp then zs
          else after_unmap s1 (tgt (phys s1 q (PTX va))) zs)"
      using pp1 by (simp add: after_unmap_def)
    moreover have "spends 3 2 xs s (if phys s1 q (PTX va) = 0 \<or> tgt (phys s1 q (PTX va)) = pp then zs
          else after_unmap s1 (tgt (phys s1 q (PTX va))) zs) s'"
      using spends_trans [OF c(9), of 0 1] s'(6) by (auto simp: spends_def after_unmap_def)
    ultimately show ?thesis using s'(3) mm_only_trans [OF c(6) s'(2)] by blast
  qed
qed

end
