(* ===== verification/User_Mem.thy ===== *)
theory User_Mem
  imports Mapping_Spec
begin

text \<open>
  \<open>user_mem_check\<close> of kern/pmap.c: on a range that does not wrap around, it accepts exactly
  the ranges all of whose pages are mapped with the requested permissions, and it returns.
\<close>

definition has_perm :: "kstate \<Rightarrow> nat \<Rightarrow> u64 \<Rightarrow> u64 \<Rightarrow> bool" where
  "has_perm s root perm a \<longleftrightarrow> pte_at s root a AND (perm OR PTE_P) = perm OR PTE_P"

lemma perm_P_ne0: "perm OR PTE_P \<noteq> 0"
proof
  assume "perm OR PTE_P = 0"
  then have "bit (perm OR PTE_P) 0 = bit (0 :: u64) 0" by simp
  then show False by (simp add: jos_consts bit_simps)
qed

text \<open>Addresses on the same page have the same path.\<close>

lemma path_page: "unat a div 4096 = unat b div 4096 \<Longrightarrow> path a = path b"
proof -
  assume "unat a div 4096 = unat b div 4096"
  then have p: "drop_bit 12 a = drop_bit 12 b"
    by (simp add: word_unat_eq_iff drop_bit_eq_div unat_div_distrib)
  have "drop_bit 21 x = drop_bit 9 (drop_bit 12 x)" "drop_bit 30 x = drop_bit 18 (drop_bit 12 x)"
    "drop_bit 39 x = drop_bit 27 (drop_bit 12 x)" for x :: u64 by simp_all
  with p show ?thesis by (simp add: path_def PML4_def PDPE_def PDX_def PTX_def del: drop_bit_drop_bit)
qed

lemma has_perm_page: "unat a div 4096 = unat b div 4096 \<Longrightarrow> has_perm s root perm a = has_perm s root perm b"
  using path_page [of a b] by (simp add: has_perm_def pte_at_def)

definition fault_addr :: "u64 \<Rightarrow> u64 \<Rightarrow> u64" where
  "fault_addr va a = (if a = va then va else ROUNDDOWN a PGSIZE)"

text \<open>One iteration at an address of the address space.\<close>

lemma user_mem_step:
  assumes inv: "vm_inv s xs g" and ok: "addr_ok s g root a" and lt: "a < end_va"
  shows "user_mem_loop root va end_va perm a s =
    (if has_perm s root perm a then user_mem_loop root va end_va perm (a + PGSIZE) s
     else if slot (phys s) root (path a) = None then
       do { null_read s; Some (- E_FAULT, s\<lparr>user_mem_check_addr := fault_addr va a\<rparr>) }
     else Some (- E_FAULT, s\<lparr>user_mem_check_addr := fault_addr va a\<rparr>))"
proof (cases "slot (phys s) root (path a)")
  case None
  then have "\<not> has_perm s root perm a"
    using perm_P_ne0 by (auto simp: has_perm_def pte_at_def entry_def)
  with None show ?thesis
    using lt walk_absent [OF inv ok None]
    by (subst user_mem_loop.simps) (simp add: fault_addr_def)
next
  case (Some x)
  obtain q j where x: "x = (q, j)" by (cases x)
  then have "pte_at s root a = phys s q j" using Some by (simp add: pte_at_def entry_def)
  with Some x show ?thesis
    using lt walk_found [OF inv ok, of q j False] slot_leaf(3) [OF inv ok, of q j]
    by (subst user_mem_loop.simps) (auto simp: fault_addr_def has_perm_def)
qed

text \<open>The loop over a range whose end does not wrap around.\<close>

lemma user_mem_loop_ok:
  assumes inv: "vm_inv s xs g" and ok: "\<And>a. lo \<le> a \<Longrightarrow> a < end_va \<Longrightarrow> addr_ok s g root a"
    and fit: "unat end_va + 4096 < 2 ^ 64"
  shows "lo \<le> a \<Longrightarrow> (\<And>k. unat a + k * 4096 < unat end_va \<Longrightarrow> has_perm s root perm (a + of_nat k * 4096)) \<Longrightarrow>
    user_mem_loop root va end_va perm a s = Some (0, s)"
proof (induction "unat end_va - unat a" arbitrary: a rule: less_induct)
  case less
  show ?case
  proof (cases "a < end_va")
    case True
    then have lt: "unat a < unat end_va" by (simp add: word_less_nat_alt)
    then have u: "unat (a + PGSIZE) = unat a + 4096"
      using fit by (simp add: jos_consts unat_word_ariths)
    have "has_perm s root perm (a + PGSIZE + of_nat k * 4096)" if "unat (a + PGSIZE) + k * 4096 < unat end_va" for k
      using less.prems(2) [of "Suc k"] that u by (simp add: algebra_simps jos_consts)
    then have "user_mem_loop root va end_va perm (a + PGSIZE) s = Some (0, s)"
      using u lt less.prems(1) by (intro less.hyps) (auto simp: word_le_nat_alt)
    moreover have "has_perm s root perm a" using less.prems(2) [of 0] lt by simp
    ultimately show ?thesis using user_mem_step [OF inv ok [OF less.prems(1) True] True] by simp
  next
    case False
    then show ?thesis by (simp add: user_mem_loop.simps)
  qed
qed

lemma user_mem_loop_sound:
  assumes inv: "vm_inv s xs g" and ok: "\<And>a. lo \<le> a \<Longrightarrow> a < end_va \<Longrightarrow> addr_ok s g root a"
    and fit: "unat end_va + 4096 < 2 ^ 64"
  shows "lo \<le> a \<Longrightarrow> user_mem_loop root va end_va perm a s = Some (0, s') \<Longrightarrow> unat a + k * 4096 < unat end_va \<Longrightarrow>
    has_perm s root perm (a + of_nat k * 4096)"
proof (induction "unat end_va - unat a" arbitrary: a k rule: less_induct)
  case less
  then have lt: "unat a < unat end_va" by simp
  then have True: "a < end_va" by (simp add: word_less_nat_alt)
  have u: "unat (a + PGSIZE) = unat a + 4096"
    using fit lt by (simp add: jos_consts unat_word_ariths)
  have h: "has_perm s root perm a" and nxt: "user_mem_loop root va end_va perm (a + PGSIZE) s = Some (0, s')"
    using less.prems(2) user_mem_step [OF inv ok [OF less.prems(1) True] True]
    by (auto simp: E_FAULT_def split: if_splits Option.bind_splits)
  have lo: "lo \<le> a + PGSIZE" using less.prems(1) u by (simp add: word_le_nat_alt)
  show ?case
  proof (cases k)
    case 0
    then show ?thesis using h by simp
  next
    case (Suc n)
    then show ?thesis
      using less.hyps [OF _ lo nxt, of n] less.prems(3) u lt by (simp add: algebra_simps jos_consts)
  qed
qed

text \<open>The pages the loop visits are the pages the range meets.\<close>

lemma visited_pages:
  fixes va a :: u64
  assumes "unat va \<le> unat a" and "unat a < unat va + n" and "unat va + n < 0x8000000000000000"
  shows "\<exists>k. unat va + k * 4096 < (unat va + n + 4095) div 4096 * 4096 \<and>
    unat a div 4096 = unat (va + of_nat k * 4096) div 4096"
proof -
  define k where "k = unat a div 4096 - unat va div 4096"
  have d: "unat va div 4096 + k = unat a div 4096" using div_le_mono [OF assms(1), of 4096] by (simp add: k_def)
  have r: "unat va = unat va div 4096 * 4096 + unat va mod 4096" "unat va mod 4096 < 4096" by simp_all
  then have e: "unat va + k * 4096 = unat a div 4096 * 4096 + unat va mod 4096" using d by linarith
  have "unat a div 4096 < (unat va + n + 4095) div 4096" using assms(2) by simp
  then have "Suc (unat a div 4096) * 4096 \<le> (unat va + n + 4095) div 4096 * 4096"
    by (intro mult_le_mono1) simp
  then have "unat a div 4096 * 4096 + 4096 \<le> (unat va + n + 4095) div 4096 * 4096" by simp
  with e r(2) have lt: "unat va + k * 4096 < (unat va + n + 4095) div 4096 * 4096" by linarith
  moreover have "(unat va + n + 4095) div 4096 * 4096 \<le> unat va + n + 4095" by simp
  ultimately have "unat va + k * 4096 < 0x10000000000000000" using assms(3) by linarith
  then have "unat (va + of_nat k * 4096) = unat va + k * 4096"
    by (simp add: unat_word_ariths unat_of_nat)
  then have "unat a div 4096 = unat (va + of_nat k * 4096) div 4096" using e r(2) by simp
  with lt show ?thesis by blast
qed

lemma visited_in_range:
  fixes va :: u64
  assumes "unat va + k * 4096 < (unat va + n + 4095) div 4096 * 4096" and "n \<noteq> 0"
    and "unat va + n < 0x8000000000000000"
  shows "\<exists>a :: u64. unat va \<le> unat a \<and> unat a < unat va + n \<and> unat a div 4096 = unat (va + of_nat k * 4096) div 4096"
proof -
  define b where "b = (unat va + k * 4096) div 4096"
  have "b < (unat va + n + 4095) div 4096" unfolding b_def by (rule less_mult_imp_div_less [OF assms(1)])
  then have b1: "b * 4096 < unat va + n" by simp
  have "unat va + k * 4096 < 0x8000000000001000"
    using assms(1,3) div_times_less_eq_dividend [of "unat va + n + 4095" 4096] by linarith
  then have u: "unat (va + of_nat k * 4096) div 4096 = b"
    by (simp add: unat_word_ariths unat_of_nat b_def)
  let ?m = "max (unat va) (b * 4096)"
  have m: "?m < unat va + n" using b1 assms(2) by simp
  then have "unat (of_nat ?m :: u64) = ?m" using assms(3) by (simp add: unat_of_nat)
  moreover have "?m div 4096 = b"
  proof (rule div_nat_eqI)
    show "4096 * b \<le> ?m" by simp
    have "unat va \<le> unat va + k * 4096" by simp
    also have "\<dots> < 4096 * Suc b" unfolding b_def using dividend_less_times_div [of 4096 "unat va + k * 4096"] by simp
    finally show "?m < 4096 * Suc b" by simp
  qed
  ultimately show ?thesis using m u by (intro exI [of _ "of_nat ?m"]) simp
qed

text \<open>
  \<open>user_mem_check\<close> on a non-empty range that does not wrap around and lies below
  \<open>ULIM\<close>.
\<close>

lemma user_mem_check_iff:
  assumes inv: "vm_inv s xs g" and fit: "unat va + unat len < unat ULIM" "len \<noteq> 0"
    and ok: "\<And>a. va \<le> a \<Longrightarrow> a < ROUNDUP (va + len) PGSIZE \<Longrightarrow> addr_ok s g root a"
  shows "user_mem_check root va len perm s = Some (0, s') \<longleftrightarrow>
    s' = s \<and> (\<forall>a. unat va \<le> unat a \<and> unat a < unat va + unat len \<longrightarrow> has_perm s root perm a)"
proof -
  have U: "unat ULIM < 0x8000000000000000" by (simp add: jos_consts)
  then have n: "unat (va + len) = unat va + unat len" using fit by (simp add: unat_word_ariths)
  then have c: "user_mem_check root va len perm s = user_mem_loop root va (ROUNDUP (va + len) PGSIZE) perm va s"
    using fit by (simp add: user_mem_check_def Let_def word_le_nat_alt)
  have e: "unat (ROUNDUP (va + len) PGSIZE) = (unat va + unat len + 4095) div 4096 * 4096"
    using ROUNDUP_unat [of PGSIZE "va + len"] n fit U by (simp add: PGSIZE_def)
  have "(unat va + unat len + 4095) div 4096 * 4096 \<le> unat va + unat len + 4095" by simp
  then have "unat (ROUNDUP (va + len) PGSIZE) + 4096 < 0x10000000000000000" using e fit(1) U by linarith
  then have f64: "unat (ROUNDUP (va + len) PGSIZE) + 4096 < 2 ^ 64" by simp
  have "has_perm s root perm a"
    if r: "user_mem_loop root va (ROUNDUP (va + len) PGSIZE) perm va s = Some (0, s')"
      and a: "unat va \<le> unat a" "unat a < unat va + unat len" for a
  proof -
    obtain k where k: "unat va + k * 4096 < unat (ROUNDUP (va + len) PGSIZE)"
      "unat a div 4096 = unat (va + of_nat k * 4096) div 4096"
      using visited_pages [OF a] fit(1) U unfolding e by auto
    have "has_perm s root perm (va + of_nat k * 4096)"
      by (rule user_mem_loop_sound [OF inv ok f64 order_refl r k(1)])
    then show ?thesis using has_perm_page [OF k(2)] by simp
  qed
  moreover have "user_mem_loop root va (ROUNDUP (va + len) PGSIZE) perm va s = Some (0, s)"
    if a: "\<forall>a. unat va \<le> unat a \<and> unat a < unat va + unat len \<longrightarrow> has_perm s root perm a"
  proof (rule user_mem_loop_ok [where lo = va, OF inv ok f64])
    fix k
    assume "unat va + k * 4096 < unat (ROUNDUP (va + len) PGSIZE)"
    then have "unat va + k * 4096 < (unat va + unat len + 4095) div 4096 * 4096" unfolding e .
    with visited_in_range [OF this] fit U obtain b :: u64
      where b: "unat va \<le> unat b" "unat b < unat va + unat len" "unat b div 4096 = unat (va + of_nat k * 4096) div 4096"
      by (auto simp: unat_eq_zero)
    then have "has_perm s root perm b" using a by simp
    then show "has_perm s root perm (va + of_nat k * 4096)" using has_perm_page [OF b(3)] by simp
  qed simp_all
  ultimately show ?thesis unfolding c by (metis option.inject prod.inject)
qed

end
