(* ===== verification/Sample.thy ===== *)
theory Sample
  imports Mapping_Spec
begin

text \<open>
  A small concrete machine for the witnesses: 16 pages of memory, the running environment 0
  with one mapped page (page 5 at \<open>UTEXT\<close>, that is 0x800000), its child environment 1,
  blocked in \<open>sys_ipc_recv\<close> with an empty address space (root 12), the kernel's tables
  (pages 9 to 11) and five free pages.
\<close>

definition sample_phys :: memory where
  "sample_phys p i =
     (if p = 1 \<and> i = 0 then table_pte 2
      else if p = 2 \<and> i = 0 then table_pte 3
      else if p = 3 \<and> i = 4 then table_pte 4
      else if p = 4 \<and> i = 0 then leaf_pte 5 7
      else if p = 9 \<and> i = 0 then table_pte 10
      else if p = 10 \<and> i = 3 then table_pte 11
      else 0)"

definition sample_page :: "nat \<Rightarrow> page" where
  "sample_page p =
     \<lparr>pp_link = (if p = 6 then Some 7 else if p = 7 then Some 8 else if p = 8 then Some 13 else if p = 13 then Some 14 else None),
      pp_ref = (if 1 \<le> p \<and> p \<le> 5 \<or> 9 \<le> p \<and> p \<le> 12 then 1 else 0)\<rparr>"

definition sample_env :: env where
  "sample_env = zero_env\<lparr>env_id := 0x1000, env_status := ENV_RUNNING, env_runs := 1,
     env_pml4e := Some 1, env_cr3 := 0x1000\<rparr>"

definition sample_child :: env where
  "sample_child = zero_env\<lparr>env_id := 0x1001, env_parent_id := 0x1000, env_status := ENV_NOT_RUNNABLE,
     env_pml4e := Some 12, env_cr3 := 0xC000, env_ipc_recving := True, env_ipc_dstva := 0x900000\<rparr>"

definition sample :: kstate where
  "sample = \<lparr>npages = 16, pages = sample_page, page_free_list = Some 6, nextfree = KERNBASE + 0x9000,
     phys = sample_phys, boot_pml4e = 9, boot_cr3 = 0x9000, mmio_base = MMIOBASE,
     user_mem_check_addr = 0, cr3 = 0x1000, invlpgs = [],
     envs = (\<lambda>e. if e = 0 then sample_env else if e = 1 then sample_child
               else zero_env\<lparr>env_link := if e < 1023 then Some (Suc e) else None\<rparr>),
     env_free_list = Some 2, cpunum = 0, cpu_env = (\<lambda>c. if c = 0 then Some 0 else None),
     kernel_lock = \<lparr>locked = True, lk_cpu = Some 0\<rparr>, ticks = 0, cons = empty_console, nic = idle_card\<rparr>"

definition sample_ghost :: vm_ghost where
  "sample_ghost = \<lparr>lev = (\<lambda>p. if 1 \<le> p \<and> p \<le> 4 then 5 - p else if p = 12 then 4 else 0), own = (\<lambda>p i. True),
     held = (\<lambda>p. if 1 \<le> p \<and> p \<le> 4 \<or> 9 \<le> p \<and> p \<le> 12 then 1 else 0)\<rparr>"

lemma sample_simps [simp]:
  "npages sample = 16" "pages sample = sample_page" "page_free_list sample = Some 6"
  "phys sample = sample_phys" "curenv sample = Some 0"
  by (simp_all add: sample_def curenv_def)

lemma sample_alloc_inv: "alloc_inv sample [6, 7, 8, 13, 14]"
  by (simp add: alloc_inv_def free_pages_def sample_page_def)

lemma sample_leafs: "leafs sample_phys (lev sample_ghost) (own sample_ghost) q = (if q = 5 then {(4, 0)} else {})"
  by (auto simp: leafs_def sample_phys_def sample_ghost_def split: if_splits)

lemma sample_tree: "tree_inv sample_phys (lev sample_ghost) (own sample_ghost)"
  by (auto simp: tree_inv_def sample_phys_def sample_ghost_def split: if_splits)

lemma sample_vm_inv: "vm_inv sample [6, 7, 8, 13, 14] sample_ghost"
  unfolding vm_inv_def sample_simps sample_leafs
  using sample_alloc_inv sample_tree
  by (auto simp: sample_ghost_def sample_phys_def sample_page_def split: if_splits)

lemma path_UTEXT: "path 0x800000 = [0, 0, 4, 0]" "path 0x801000 = [0, 0, 4, 1]" "path 0x40000000 = [0, 1, 0, 0]"
  by (simp_all add: path_def PML4_def PDPE_def PDX_def PTX_def)

lemma sample_addr_ok: "addr_ok sample sample_ghost 1 va" "addr_ok sample sample_ghost 12 va"
  by (simp_all add: addr_ok_def path_def sample_ghost_def)

lemma sample_slot:
  "slot (phys sample) 1 (path 0x800000) = Some (4, 0)"
  "slot (phys sample) 1 (path 0x801000) = Some (4, 1)"
  "slot (phys sample) 1 (path 0x40000000) = None"
  by (simp_all add: path_UTEXT sample_phys_def)

lemma sample_pte: "pte_at sample 1 0x800000 = leaf_pte 5 7"
  by (simp add: pte_at_def path_UTEXT) (simp add: sample_phys_def)

end
