(* ===== verification/Memory_Theorems.thy ===== *)
theory Memory_Theorems
  imports User_Mem Sample
begin

text \<open>
  The properties of the memory manager of kern/pmap.c: allocator, page tables, and the check of
  user pointers.
\<close>

section \<open>The page allocator\<close>

text \<open>
  C16 page_init puts on the free list exactly the pages that are not reserved (page 0, the I/O
  hole, the kernel image, the boot page tables, the startup page of the other CPUs), each once,
  highest page first.
\<close>

theorem page_init_free_list:
  assumes "npages s \<le> 2 ^ 20" and "page_free_list s = None" and "KERNBASE \<le> nextfree s"
  shows "\<exists>s'. page_init s = Some s' \<and>
    alloc_inv s' (rev (filter (\<lambda>k. \<not> reserved_page (ucast (nextfree s - KERNBASE)) k) [0..<npages s]))"
proof -
  have "alloc_inv s []" using assms by (simp add: alloc_inv_def free_pages_def)
  from page_init_loop_spec [OF _ assms(1) this, of 0 "npages s" 0 4095 "ucast (nextfree s - KERNBASE)"]
  show ?thesis using assms(3) by (simp add: page_init_def PADDR_def)
qed

theorem page_init_free_list_witness:
  "\<exists>s'. page_init (sample\<lparr>page_free_list := None\<rparr>) = Some s' \<and> alloc_inv s' [15, 14, 6, 5, 4, 3, 2, 1]"
proof -
  have r: "filter (\<lambda>k. \<not> reserved_page (ucast (nextfree (sample\<lparr>page_free_list := None\<rparr>) - KERNBASE)) k) [0..<16] =
      [1, 2, 3, 4, 5, 6, 14, 15]"
    by (simp add: reserved_page_def upt_rec)
  show ?thesis
    using page_init_free_list [of "sample\<lparr>page_free_list := None\<rparr>"] r
    by (simp add: sample_def jos_consts)
qed

text \<open>
  A sequence of n calls of page_alloc hands out min n (number of free pages) distinct free
  pages, and the pages that are left are exactly the other free pages.
\<close>

theorem page_alloc_distinct:
  assumes "alloc_inv s xs"
  shows "\<exists>ps s'. alloc_many (page_alloc fl) n s = Some (ps, s') \<and> length ps = min n (length xs) \<and>
    distinct ps \<and> set ps \<subseteq> set xs \<and> page_pool s' (set xs - set ps)"
proof -
  have "page_pool s (set xs)" using assms by (auto simp: page_pool_def)
  from page_pool.alloc_many_distinct [OF this, of fl n] show ?thesis
    using distinct_card [OF alloc_invD(2) [OF assms]] by auto
qed

theorem page_alloc_distinct_witness:
  "\<exists>ps s'. alloc_many (page_alloc 0) 2 sample = Some (ps, s') \<and> length ps = 2 \<and> distinct ps \<and> set ps \<subseteq> {6, 7, 8, 13, 14}"
  using page_alloc_distinct [OF sample_alloc_inv, of 0 2] by auto

text \<open>
  Freeing a page that is in use by nobody puts it at the head of the free list, the next
  page_alloc returns it, and freeing a page twice changes nothing.
\<close>

theorem page_free_then_alloc:
  assumes "alloc_inv s xs" and "p \<noteq> 0" and "p < npages s" and "pp_ref (pages s p) = 0" and "p \<notin> set xs"
  shows "\<exists>s' s''. page_free p s = Some s' \<and> alloc_inv s' (p # xs) \<and> page_free p s' = Some s' \<and>
    page_alloc fl s' = Some (Some p, s'') \<and> alloc_inv s'' xs"
proof -
  have f: "alloc_inv (free_state p s) (p # xs)" by (rule free_state_inv [OF assms])
  show ?thesis
    using page_free_eq [OF assms(1), of p] page_free_eq [OF f, of p] page_alloc_head [OF f]
      alloc_state_inv [OF f] f assms(4,5) by auto
qed

theorem page_free_then_alloc_witness:
  "\<exists>s' s''. page_free 15 sample = Some s' \<and> alloc_inv s' [15, 6, 7, 8, 13, 14] \<and>
    page_alloc 1 s' = Some (Some 15, s'') \<and> alloc_inv s'' [6, 7, 8, 13, 14]"
  using page_free_then_alloc [OF sample_alloc_inv, of 15 1] by (auto simp: sample_page_def)

section \<open>Page tables\<close>

text \<open>
  C1 page_insert either maps exactly the requested page at the requested address, changes no
  entry of any other address of any address space and the contents of no page that is in use,
  keeps the invariant of allocator, tables and reference counts and does not leave the page on
  the free list, or it returns -E_NO_MEM and
  leaves the free list, all reference counts and all pages that are in use as they were.
\<close>

theorem page_insert_correct:
  assumes "vm_inv s xs g" and "addr_ok s g root va"
    and "pp \<noteq> 0" and "pp < npages s" and "pp \<notin> set xs" and "pp_ref (pages s pp) \<noteq> - 1" and "perm < 4096"
  shows "(\<exists>s'. page_insert root pp va perm s = Some (- E_NO_MEM, s') \<and> length xs < 3 \<and> rolled_back xs s s') \<or>
    (\<exists>s' xs' g'. page_insert root pp va perm s = Some (0, s') \<and> mm_only s s' \<and> vm_inv s' xs' g' \<and>
       same_ghost xs g g' \<and> pp \<notin> set xs' \<and>
       (\<forall>q j. q \<notin> set xs \<longrightarrow> lev g q = 0 \<or> \<not> own g q j \<longrightarrow> phys s' q j = phys s q j) \<and>
       (\<forall>r a. addr_ok s g r a \<longrightarrow> addr_ok s' g' r a \<and>
          pte_at s' r a = (if r = root \<and> path a = path va then page2pa pp OR scast perm OR PTE_P else pte_at s r a)))"
  using page_insert_spec [OF assms] unfolding mapped_def leaf_pte_def keeps_data_def by blast

theorem page_insert_correct_witness:
  "\<exists>s' xs' g'. page_insert 1 5 0x40000000 7 sample = Some (0, s') \<and> vm_inv s' xs' g' \<and>
     pte_at s' 1 0x40000000 = page2pa 5 OR 7 OR PTE_P \<and> pte_at s' 1 0x800000 = leaf_pte 5 7"
proof -
  have "tgt (leaf_pte 5 7) = 5" by simp
  then show ?thesis
    using page_insert_correct [OF sample_vm_inv sample_addr_ok(1), where pp = 5 and perm = 7 and va = "0x40000000"]
      sample_pte sample_addr_ok(1) [of "0x40000000"] sample_addr_ok(1) [of "0x800000"]
    by (fastforce simp: sample_page_def path_UTEXT)
qed

text \<open>
  C12 page_remove on a mapped address clears exactly that entry, drops one reference of the
  page, and puts the page on the free list exactly when it was the last one.
\<close>

theorem page_remove_correct:
  assumes "vm_inv s xs g" and "addr_ok s g root va" and "pte_at s root va \<noteq> 0"
  defines "pp \<equiv> tgt (pte_at s root va)"
  shows "\<exists>s'. page_remove root va s = Some s' \<and> mm_only s s' \<and>
    vm_inv s' (if pp_ref (pages s pp) = 1 then pp # xs else xs) g \<and>
    pp_ref (pages s' pp) = pp_ref (pages s pp) - 1 \<and>
    (\<forall>p. p \<noteq> pp \<longrightarrow> pages s' p = pages s p) \<and>
    (\<forall>r a. addr_ok s g r a \<longrightarrow> addr_ok s' g r a \<and>
       pte_at s' r a = (if r = root \<and> path a = path va then 0 else pte_at s r a))"
  using page_remove_spec [OF assms(1-3)] unfolding after_unmap_def pp_def by blast

theorem page_remove_correct_witness:
  "\<exists>s'. page_remove 1 0x800000 sample = Some s' \<and> vm_inv s' [5, 6, 7, 8, 13, 14] sample_ghost \<and>
     pte_at s' 1 0x800000 = 0"
proof -
  have "tgt (leaf_pte 5 7) = 5" by simp
  then show ?thesis
    using page_remove_correct [OF sample_vm_inv sample_addr_ok(1), where va = "0x800000"] sample_pte
      sample_addr_ok(1) [of "0x800000"]
    by (fastforce simp: sample_page_def)
qed



text \<open>
  C15 A walk with create set that runs out of memory gives back every table page it took: free
  list, reference counts and every page in use are as before the walk.
\<close>

theorem pml4e_walk_no_leak:
  assumes "vm_inv s xs g" and "addr_ok s g root va"
  shows "\<exists>r s'. pml4e_walk root va True s = Some (r, s') \<and> (3 \<le> length xs \<longrightarrow> r \<noteq> None) \<and>
    (r = None \<longrightarrow> pages s' = pages s \<and> page_free_list s' = page_free_list s \<and>
       (\<forall>q. q \<notin> set xs \<longrightarrow> phys s' q = phys s q))"
  using walk_create [OF assms] by (auto simp: rolled_back_def)

theorem pml4e_walk_no_leak_witness:
  "\<exists>q s'. pml4e_walk 1 0x40000000 True sample = Some (Some q, s')"
  using pml4e_walk_no_leak [OF sample_vm_inv sample_addr_ok(1), where va = "0x40000000"] by auto

text \<open>
  Where the page table exists but the entry is empty, page_lookup reports page 0 instead of
  no page, and page_remove therefore decrements the reference count of page 0, which wraps
  around from 0 to 65535.
\<close>

theorem page_remove_empty_entry:
  assumes "vm_inv s xs g" and "addr_ok s g root va" and "slot (phys s) root (path va) = Some (q, j)"
    and "phys s q j = 0" and "0 < npages s" and "pp_ref (pages s 0) = 0"
  shows "page_lookup root va s = Some (Some (0, q, j)) \<and>
    (\<exists>s'. page_remove root va s = Some s' \<and> pp_ref (pages s' 0) = 65535)"
proof -
  have "0 \<notin> set xs" using alloc_invD(4) [OF vm_invD(1) [OF assms(1)]] by blast
  from page_decref_eq [OF vm_invD(1) [OF assms(1)] this]
  show ?thesis
    using page_lookup_empty_pte [OF assms(1-5)] assms(6)
    by (auto simp: page_remove_def)
qed

theorem page_remove_empty_entry_witness:
  "\<exists>s'. page_remove 1 0x801000 sample = Some s' \<and> pp_ref (pages s' 0) = 65535"
  using page_remove_empty_entry [OF sample_vm_inv sample_addr_ok(1) sample_slot(2)]
  by (simp add: sample_phys_def sample_page_def)

section \<open>User pointers\<close>

text \<open>
  C11 On a non-empty range that does not wrap around and ends below ULIM, user_mem_check returns
  0 exactly when every address of the range is mapped with the requested permissions, and then
  changes nothing.
\<close>

theorem user_mem_check_correct:
  assumes "vm_inv s xs g" and "unat va + unat len < unat ULIM" and "len \<noteq> 0"
    and "\<And>a. va \<le> a \<Longrightarrow> a < ROUNDUP (va + len) PGSIZE \<Longrightarrow> addr_ok s g root a"
  shows "user_mem_check root va len perm s = Some (0, s') \<longleftrightarrow>
    s' = s \<and> (\<forall>a. unat va \<le> unat a \<and> unat a < unat va + unat len \<longrightarrow>
      pte_at s root a AND (perm OR PTE_P) = perm OR PTE_P)"
  using user_mem_check_iff [OF assms] unfolding has_perm_def .

theorem user_mem_check_correct_witness:
  "user_mem_check 1 0x800010 16 PTE_U sample = Some (0, sample)"
proof -
  have "pte_at sample 1 a = leaf_pte 5 7" if "unat (0x800010 :: u64) \<le> unat a" "unat a < unat (0x800010 :: u64) + 16" for a
  proof -
    have "unat a div 4096 = 2048" by (rule div_nat_eqI) (use that in simp_all)
    then have "path a = path 0x800000" by (intro path_page) simp
    then show ?thesis using sample_pte by (simp add: pte_at_def)
  qed
  moreover have "leaf_pte 5 7 AND (PTE_U OR PTE_P) = PTE_U OR PTE_P"
    by (simp add: leaf_pte_def jos_consts page2pa_def)
  ultimately show ?thesis
    using user_mem_check_correct [OF sample_vm_inv, where va = "0x800010" and len = 16 and root = 1 and perm = PTE_U
        and s' = sample, OF _ _ sample_addr_ok(1)]
    by (simp add: ULIM_def MMIOBASE_def MMIOLIM_def KSTACKTOP_def KERNBASE_def PTSIZE_def)
qed


end
