(* ===== verification/Kmem.thy ===== *)
theory Kmem
  imports Pmap
begin

text \<open>
  Memory as the kernel's own loads and stores see it: bytes of physical pages, the translation
  the processor performs with the page tables in force, and \<open>memset\<close> and \<open>memcpy\<close>
  through it. An access the tables do not allow is a page fault in the kernel, which panics:
  \<open>None\<close>.
\<close>

section \<open>Bytes of physical memory\<close>

definition phys_byte :: "kstate \<Rightarrow> nat \<Rightarrow> nat \<Rightarrow> u8" where
  "phys_byte s p off = get_byte (phys s p (off div 8)) (off mod 8)"

definition wr_byte :: "nat \<Rightarrow> nat \<Rightarrow> u8 \<Rightarrow> kstate \<Rightarrow> kstate" where
  "wr_byte p off b s = wr p (off div 8) (put_byte (phys s p (off div 8)) (off mod 8) b) s"

lemma phys_byte_wr_byte:
  "phys_byte (wr_byte p off b s) p' off' = (if p' = p \<and> off' = off then b else phys_byte s p' off')"
proof -
  have "off' = off \<longleftrightarrow> off' div 8 = off div 8 \<and> off' mod 8 = off mod 8"
    by (metis div_mult_mod_eq)
  then show ?thesis by (auto simp: phys_byte_def wr_byte_def)
qed

section \<open>The processor's translation\<close>

text \<open>The page frame and the flags all levels agree on.\<close>

definition mmu :: "nat \<Rightarrow> u64 \<Rightarrow> kstate \<Rightarrow> (nat \<times> u64) option" where
  "mmu root va s =
     (let e4 = phys s root (PML4 va);
          e3 = phys s (unat (PPN e4)) (PDPE va);
          e2 = phys s (unat (PPN e3)) (PDX va);
          e1 = phys s (unat (PPN e2)) (PTX va)
      in if e4 AND PTE_P = 0 \<or> e3 AND PTE_P = 0 \<or> e2 AND PTE_P = 0 \<or> e1 AND PTE_P = 0 then None
         else Some (unat (PPN e1), e4 AND e3 AND e2 AND e1))"

definition kload :: "u64 \<Rightarrow> kstate \<Rightarrow> u8 option" where
  "kload va s = do {
     (p, _) \<leftarrow> mmu (unat (PPN (cr3 s))) va s;
     Some (phys_byte s p (unat (PGOFF va)))
   }"

definition kstore :: "u64 \<Rightarrow> u8 \<Rightarrow> kstate \<Rightarrow> kstate option" where
  "kstore va b s = do {
     (p, fl) \<leftarrow> mmu (unat (PPN (cr3 s))) va s;
     if fl AND PTE_W = 0 then None else Some (wr_byte p (unat (PGOFF va)) b s)
   }"

text \<open>\<open>memset\<close> and \<open>memcpy\<close> through the tables in force, byte by byte.\<close>

definition kmemset :: "u64 \<Rightarrow> u8 \<Rightarrow> nat \<Rightarrow> kstate \<Rightarrow> kstate option" where
  "kmemset va c n s = foldM (\<lambda>i. kstore (va + of_nat i) c) [0..<n] s"

definition kmemcpy :: "u64 \<Rightarrow> (nat \<Rightarrow> u8) \<Rightarrow> nat \<Rightarrow> kstate \<Rightarrow> kstate option" where
  "kmemcpy va src n s = foldM (\<lambda>i. kstore (va + of_nat i) (src i)) [0..<n] s"

text \<open>An eight-byte store, least significant byte first, and the matching load.\<close>

definition kstore64 :: "u64 \<Rightarrow> u64 \<Rightarrow> kstate \<Rightarrow> kstate option" where
  "kstore64 va w s = kmemcpy va (get_byte w) 8 s"

fun of_bytes :: "u8 list \<Rightarrow> u64" where
  "of_bytes [] = 0"
| "of_bytes (b # bs) = ucast b OR push_bit 8 (of_bytes bs)"

fun kload_bytes :: "u64 \<Rightarrow> nat \<Rightarrow> kstate \<Rightarrow> u8 list option" where
  "kload_bytes va 0 s = Some []"
| "kload_bytes va (Suc n) s = do { b \<leftarrow> kload va s; bs \<leftarrow> kload_bytes (va + 1) n s; Some (b # bs) }"

definition kload64 :: "u64 \<Rightarrow> kstate \<Rightarrow> u64 option" where
  "kload64 va s = map_option of_bytes (kload_bytes va 8 s)"

end
