(* ===== verification/Sched.thy ===== *)
theory Sched
  imports Pmap
begin

text \<open>
  Leaving the kernel: \<open>env_run\<close> and \<open>env_pop_tf\<close> of kern/env.c and the round-robin
  scheduler \<open>sched_yield\<close> of kern/sched.c.
\<close>

section \<open>How kernel code ends\<close>

text \<open>
  A kernel function returns to its caller, leaves to user mode through \<open>env_pop_tf\<close> (the
  processor then runs \<open>curenv\<close> with the registers of its saved frame), or stays in the
  kernel monitor. \<open>None\<close> around it is a panic.
\<close>

datatype 'a ctl = Returns 'a kstate | UserMode kstate | Monitor kstate

definition cbind :: "'a ctl option \<Rightarrow> ('a \<Rightarrow> kstate \<Rightarrow> 'b ctl option) \<Rightarrow> 'b ctl option" where
  "cbind m f =
     (case m of
        None \<Rightarrow> None
      | Some (Returns x s) \<Rightarrow> f x s
      | Some (UserMode s) \<Rightarrow> Some (UserMode s)
      | Some (Monitor s) \<Rightarrow> Some (Monitor s))"

lemma cbind_simps [simp]:
  "cbind None f = None" "cbind (Some (Returns x s)) f = f x s"
  "cbind (Some (UserMode s)) f = Some (UserMode s)" "cbind (Some (Monitor s)) f = Some (Monitor s)"
  by (simp_all add: cbind_def)

section \<open>The big kernel lock (kern/spinlock.h)\<close>

definition lock_kernel :: "kstate \<Rightarrow> kstate option" where
  "lock_kernel s = do { lk \<leftarrow> spin_lock (cpunum s) (kernel_lock s); Some (s\<lparr>kernel_lock := lk\<rparr>) }"

definition unlock_kernel :: "kstate \<Rightarrow> kstate option" where
  "unlock_kernel s = do { lk \<leftarrow> spin_unlock (cpunum s) (kernel_lock s); Some (s\<lparr>kernel_lock := lk\<rparr>) }"

section \<open>env_run\<close>

definition lcr3 :: "u64 \<Rightarrow> kstate \<Rightarrow> kstate" where
  "lcr3 v s = s\<lparr>cr3 := v\<rparr>"

definition set_curenv :: "nat option \<Rightarrow> kstate \<Rightarrow> kstate" where
  "set_curenv e s = s\<lparr>cpu_env := (cpu_env s)(cpunum s := e)\<rparr>"

definition env_pop_tf :: "kstate \<Rightarrow> 'a ctl option" where
  "env_pop_tf s =
     (case curenv s of
        None \<Rightarrow> None
      | Some e \<Rightarrow> Some (UserMode (upd_env e (\<lambda>v. v\<lparr>env_cpunum := cpunum s\<rparr>) s)))"

definition env_run :: "nat \<Rightarrow> kstate \<Rightarrow> 'a ctl option" where
  "env_run e s = do {
     let s = (case curenv s of
                None \<Rightarrow> s
              | Some c \<Rightarrow> if env_status (envs s c) = ENV_RUNNING
                         then upd_env c (\<lambda>v. v\<lparr>env_status := ENV_RUNNABLE\<rparr>) s else s);
     let s = set_curenv (Some e) s;
     let s = upd_env e (\<lambda>v. v\<lparr>env_status := ENV_RUNNING, env_runs := env_runs v + 1\<rparr>) s;
     s \<leftarrow> unlock_kernel s;
     env_pop_tf (lcr3 (env_cr3 (envs s e)) s)
   }"

section \<open>sched_yield\<close>

definition runnable :: "kstate \<Rightarrow> nat \<Rightarrow> bool" where
  "runnable s k \<longleftrightarrow> env_status (envs s k) = ENV_RUNNABLE \<and> env_type (envs s k) \<noteq> ENV_TYPE_IDLE"

text \<open>What follows the search loop when it found nothing.\<close>

definition sched_rest :: "kstate \<Rightarrow> 'a ctl option" where
  "sched_rest s =
     (if (case curenv s of None \<Rightarrow> False | Some c \<Rightarrow> env_status (envs s c) = ENV_RUNNING)
      then env_run (the (curenv s)) s
      else if list_all (\<lambda>i. \<not> (env_type (envs s i) \<noteq> ENV_TYPE_IDLE \<and>
                (env_status (envs s i) = ENV_RUNNABLE \<or> env_status (envs s i) = ENV_RUNNING))) [0..<NENV]
      then Some (Monitor s)
      else if env_status (envs s (cpunum s)) = ENV_RUNNABLE \<or> env_status (envs s (cpunum s)) = ENV_RUNNING
      then env_run (cpunum s) s
      else None)"

text \<open>
  The search loop with its remaining iterations and its index \<open>k\<close>. The source reads
  \<open>envs[k]\<close> without a check; an index outside the array is \<open>None\<close>.
\<close>

fun sched_loop :: "nat \<Rightarrow> nat \<Rightarrow> kstate \<Rightarrow> 'a ctl option" where
  "sched_loop 0 k s = sched_rest s"
| "sched_loop (Suc n) k s =
     (if NENV \<le> k then None
      else if runnable s k then env_run k s
      else sched_loop n (if Suc k = NENV then 0 else Suc k) s)"

definition sched_yield :: "kstate \<Rightarrow> 'a ctl option" where
  "sched_yield s =
     (let i = (case curenv s of Some e \<Rightarrow> e | None \<Rightarrow> 1) in sched_loop (NENV - 1) (Suc i) s)"

section \<open>Round robin\<close>

text \<open>The order in which the loop looks at the environments after \<open>i\<close>.\<close>

definition rr_order :: "nat \<Rightarrow> nat list" where
  "rr_order i = [Suc i..<NENV] @ [0..<i]"

lemma sched_loop_find:
  "k < NENV \<Longrightarrow> n \<le> NENV \<Longrightarrow>
   sched_loop n k s =
     (case find (runnable s) (take n ([k..<NENV] @ [0..<k])) of
        None \<Rightarrow> sched_rest s | Some e \<Rightarrow> env_run e s)"
proof (induction n arbitrary: k)
  case (Suc n)
  let ?k = "if Suc k = NENV then 0 else Suc k"
  have k: "?k < NENV" using Suc.prems by (auto simp: NENV_def)
  have "[k..<NENV] @ [0..<k] = k # [Suc k..<NENV] @ [0..<k]"
    using Suc.prems(1) by (simp add: upt_conv_Cons)
  moreover have "take n ([?k..<NENV] @ [0..<?k]) = take n ([Suc k..<NENV] @ [0..<k])"
  proof (cases "Suc k = NENV")
    case True
    then have "[0..<NENV] = [0..<k] @ [k]" by (metis upt_Suc_append le0)
    then show ?thesis using True Suc.prems(2) by simp
  next
    case False
    then show ?thesis using Suc.prems by (simp add: NENV_def)
  qed
  ultimately show ?case using Suc.IH [OF k] Suc.prems by auto
qed simp

lemma sched_yield_find:
  assumes "i < NENV - 1" and "i = (case curenv s of Some e \<Rightarrow> e | None \<Rightarrow> 1)"
  shows "sched_yield s =
    (case find (runnable s) (rr_order i) of None \<Rightarrow> sched_rest s | Some e \<Rightarrow> env_run e s)"
proof -
  have "take (NENV - 1) ([Suc i..<NENV] @ [0..<Suc i]) = rr_order i"
    using assms(1) by (simp add: rr_order_def NENV_def)
  then show ?thesis
    using sched_loop_find [of "Suc i" "NENV - 1" s] assms
    by (simp add: sched_yield_def Let_def NENV_def split: option.splits)
qed

end
