(* ===== verification/Env.thy ===== *)
theory Env
  imports Kmem Sched
begin

text \<open>
  Environments: kern/env.c without the segment registers it loads at boot. Operations in the
  order of the source.
\<close>

section \<open>Lookup and initialisation\<close>

text \<open>The result is the return value and the value stored through \<open>env_store\<close>.\<close>

definition envid2env :: "envid_t \<Rightarrow> bool \<Rightarrow> kstate \<Rightarrow> (int \<times> nat option) option" where
  "envid2env envid checkperm s =
     (if envid = 0 then Some (0, curenv s)
      else
        let e = ENVX envid
        in if env_status (envs s e) = ENV_FREE \<or> env_id (envs s e) \<noteq> envid then Some (- E_BAD_ENV, None)
           else if checkperm \<and> Some e \<noteq> curenv s then
             (case curenv s of
                None \<Rightarrow> None
              | Some c \<Rightarrow>
                  if env_parent_id (envs s e) \<noteq> env_id (envs s c) then Some (- E_BAD_ENV, None)
                  else Some (0, Some e))
           else Some (0, Some e))"

definition env_init :: "kstate \<Rightarrow> kstate" where
  "env_init s =
     (let s = s\<lparr>envs := (\<lambda>i. if i < NENV then zero_env else envs s i)\<rparr>;
          s = fold (\<lambda>i. upd_env i (\<lambda>v. v\<lparr>env_id := 0, env_status := ENV_FREE,
                 env_link := (if i = NENV - 1 then None else Some (i + 1))\<rparr>)) [0..<NENV] s
      in s\<lparr>env_free_list := Some 0\<rparr>)"

section \<open>Allocation\<close>

definition inc_ref :: "nat \<Rightarrow> kstate \<Rightarrow> kstate" where
  "inc_ref pp s = upd_page pp (\<lambda>p. p\<lparr>pp_ref := pp_ref p + 1\<rparr>) s"

text \<open>The part of \<open>env_setup_vm\<close> after its three pages have been allocated.\<close>

definition env_setup_tables :: "nat \<Rightarrow> nat \<Rightarrow> nat \<Rightarrow> nat \<Rightarrow> kstate \<Rightarrow> kstate option" where
  "env_setup_tables e p p2 p3 s = do {
     pml4e \<leftarrow> KADDR s (PTE_ADDR (page2pa p));
     let s = upd_env e (\<lambda>v. v\<lparr>env_pml4e := Some pml4e\<rparr>) s;
     let s = wr pml4e (PML4 UTOP) (page2pa p2 OR PTE_U OR PTE_W OR PTE_P) s;
     pdpe \<leftarrow> KADDR s (PTE_ADDR (phys s pml4e (PML4 UTOP)));
     let s = wr pdpe (PDPE UTOP) (page2pa p3 OR PTE_U OR PTE_W OR PTE_P) s;
     pgdir \<leftarrow> KADDR s (PTE_ADDR (phys s pdpe (PDPE UTOP)));
     let s = inc_ref p3 (inc_ref p2 (inc_ref p s));
     kernel_pdpe \<leftarrow> KADDR s (PTE_ADDR (phys s (boot_pml4e s) (PML4 UTOP)));
     kernel_pgdir \<leftarrow> KADDR s (PTE_ADDR (phys s kernel_pdpe (PDPE UTOP)));
     let s = fold (\<lambda>i s. wr pgdir i (phys s kernel_pgdir i) s) [PTX UTOP..<NPTENTRIES] s;
     let s = upd_env e (\<lambda>v. v\<lparr>env_cr3 := page2pa pml4e\<rparr>) s;
     Some (wr pml4e (PML4 UVPT) (env_cr3 (envs s e) OR PTE_P OR PTE_U) s)
   }"

definition env_setup_vm :: "nat \<Rightarrow> kstate \<Rightarrow> (int \<times> kstate) option" where
  "env_setup_vm e s = do {
     (p, s) \<leftarrow> page_alloc ALLOC_ZERO s;
     (case p of None \<Rightarrow> Some (- E_NO_MEM, s) | Some p \<Rightarrow> do {
        (p2, s) \<leftarrow> page_alloc ALLOC_ZERO s;
        (case p2 of None \<Rightarrow> Some (- E_NO_MEM, s) | Some p2 \<Rightarrow> do {
           (p3, s) \<leftarrow> page_alloc ALLOC_ZERO s;
           (case p3 of None \<Rightarrow> Some (- E_NO_MEM, s) | Some p3 \<Rightarrow> do {
              s \<leftarrow> env_setup_tables e p p2 p3 s;
              Some (0, s)
            })
         })
      })
   }"

text \<open>\<open>env_id\<close> is a signed 32-bit integer; \<open>ENVGENSHIFT\<close> is 12.\<close>

definition ENVGENSHIFT :: nat where [jos_consts]: "ENVGENSHIFT = 12"

definition new_env_id :: "envid_t \<Rightarrow> nat \<Rightarrow> envid_t" where
  "new_env_id old e =
     (let generation = (old + push_bit ENVGENSHIFT 1) AND NOT (of_nat (NENV - 1));
          generation = (if sint generation \<le> 0 then push_bit ENVGENSHIFT 1 else generation)
      in generation OR of_nat e)"

definition init_tf :: Trapframe where
  "init_tf = zero_tf\<lparr>tf_ds := GD_UD OR 3, tf_es := GD_UD OR 3, tf_ss := GD_UD OR 3, tf_rsp := USTACKTOP,
     tf_cs := GD_UT OR 3, tf_eflags := FL_IF\<rparr>"

text \<open>The result is the return value and the value stored through \<open>newenv_store\<close>, if any.\<close>

definition env_alloc :: "envid_t \<Rightarrow> kstate \<Rightarrow> (int \<times> nat option \<times> kstate) option" where
  "env_alloc parent_id s =
     (case env_free_list s of
        None \<Rightarrow> Some (- E_NO_FREE_ENV, None, s)
      | Some e \<Rightarrow> do {
          (r, s) \<leftarrow> env_setup_vm e s;
          if r < 0 then Some (r, None, s)
          else do {
            let s = upd_env e (\<lambda>v. v\<lparr>env_id := new_env_id (env_id v) e, env_parent_id := parent_id,
                      env_type := ENV_TYPE_USER, env_status := ENV_RUNNABLE, env_runs := 0,
                      env_tf := init_tf, env_pgfault_upcall := 0, env_ipc_recving := False\<rparr>) s;
            Some (0, Some e, s\<lparr>env_free_list := env_link (envs s e)\<rparr>)
          }
        })"

section \<open>Loading a program\<close>

text \<open>Permissions are \<open>int\<close> parameters.\<close>

definition PERM_UWP :: u32 where [jos_consts]: "PERM_UWP = 7"
definition PERM_UW :: u32 where [jos_consts]: "PERM_UW = 6"

partial_function (option) region_loop :: "nat \<Rightarrow> u64 \<Rightarrow> u64 \<Rightarrow> kstate \<Rightarrow> kstate option" where
  "region_loop pml4e va_i end_va s =
     (if va_i < end_va then do {
        (p, s) \<leftarrow> page_alloc ALLOC_ZERO s;
        p \<leftarrow> p;
        (_, s) \<leftarrow> page_insert pml4e p va_i PERM_UWP s;
        region_loop pml4e (va_i + PGSIZE) end_va s
      } else Some s)"

definition region_alloc :: "nat \<Rightarrow> u64 \<Rightarrow> u64 \<Rightarrow> kstate \<Rightarrow> kstate option" where
  "region_alloc e va len s = do {
     pml4e \<leftarrow> env_pml4e (envs s e);
     region_loop pml4e (ROUNDDOWN va PGSIZE) (ROUNDUP (va + len) PGSIZE) s
   }"

text \<open>
  Fields of \<open>struct Elf\<close> and \<open>struct Proghdr\<close> (inc/elf.h) in the bytes of the image,
  which the linker puts into the kernel's data and the code only reads.
\<close>

definition le_field :: "(nat \<Rightarrow> u8) \<Rightarrow> nat \<Rightarrow> nat \<Rightarrow> u64" where
  "le_field bin off n = of_bytes (map (\<lambda>i. bin (off + i)) [0..<n])"

definition e_entry :: "(nat \<Rightarrow> u8) \<Rightarrow> u64" where "e_entry bin = le_field bin 24 8"
definition e_phoff :: "(nat \<Rightarrow> u8) \<Rightarrow> u64" where "e_phoff bin = le_field bin 32 8"
definition e_phnum :: "(nat \<Rightarrow> u8) \<Rightarrow> nat" where "e_phnum bin = unat (le_field bin 56 2)"

record Proghdr =
  p_type :: u32
  p_offset :: u64
  p_va :: u64
  p_filesz :: u64
  p_memsz :: u64

definition proghdr :: "(nat \<Rightarrow> u8) \<Rightarrow> nat \<Rightarrow> Proghdr" where
  "proghdr bin i =
     (let b = unat (e_phoff bin) + 56 * i
      in \<lparr>p_type = ucast (le_field bin b 4), p_offset = le_field bin (b + 8) 8, p_va = le_field bin (b + 16) 8,
          p_filesz = le_field bin (b + 32) 8, p_memsz = le_field bin (b + 40) 8\<rparr>)"

definition ELF_PROG_LOAD :: u32 where [jos_consts]: "ELF_PROG_LOAD = 1"

definition load_segment :: "nat \<Rightarrow> (nat \<Rightarrow> u8) \<Rightarrow> Proghdr \<Rightarrow> kstate \<Rightarrow> kstate option" where
  "load_segment e bin ph s =
     (if p_type ph = ELF_PROG_LOAD then do {
        s \<leftarrow> region_alloc e (p_va ph) (p_memsz ph) s;
        s \<leftarrow> kmemset (p_va ph) 0 (unat (p_memsz ph)) s;
        kmemcpy (p_va ph) (\<lambda>i. bin (unat (p_offset ph) + i)) (unat (p_filesz ph)) s
      } else Some s)"

text \<open>
  \<open>prev_cr3\<close> is a 32-bit variable. A null page from the last \<open>page_alloc\<close> is
  dereferenced by \<open>page_insert\<close>.
\<close>

definition load_icode :: "nat \<Rightarrow> (nat \<Rightarrow> u8) \<Rightarrow> kstate \<Rightarrow> kstate option" where
  "load_icode e bin s = do {
     let prev_cr3 = (ucast (cr3 s) :: u32);
     let s = upd_env e (\<lambda>v. v\<lparr>env_tf := (env_tf v)\<lparr>tf_rip := e_entry bin\<rparr>\<rparr>) s;
     let s = lcr3 (env_cr3 (envs s e)) s;
     s \<leftarrow> foldM (\<lambda>i. load_segment e bin (proghdr bin i)) [0..<e_phnum bin] s;
     let s = lcr3 (ucast prev_cr3) s;
     (pp, s) \<leftarrow> page_alloc 0 s;
     pp \<leftarrow> pp;
     pml4e \<leftarrow> env_pml4e (envs s e);
     (_, s) \<leftarrow> page_insert pml4e pp (USTACKTOP - PGSIZE) PERM_UW s;
     Some s
   }"

definition env_create :: "(nat \<Rightarrow> u8) \<Rightarrow> EnvType \<Rightarrow> kstate \<Rightarrow> kstate option" where
  "env_create bin type s = do {
     (_, e, s) \<leftarrow> env_alloc 0 s;
     e \<leftarrow> e;
     let s = (if type = ENV_TYPE_FS
              then upd_env e (\<lambda>v. v\<lparr>env_tf := (env_tf v)\<lparr>tf_eflags := tf_eflags (env_tf v) OR FL_IOPL_3\<rparr>\<rparr>) s
              else s);
     s \<leftarrow> load_icode e bin s;
     Some (upd_env e (\<lambda>v. v\<lparr>env_type := type\<rparr>) s)
   }"

section \<open>Freeing\<close>

text \<open>The three nested loops of \<open>env_free\<close>, innermost first.\<close>

definition free_pte :: "nat \<Rightarrow> nat \<Rightarrow> nat \<Rightarrow> nat \<Rightarrow> nat \<Rightarrow> kstate \<Rightarrow> kstate option" where
  "free_pte pml4e pt pdpe_index pdeno pteno s =
     (if phys s pt pteno AND PTE_P \<noteq> 0
      then page_remove pml4e (PGADDR 0 (of_nat pdpe_index) (of_nat pdeno) (of_nat pteno) 0) s
      else Some s)"

definition free_pde :: "nat \<Rightarrow> nat \<Rightarrow> nat \<Rightarrow> nat \<Rightarrow> kstate \<Rightarrow> kstate option" where
  "free_pde pml4e env_pgdir pdpe_index pdeno s =
     (if phys s env_pgdir pdeno AND PTE_P = 0 then Some s
      else do {
        let pa = PTE_ADDR (phys s env_pgdir pdeno);
        pt \<leftarrow> KADDR s pa;
        s \<leftarrow> foldM (free_pte pml4e pt pdpe_index pdeno) [0..<PTX (- 1)] s;
        let s = wr env_pgdir pdeno 0 s;
        pp \<leftarrow> pa2page s pa;
        page_decref pp s
      })"

definition free_pdpe :: "nat \<Rightarrow> nat \<Rightarrow> nat \<Rightarrow> kstate \<Rightarrow> kstate option" where
  "free_pdpe pml4e env_pdpe pdpe_index s =
     (if phys s env_pdpe pdpe_index AND PTE_P = 0 then Some s
      else do {
        env_pgdir \<leftarrow> KADDR s (PTE_ADDR (phys s env_pdpe pdpe_index));
        let pdeno_limit = (if pdpe_index = 3 then PDX UTOP else PDX 0xFFFFFFFF);
        s \<leftarrow> foldM (free_pde pml4e env_pgdir pdpe_index) [0..<pdeno_limit] s;
        let pa = PTE_ADDR (phys s env_pdpe pdpe_index);
        let s = wr env_pdpe pdpe_index 0 s;
        pp \<leftarrow> pa2page s pa;
        page_decref pp s
      })"

definition env_free :: "nat \<Rightarrow> kstate \<Rightarrow> kstate option" where
  "env_free e s = do {
     let s = (if Some e = curenv s then lcr3 (boot_cr3 s) s else s);
     pml4e \<leftarrow> env_pml4e (envs s e);
     env_pdpe \<leftarrow> KADDR s (PTE_ADDR (phys s pml4e 0));
     s \<leftarrow> foldM (free_pdpe pml4e env_pdpe) [0..<4] s;
     pp \<leftarrow> pa2page s (PTE_ADDR (phys s pml4e 0));
     s \<leftarrow> page_decref pp s;
     let s = wr pml4e 0 0 s;
     let pa = env_cr3 (envs s e);
     let s = upd_env e (\<lambda>v. v\<lparr>env_pml4e := None, env_cr3 := 0\<rparr>) s;
     pp \<leftarrow> pa2page s pa;
     s \<leftarrow> page_decref pp s;
     let s = upd_env e (\<lambda>v. v\<lparr>env_status := ENV_FREE, env_link := env_free_list s\<rparr>) s;
     Some (s\<lparr>env_free_list := Some e\<rparr>)
   }"

definition env_destroy :: "nat \<Rightarrow> kstate \<Rightarrow> unit ctl option" where
  "env_destroy e s =
     (if env_status (envs s e) = ENV_RUNNING \<and> curenv s \<noteq> Some e
      then Some (Returns () (upd_env e (\<lambda>v. v\<lparr>env_status := ENV_DYING\<rparr>) s))
      else do {
        s \<leftarrow> env_free e s;
        if curenv s = Some e then sched_yield (set_curenv None s) else Some (Returns () s)
      })"

end
