(* ===== verification/Env_Space.thy ===== *)
theory Env_Space
  imports Mapping_Spec Env
begin

text \<open>
  What \<open>env_setup_vm\<close> of kern/env.c builds: an address space that is empty below
  \<open>UTOP\<close> and shares the kernel's page directory above it, next to address spaces it
  does not touch.
\<close>

section \<open>Indices of the layout\<close>

lemma layout_index [simp]:
  "PML4 UTOP = 0" "PDPE UTOP = 3" "PDX UTOP = 380" "PTX UTOP = 0" "PML4 UVPT = 2"
  by (simp_all add: PML4_def PDPE_def PDX_def PTX_def jos_consts)

lemma unat_UTOP: "unat UTOP = 0xEF800000"
  by (simp add: jos_consts)

lemma and_mask9: "x AND 0x1FF = take_bit 9 (x :: u64)"
  by (simp add: take_bit_eq_mask mask_eq_exp_minus_1)

lemma unat_index:
  "PTX va = unat va div 2 ^ 12 mod 512" "PDX va = unat va div 2 ^ 21 mod 512"
  "PDPE va = unat va div 2 ^ 30 mod 512" "PML4 va = unat va div 2 ^ 39 mod 512"
  by (simp_all add: PTX_def PDX_def PDPE_def PML4_def and_mask9 unsigned_take_bit_eq take_bit_eq_mod
      drop_bit_eq_div unat_div_distrib unat_mod_distrib)

lemma mod512: "1536 \<le> x \<Longrightarrow> x < 1916 \<Longrightarrow> x mod 512 < (380 :: nat)"
proof -
  assume "1536 \<le> x" and x: "x < 1916"
  then obtain y where y: "x = y + 3 * 512" using le_Suc_ex [of 1536 x] by (auto simp: add.commute)
  have "x mod 512 = y mod 512" unfolding y by (rule mod_mult_self1)
  also have "\<dots> < 380" using x y by simp
  finally show ?thesis .
qed

lemma user_index:
  assumes "va < UTOP"
  shows "PML4 va = 0" and "PDPE va = 3 \<Longrightarrow> PDX va < 380"
proof -
  have v: "unat va < 0xEF800000" using assms unat_UTOP by (simp add: word_less_nat_alt)
  then show "PML4 va = 0" by (simp add: unat_index)
  have "unat va div 2 ^ 30 < 512" using v by simp
  moreover assume "PDPE va = 3"
  ultimately have "3 * 2 ^ 30 \<le> unat va" by (simp add: unat_index) 
  then have "1536 \<le> unat va div 2 ^ 21" by simp
  moreover have "unat va div 2 ^ 21 < 1916" using v by simp
  ultimately show "PDX va < 380" unfolding unat_index by (rule mod512)
qed


section \<open>The state after env_setup_vm\<close>

text \<open>The page directory the kernel uses for the gigabyte around \<open>UTOP\<close>.\<close>

definition kern_pdpe :: "kstate \<Rightarrow> nat" where
  "kern_pdpe s = tgt (phys s (boot_pml4e s) 0)"

definition kern_pgdir :: "kstate \<Rightarrow> nat" where
  "kern_pgdir s = tgt (phys s (kern_pdpe s) 3)"

text \<open>The kernel's own tables exist, are in use, and map nothing of the user part of that gigabyte.\<close>

definition kern_ok :: "kstate \<Rightarrow> nat list \<Rightarrow> vm_ghost \<Rightarrow> bool" where
  "kern_ok s xs g \<longleftrightarrow>
     (\<forall>p \<in> {boot_pml4e s, kern_pdpe s, kern_pgdir s}. p < npages s \<and> p \<notin> set xs \<and> lev g p = 0 \<and> held g p \<noteq> 0) \<and>
     phys s (boot_pml4e s) 0 \<noteq> 0 \<and> phys s (kern_pdpe s) 3 \<noteq> 0 \<and>
     (\<forall>i < 380. phys s (kern_pgdir s) i = 0)"

definition space_mem :: "nat \<Rightarrow> nat \<Rightarrow> nat \<Rightarrow> kstate \<Rightarrow> memory" where
  "space_mem p p2 p3 s =
     (phys s)(p := (\<lambda>_. 0)(0 := table_pte p2, 2 := page2pa p OR PTE_P OR PTE_U),
       p2 := (\<lambda>_. 0)(3 := table_pte p3),
       p3 := (\<lambda>i. if i < 512 then phys s (kern_pgdir s) i else 0))"

definition space_pages :: "nat \<Rightarrow> nat \<Rightarrow> nat \<Rightarrow> kstate \<Rightarrow> nat \<Rightarrow> page" where
  "space_pages p p2 p3 s q =
     (if q \<in> {p, p2, p3} then \<lparr>pp_link = None, pp_ref = pp_ref (pages s q) + 1\<rparr> else pages s q)"

definition space_state :: "nat \<Rightarrow> nat \<Rightarrow> nat \<Rightarrow> nat \<Rightarrow> kstate \<Rightarrow> kstate" where
  "space_state e p p2 p3 s =
     upd_env e (\<lambda>v. v\<lparr>env_pml4e := Some p, env_cr3 := page2pa p\<rparr>)
       (s\<lparr>phys := space_mem p p2 p3 s, pages := space_pages p p2 p3 s,
          page_free_list := pp_link (pages s p3)\<rparr>)"

definition space_ghost :: "nat \<Rightarrow> nat \<Rightarrow> nat \<Rightarrow> vm_ghost \<Rightarrow> vm_ghost" where
  "space_ghost p p2 p3 g =
     \<lparr>lev = (lev g)(p := 4, p2 := 3, p3 := 2),
      own = (own g)(p := (\<lambda>i. i \<noteq> 2), p2 := (\<lambda>_. True), p3 := (\<lambda>i. i < 380)),
      held = (held g)(p := 1, p2 := 1, p3 := 1)\<rparr>"

lemma copy_dir:
  "kp \<noteq> q \<Longrightarrow> fold (\<lambda>i s. wr q i (phys s kp i) s) [0..<n] s =
     s\<lparr>phys := (phys s)(q := (\<lambda>i. if i < n then phys s kp i else phys s q i))\<rparr>"
  by (induction n) (auto simp: wr_def fun_eq_iff)

lemma tgt_page2pa [simp]: "p < 2 ^ 52 \<Longrightarrow> tgt (page2pa p) = p"
  by (simp add: tgt_def)

lemma three_pages:
  assumes "alloc_inv s (p # p2 # p3 # ps)"
  shows "distinct [p, p2, p3]" "p < npages s" "p2 < npages s" "p3 < npages s" "npages s \<le> 2 ^ 20"
    "pp_link (pages s p) = Some p2" "pp_link (pages s p2) = Some p3"
    "pp_ref (pages s p) = 0" "pp_ref (pages s p2) = 0" "pp_ref (pages s p3) = 0"
  using alloc_invD(2,3) [OF assms] alloc_invD(5,6) [OF assms] assms
  by (auto simp: alloc_inv_def free_pages_def)

lemma inc_ref_frame [simp]:
  "phys (inc_ref p s) = phys s" "npages (inc_ref p s) = npages s" "envs (inc_ref p s) = envs s"
  "boot_pml4e (inc_ref p s) = boot_pml4e s"
  by (simp_all add: inc_ref_def)

lemma env_setup_tables_ok:
  assumes np: "npages u \<le> 2 ^ 20" and p: "distinct [p, p2, p3]" "p < npages u" "p2 < npages u" "p3 < npages u"
    and k: "boot_pml4e u \<notin> {p, p2, p3}" "kern_pdpe u \<notin> {p, p2, p3}" "kern_pgdir u \<notin> {p, p2, p3}"
      "kern_pdpe u < npages u" "kern_pgdir u < npages u"
  shows "env_setup_tables e p p2 p3 u =
    Some (wr p 2 (page2pa p OR PTE_P OR PTE_U) (upd_env e (\<lambda>v. v\<lparr>env_pml4e := Some p, env_cr3 := page2pa p\<rparr>)
      (inc_ref p3 (inc_ref p2 (inc_ref p (u\<lparr>phys := (phys u)(p := (phys u p)(0 := table_pte p2),
        p2 := (phys u p2)(3 := table_pte p3),
        p3 := (\<lambda>i. if i < 512 then phys u (kern_pgdir u) i else phys u p3 i))\<rparr>))))))"
proof -
  have K: "KADDR v (PTE_ADDR x) = Some (tgt x)" if "npages v = npages u" "tgt x < npages u" for v x
    using that np by (intro KADDR_tgt) auto
  have s: "p < 2 ^ 52" "p2 < 2 ^ 52" "p3 < 2 ^ 52" using np p by auto
  define u1 where "u1 = wr p2 3 (table_pte p3) (wr p 0 (table_pte p2)
      (upd_env e (\<lambda>v. v\<lparr>env_pml4e := Some p\<rparr>) u))"
  define u2 where "u2 = inc_ref p3 (inc_ref p2 (inc_ref p u1))"
  have f: "phys u2 = (phys u)(p := (phys u p)(0 := table_pte p2), p2 := (phys u p2)(3 := table_pte p3))"
    "npages u2 = npages u" "boot_pml4e u2 = boot_pml4e u"
    using p by (auto simp: u2_def u1_def)
  have "env_setup_tables e p p2 p3 u =
      Some (wr p 2 (page2pa p OR PTE_P OR PTE_U) (upd_env e (\<lambda>v. v\<lparr>env_cr3 := page2pa p\<rparr>)
        (fold (\<lambda>i v. wr p3 i (phys v (kern_pgdir u) i) v) [0..<512] u2)))"
    using p k s
    by (simp add: env_setup_tables_def K table_pte_def [symmetric] NPTENTRIES_def Let_def
        kern_pdpe_def [symmetric] kern_pgdir_def [symmetric] u1_def [symmetric] u2_def [symmetric] f)
  also have "fold (\<lambda>i v. wr p3 i (phys v (kern_pgdir u) i) v) [0..<512] u2 =
      u2\<lparr>phys := (phys u2)(p3 := (\<lambda>i. if i < 512 then phys u2 (kern_pgdir u) i else phys u2 p3 i))\<rparr>"
    using k by (intro copy_dir) auto
  finally show ?thesis
    using p k unfolding f
    by (auto intro!: kstate.equality simp: u2_def u1_def inc_ref_def fun_eq_iff)
qed

lemma env_setup_vm_ok:
  assumes a: "alloc_inv s (p # p2 # p3 # ps)" and k: "kern_ok s (p # p2 # p3 # ps) g"
  shows "env_setup_vm e s = Some (0, space_state e p p2 p3 s)"
proof -
  note t = three_pages [OF a]
  note a1 = alloc_state_inv [OF a, of ALLOC_ZERO]
  note a2 = alloc_state_inv [OF a1, of ALLOC_ZERO]
  define u where "u = alloc_state ALLOC_ZERO p3 (alloc_state ALLOC_ZERO p2 (alloc_state ALLOC_ZERO p s))"
  have kd: "boot_pml4e s \<notin> {p, p2, p3}" "kern_pdpe s \<notin> {p, p2, p3}" "kern_pgdir s \<notin> {p, p2, p3}"
    "kern_pdpe s < npages s" "kern_pgdir s < npages s"
    using k by (auto simp: kern_ok_def)
  have u: "u = s\<lparr>phys := (phys s)(p := (\<lambda>_. 0), p2 := (\<lambda>_. 0), p3 := (\<lambda>_. 0)),
      pages := (pages s)(p := (pages s p)\<lparr>pp_link := None\<rparr>, p2 := (pages s p2)\<lparr>pp_link := None\<rparr>,
        p3 := (pages s p3)\<lparr>pp_link := None\<rparr>), page_free_list := pp_link (pages s p3)\<rparr>"
    using t(1) by (intro kstate.equality) (simp_all add: u_def alloc_state_def ALLOC_ZERO_def)
  have ku: "kern_pdpe u = kern_pdpe s" "kern_pgdir u = kern_pgdir s"
    using kd by (simp_all add: kern_pdpe_def kern_pgdir_def u)
  have "env_setup_vm e s = do { s \<leftarrow> env_setup_tables e p p2 p3 u; Some (0, s) }"
    by (simp add: env_setup_vm_def page_alloc_head [OF a] page_alloc_head [OF a1] page_alloc_head [OF a2] u_def)
  also have "env_setup_tables e p p2 p3 u = Some (space_state e p p2 p3 s)"
  proof (subst env_setup_tables_ok)
    show "Some (wr p 2 (page2pa p OR PTE_P OR PTE_U) (upd_env e (\<lambda>v. v\<lparr>env_pml4e := Some p, env_cr3 := page2pa p\<rparr>)
      (inc_ref p3 (inc_ref p2 (inc_ref p (u\<lparr>phys := (phys u)(p := (phys u p)(0 := table_pte p2),
        p2 := (phys u p2)(3 := table_pte p3),
        p3 := (\<lambda>i. if i < 512 then phys u (kern_pgdir u) i else phys u p3 i))\<rparr>)))))) =
      Some (space_state e p p2 p3 s)"
      unfolding ku unfolding u
      using t(1) kd
      by (auto intro!: kstate.equality simp: space_state_def space_mem_def space_pages_def inc_ref_def fun_eq_iff)
  qed (use t kd ku u in simp_all)
  finally show ?thesis by simp
qed

section \<open>Adding the space to the others\<close>

text \<open>Paths through tables whose contents stay are not affected by what happens elsewhere.\<close>

lemma entry_same_tables:
  assumes T: "tree_inv m lv ow"
    and same: "\<And>q j. lv q \<noteq> 0 \<Longrightarrow> m' q j = m q j" "\<And>q. lv q \<noteq> 0 \<Longrightarrow> ow' q = ow q"
  shows "lv q = length js \<Longrightarrow> js \<noteq> [] \<Longrightarrow> owned m ow q js \<Longrightarrow>
    entry m' q js = entry m q js \<and> owned m' ow' q js"
proof (induction js arbitrary: q)
  case (Cons j js)
  show ?case
  proof (cases js)
    case Nil
    then show ?thesis using Cons.prems same [of q] by simp
  next
    case (Cons j' js')
    then have "Suc (lv (tgt (m q j))) = lv q" if "m q j \<noteq> 0"
      using Cons.prems that by (intro tree_invD(1) [OF T]) auto
    then show ?thesis using Cons.prems Cons.IH [of "tgt (m q j)"] same [of q] Cons by auto
  qed
qed simp

lemma space_state_simps [simp]:
  "phys (space_state e p p2 p3 s) = space_mem p p2 p3 s"
  "pages (space_state e p p2 p3 s) = space_pages p p2 p3 s"
  "npages (space_state e p p2 p3 s) = npages s"
  "page_free_list (space_state e p p2 p3 s) = pp_link (pages s p3)"
  "boot_pml4e (space_state e p p2 p3 s) = boot_pml4e s"
  "env_free_list (space_state e p p2 p3 s) = env_free_list s"
  "curenv (space_state e p p2 p3 s) = curenv s"
  "envs (space_state e p p2 p3 s) = (envs s)(e := (envs s e)\<lparr>env_pml4e := Some p, env_cr3 := page2pa p\<rparr>)"
  by (simp_all add: space_state_def curenv_def)

lemma space_ghost_simps [simp]:
  "lev (space_ghost p p2 p3 g) = (lev g)(p := 4, p2 := 3, p3 := 2)"
  "own (space_ghost p p2 p3 g) = (own g)(p := (\<lambda>i. i \<noteq> 2), p2 := (\<lambda>_. True), p3 := (\<lambda>i. i < 380))"
  "held (space_ghost p p2 p3 g) = (held g)(p := 1, p2 := 1, p3 := 1)"
  by (simp_all add: space_ghost_def)

lemma space_facts:
  assumes inv: "vm_inv s (p # p2 # p3 # ps) g" and k: "kern_ok s (p # p2 # p3 # ps) g"
  shows "lev g p = 0" "lev g p2 = 0" "lev g p3 = 0"
    and "q \<notin> {p, p2, p3} \<Longrightarrow> space_mem p p2 p3 s q = phys s q"
    and "tree_inv (space_mem p p2 p3 s) (lev (space_ghost p p2 p3 g)) (own (space_ghost p p2 p3 g))"
    and "leafs (space_mem p p2 p3 s) (lev (space_ghost p p2 p3 g)) (own (space_ghost p p2 p3 g)) q =
      leafs (phys s) (lev g) (own g) q"
proof -
  note t = three_pages [OF vm_invD(1) [OF inv]]
  have T: "tree_inv (phys s) (lev g) (own g)" by (rule vm_invD(2) [OF inv])
  show l: "lev g p = 0" "lev g p2 = 0" "lev g p3 = 0" using table_not_free [OF inv] by auto
  show "q \<notin> {p, p2, p3} \<Longrightarrow> space_mem p p2 p3 s q = phys s q" by (simp add: space_mem_def)
  have z: "phys s (kern_pgdir s) i = 0" if "i < 380" for i using k that by (simp add: kern_ok_def)
  have no: "tgt (phys s q j) \<notin> {p, p2, p3}" if "2 \<le> lev g q" "own g q j" "phys s q j \<noteq> 0" for q j
    using tree_invD(1) [OF T that] l that by auto
  have new: "tgt (table_pte p2) = p2" "tgt (table_pte p3) = p3" using t by simp_all
  show "leafs (space_mem p p2 p3 s) (lev (space_ghost p p2 p3 g)) (own (space_ghost p p2 p3 g)) q =
      leafs (phys s) (lev g) (own g) q"
    using l by (auto simp: leafs_def space_mem_def split: if_splits)
  show "tree_inv (space_mem p p2 p3 s) (lev (space_ghost p p2 p3 g)) (own (space_ghost p p2 p3 g))"
  proof -
    define lv ow m where "lv = lev (space_ghost p p2 p3 g)" and "ow = own (space_ghost p p2 p3 g)"
      and "m = space_mem p p2 p3 s"
    have lv: "lv p = 4" "lv p2 = 3" "lv p3 = 2" and lv': "\<And>q. q \<notin> {p, p2, p3} \<Longrightarrow> lv q = lev g q"
      using t(1) by (simp_all add: lv_def)
    have c: "(q = p \<and> j = 0 \<and> tgt (m q j) = p2) \<or> (q = p2 \<and> j = 3 \<and> tgt (m q j) = p3) \<or>
        (q \<notin> {p, p2, p3} \<and> m q j = phys s q j \<and> 2 \<le> lev g q \<and> own g q j \<and> tgt (m q j) \<notin> {p, p2, p3})"
      if "2 \<le> lv q" "ow q j" "m q j \<noteq> 0" for q j
      using that t(1) z new no [of q j] by (auto simp: lv_def ow_def m_def space_mem_def split: if_splits)
    have "Suc (lv (tgt (m q j))) = lv q" if "2 \<le> lv q" "ow q j" "m q j \<noteq> 0" for q j
      using c [OF that] tree_invD(1) [OF T, of q j] lv lv' that by auto
    moreover have "q = r \<and> j = i" if "2 \<le> lv q" "2 \<le> lv r" "ow q j" "ow r i" "m q j \<noteq> 0" "m r i \<noteq> 0"
      "tgt (m q j) = tgt (m r i)" for q r j i
      using c [OF that(1,3,5)] c [OF that(2,4,6)] tree_invD(2) [OF T, of q r j i] t(1) that(5-7) by auto
    moreover have "m q j AND 7 = 7" if "2 \<le> lv q" "ow q j" "m q j \<noteq> 0" for q j
      using c [OF that] tree_invD(3) [OF T, of q j] t(1) that by (auto simp: m_def space_mem_def)
    ultimately show ?thesis
      unfolding lv_def [symmetric] ow_def [symmetric] m_def [symmetric] tree_inv_def by blast
  qed
qed

lemma space_vm_inv:
  assumes inv: "vm_inv s (p # p2 # p3 # ps) g" and k: "kern_ok s (p # p2 # p3 # ps) g"
  shows "vm_inv (space_state e p p2 p3 s) ps (space_ghost p p2 p3 g)"
proof -
  have a: "alloc_inv s (p # p2 # p3 # ps)" by (rule vm_invD(1) [OF inv])
  note t = three_pages [OF a] and f = space_facts [OF inv k]
  have nf: "p \<notin> set ps" "p2 \<notin> set ps" "p3 \<notin> set ps" using alloc_invD(2) [OF a] by auto
  have h: "held g q = 0 \<and> leafs (phys s) (lev g) (own g) q = {}" if "q \<in> {p, p2, p3}" for q
    using that held_not_free [OF inv, of q] leaf_not_free [OF inv, of _ q] t by fastforce
  have "chain (\<lambda>q. pp_link (space_pages p p2 p3 s q)) (pp_link (pages s p3)) ps =
      chain (\<lambda>q. pp_link (pages s q)) (pp_link (pages s p3)) ps"
    using nf by (intro chain_cong) (auto simp: space_pages_def)
  then have "alloc_inv (space_state e p p2 p3 s) ps"
    using a nf by (auto simp: alloc_inv_def free_pages_def space_pages_def)
  moreover have "unat (pp_ref (space_pages p p2 p3 s q)) =
      card (leafs (phys s) (lev g) (own g) q) + held (space_ghost p p2 p3 g) q" if "q < npages s" for q
    using vm_invD(9) [OF inv that] h [of q] t by (auto simp: space_pages_def)
  moreover have "q \<noteq> 0 \<and> q < npages s \<and> held (space_ghost p p2 p3 g) q \<noteq> 0"
    if "lev (space_ghost p p2 p3 g) q \<noteq> 0" for q
    using that vm_invD(4-6) [OF inv, of q] t alloc_invD(4) [OF a] by (auto split: if_splits)
  moreover have "tgt (space_mem p p2 p3 s q j) \<noteq> 0 \<and> tgt (space_mem p p2 p3 s q j) < npages s"
    if "lev (space_ghost p p2 p3 g) q = 1" "own (space_ghost p p2 p3 g) q j" "space_mem p p2 p3 s q j \<noteq> 0" for q j
    using that vm_invD(7,8) [OF inv, of q j] f(1-3) f(4) [of q] by (auto split: if_splits)
  ultimately show ?thesis
    unfolding vm_inv_def space_state_simps f(6) using f(5) by blast
qed

lemma space_others:
  assumes inv: "vm_inv s (p # p2 # p3 # ps) g" and k: "kern_ok s (p # p2 # p3 # ps) g" and ok: "addr_ok s g r a"
  shows "addr_ok (space_state e p p2 p3 s) (space_ghost p p2 p3 g) r a"
    and "pte_at (space_state e p p2 p3 s) r a = pte_at s r a"
proof -
  note f = space_facts [OF inv k]
  have same: "space_mem p p2 p3 s q j = phys s q j" "own (space_ghost p p2 p3 g) q = own g q" if "lev g q \<noteq> 0" for q j
  proof -
    have "q \<notin> {p, p2, p3}" using f(1-3) that by auto
    then show "space_mem p p2 p3 s q j = phys s q j" "own (space_ghost p p2 p3 g) q = own g q"
      using f(4) [of q] by simp_all
  qed
  have "r \<notin> {p, p2, p3}" using f(1-3) ok by (auto simp: addr_ok_def)
  moreover have "entry (space_mem p p2 p3 s) r (path a) = entry (phys s) r (path a) \<and>
      owned (space_mem p p2 p3 s) (own (space_ghost p p2 p3 g)) r (path a)"
    by (rule entry_same_tables [OF vm_invD(2) [OF inv] same]) (use ok in \<open>simp_all add: addr_ok_def\<close>)
  ultimately
  show "addr_ok (space_state e p p2 p3 s) (space_ghost p p2 p3 g) r a"
    "pte_at (space_state e p p2 p3 s) r a = pte_at s r a"
    using ok by (simp_all add: addr_ok_def pte_at_def)
qed

lemma space_empty:
  assumes inv: "vm_inv s (p # p2 # p3 # ps) g" and k: "kern_ok s (p # p2 # p3 # ps) g" and a: "a < UTOP"
  shows "addr_ok (space_state e p p2 p3 s) (space_ghost p p2 p3 g) p a"
    and "pte_at (space_state e p p2 p3 s) p a = 0"
proof -
  note t = three_pages [OF vm_invD(1) [OF inv]] and u = user_index [OF a]
  have "phys s (kern_pgdir s) i = 0" if "i < 380" for i using k that by (simp add: kern_ok_def)
  with t u show "addr_ok (space_state e p p2 p3 s) (space_ghost p p2 p3 g) p a"
    "pte_at (space_state e p p2 p3 s) p a = 0"
    by (auto simp: addr_ok_def pte_at_def path_def space_mem_def)
qed

text \<open>The addresses of the gigabyte around \<open>UTOP\<close> from \<open>UTOP\<close> on.\<close>

lemma kernel_index:
  assumes "UTOP \<le> a" and "a \<le> 0xFFFFFFFF"
  shows "PML4 a = 0" "PDPE a = 3" "PDX a < 512"
proof -
  have v: "0xEF800000 \<le> unat a" "unat a \<le> 0xFFFFFFFF"
    using assms unat_UTOP by (simp_all add: word_le_nat_alt)
  then show "PML4 a = 0" by (simp add: unat_index)
  have "unat a div 2 ^ 30 = 3" by (rule div_nat_eqI) (use v in simp_all)
  then show "PDPE a = 3" by (simp add: unat_index)
  show "PDX a < 512" by (simp add: unat_index)
qed

lemma space_kernel:
  assumes inv: "vm_inv s (p # p2 # p3 # ps) g" and k: "kern_ok s (p # p2 # p3 # ps) g"
    and a: "UTOP \<le> a" "a \<le> 0xFFFFFFFF"
  shows "pte_at (space_state e p p2 p3 s) p a = pte_at (space_state e p p2 p3 s) (boot_pml4e s) a"
proof -
  note t = three_pages [OF vm_invD(1) [OF inv]] and i = kernel_index [OF a]
  have d: "boot_pml4e s \<notin> {p, p2, p3}" "kern_pdpe s \<notin> {p, p2, p3}" "kern_pgdir s \<notin> {p, p2, p3}"
    "phys s (boot_pml4e s) 0 \<noteq> 0" "phys s (kern_pdpe s) 3 \<noteq> 0"
    using k by (auto simp: kern_ok_def)
  let ?m = "space_mem p p2 p3 s"
  have m: "?m p 0 = table_pte p2" "?m p2 3 = table_pte p3" "?m p3 (PDX a) = phys s (kern_pgdir s) (PDX a)"
    "?m (boot_pml4e s) 0 = phys s (boot_pml4e s) 0" "?m (kern_pdpe s) 3 = phys s (kern_pdpe s) 3"
    "?m (kern_pgdir s) (PDX a) = phys s (kern_pgdir s) (PDX a)"
    using t(1) d i(3) by (auto simp: space_mem_def)
  have "entry ?m p (path a) = entry ?m p3 [PDX a, PTX a]"
    unfolding path_def i(1,2) using t m by simp
  moreover have "entry ?m (boot_pml4e s) (path a) = entry ?m (kern_pgdir s) [PDX a, PTX a]"
    unfolding path_def i(1,2) using d m
    by (simp add: kern_pdpe_def [symmetric] kern_pgdir_def [symmetric] del: entry_simps add: entry_simps(2))
  ultimately show ?thesis using m by (simp add: pte_at_def)
qed

end
