(* ===== verification/Syscall.thy ===== *)
theory Syscall
  imports Env
begin

text \<open>
  The clock of kern/time.c, \<open>user_mem_assert\<close> of kern/pmap.c, and the system calls and
  their dispatcher of kern/syscall.c. What the kernel prints for diagnosis is left out;
  \<open>sys_cputs\<close> writes to the console of the model.
\<close>

section \<open>The clock (kern/time.c)\<close>

definition time_init :: "kstate \<Rightarrow> kstate" where
  "time_init s = s\<lparr>ticks := 0\<rparr>"

definition time_tick :: "kstate \<Rightarrow> kstate option" where
  "time_tick s =
     (let t = ticks s + 1 in if t * 10 < t then None else Some (s\<lparr>ticks := t\<rparr>))"

definition time_msec :: "kstate \<Rightarrow> u32" where
  "time_msec s = ticks s * 10"

section \<open>Checking user pointers\<close>

definition user_mem_assert :: "nat \<Rightarrow> u64 \<Rightarrow> u64 \<Rightarrow> u64 \<Rightarrow> kstate \<Rightarrow> unit ctl option" where
  "user_mem_assert e va len perm s = do {
     pml4e \<leftarrow> env_pml4e (envs s e);
     (r, s) \<leftarrow> user_mem_check pml4e va len (perm OR PTE_U) s;
     if r < 0 then env_destroy e s else Some (Returns () s)
   }"

section \<open>Console and identity\<close>

text \<open>
  The conversion \<open>%.*s\<close> of \<open>cprintf\<close>: it reads a character, stops at NUL, then
  stops when the precision is used up.
\<close>

partial_function (option) print_str :: "u64 \<Rightarrow> int \<Rightarrow> kstate \<Rightarrow> kstate option" where
  "print_str p precision s = do {
     ch \<leftarrow> kload p s;
     if ch = 0 \<or> precision = 0 then Some s
     else print_str (p + 1) (if precision < 0 then precision else precision - 1)
            (s\<lparr>cons := cputchar (uint ch) (cons s)\<rparr>)
   }"

definition sys_cputs :: "u64 \<Rightarrow> u64 \<Rightarrow> kstate \<Rightarrow> unit ctl option" where
  "sys_cputs p len s = do {
     e \<leftarrow> curenv s;
     cbind (user_mem_assert e p len PTE_U s)
       (\<lambda>_ s. do { s \<leftarrow> print_str p (sint (ucast len :: u32)) s; Some (Returns () s) })
   }"

definition sys_cgetc :: "kstate \<Rightarrow> (int \<times> kstate) option" where
  "sys_cgetc s = do { (ch, c) \<leftarrow> cons_getc (cons s); Some (ch, s\<lparr>cons := c\<rparr>) }"

definition sys_getenvid :: "kstate \<Rightarrow> int option" where
  "sys_getenvid s = do { e \<leftarrow> curenv s; Some (sint (env_id (envs s e))) }"

section \<open>Environments\<close>

definition sys_env_destroy :: "envid_t \<Rightarrow> kstate \<Rightarrow> int ctl option" where
  "sys_env_destroy envid s = do {
     (r, e) \<leftarrow> envid2env envid True s;
     if r < 0 then Some (Returns r s)
     else do { e \<leftarrow> e; cbind (env_destroy e s) (\<lambda>_ s. Some (Returns 0 s)) }
   }"

definition sys_yield :: "kstate \<Rightarrow> 'a ctl option" where
  "sys_yield s = sched_yield s"

definition sys_exofork :: "kstate \<Rightarrow> (int \<times> kstate) option" where
  "sys_exofork s = do {
     c \<leftarrow> curenv s;
     (result, e, s) \<leftarrow> env_alloc (env_id (envs s c)) s;
     if result \<noteq> 0 then Some (- E_NO_FREE_ENV, s)
     else do {
       e \<leftarrow> e;
       let tf = env_tf (envs s c);
       let s = upd_env e (\<lambda>v. v\<lparr>env_status := ENV_NOT_RUNNABLE,
                 env_tf := tf\<lparr>tf_regs := (tf_regs tf)\<lparr>reg_rax := 0\<rparr>\<rparr>\<rparr>) s;
       Some (sint (env_id (envs s e)), s)
     }
   }"

text \<open>The status is an \<open>int\<close>; the two values the call accepts are 2 and 4.\<close>

definition sys_env_set_status :: "envid_t \<Rightarrow> u32 \<Rightarrow> kstate \<Rightarrow> (int \<times> kstate) option" where
  "sys_env_set_status envid status s = do {
     (result, e) \<leftarrow> envid2env envid True s;
     if result \<noteq> 0 then Some (result, s)
     else if status \<noteq> 2 \<and> status \<noteq> 4 then Some (- E_INVAL, s)
     else do {
       e \<leftarrow> e;
       Some (result, upd_env e (\<lambda>v. v\<lparr>env_status := (if status = 2 then ENV_RUNNABLE else ENV_NOT_RUNNABLE)\<rparr>) s)
     }
   }"

text \<open>\<open>*tf\<close> is read field by field through the caller's page tables.\<close>

definition load_regs :: "u64 \<Rightarrow> kstate \<Rightarrow> PushRegs option" where
  "load_regs p s = do {
     r15 \<leftarrow> kload64 p s; r14 \<leftarrow> kload64 (p + 8) s; r13 \<leftarrow> kload64 (p + 16) s; r12 \<leftarrow> kload64 (p + 24) s;
     r11 \<leftarrow> kload64 (p + 32) s; r10 \<leftarrow> kload64 (p + 40) s; r9 \<leftarrow> kload64 (p + 48) s; r8 \<leftarrow> kload64 (p + 56) s;
     rsi \<leftarrow> kload64 (p + 64) s; rdi \<leftarrow> kload64 (p + 72) s; rbp \<leftarrow> kload64 (p + 80) s; rdx \<leftarrow> kload64 (p + 88) s;
     rcx \<leftarrow> kload64 (p + 96) s; rbx \<leftarrow> kload64 (p + 104) s; rax \<leftarrow> kload64 (p + 112) s;
     Some \<lparr>reg_r15 = r15, reg_r14 = r14, reg_r13 = r13, reg_r12 = r12, reg_r11 = r11, reg_r10 = r10, reg_r9 = r9,
       reg_r8 = r8, reg_rsi = rsi, reg_rdi = rdi, reg_rbp = rbp, reg_rdx = rdx, reg_rcx = rcx, reg_rbx = rbx,
       reg_rax = rax\<rparr>
   }"

definition load_trapframe :: "u64 \<Rightarrow> kstate \<Rightarrow> Trapframe option" where
  "load_trapframe p s = do {
     rs \<leftarrow> load_regs p s;
     es \<leftarrow> kload64 (p + 120) s; ds \<leftarrow> kload64 (p + 128) s; trapno \<leftarrow> kload64 (p + 136) s;
     err \<leftarrow> kload64 (p + 144) s; rip \<leftarrow> kload64 (p + 152) s; cs \<leftarrow> kload64 (p + 160) s;
     eflags \<leftarrow> kload64 (p + 168) s; rsp \<leftarrow> kload64 (p + 176) s; ss \<leftarrow> kload64 (p + 184) s;
     Some \<lparr>tf_regs = rs, tf_es = ucast es, tf_ds = ucast ds, tf_trapno = trapno, tf_err = err, tf_rip = rip,
       tf_cs = ucast cs, tf_eflags = eflags, tf_rsp = rsp, tf_ss = ucast ss\<rparr>
   }"

definition sys_env_set_trapframe :: "envid_t \<Rightarrow> u64 \<Rightarrow> kstate \<Rightarrow> (int \<times> kstate) option" where
  "sys_env_set_trapframe envid tf s = do {
     (result, e) \<leftarrow> envid2env envid True s;
     if result \<noteq> 0 then Some (- E_BAD_ENV, s)
     else do {
       e \<leftarrow> e;
       v \<leftarrow> load_trapframe tf s;
       Some (result, upd_env e (\<lambda>x. x\<lparr>env_tf := v\<rparr>) s)
     }
   }"

definition sys_env_set_pgfault_upcall :: "envid_t \<Rightarrow> u64 \<Rightarrow> kstate \<Rightarrow> (int \<times> kstate) option" where
  "sys_env_set_pgfault_upcall envid func s = do {
     (result, e) \<leftarrow> envid2env envid True s;
     if result \<noteq> 0 then Some (- E_BAD_ENV, s)
     else do { e \<leftarrow> e; Some (result, upd_env e (\<lambda>v. v\<lparr>env_pgfault_upcall := func\<rparr>) s) }
   }"

section \<open>Memory\<close>

definition bad_va :: "u64 \<Rightarrow> bool" where
  "bad_va va \<longleftrightarrow> UTOP \<le> va \<or> ROUNDUP va PGSIZE \<noteq> va"

text \<open>\<open>~PTE_SYSCALL\<close> and \<open>PTE_U|PTE_P\<close> are \<open>int\<close>s like \<open>perm\<close>.\<close>

definition bad_perm :: "u32 \<Rightarrow> bool" where
  "bad_perm perm \<longleftrightarrow>
     perm AND ucast (PTE_U OR PTE_P) \<noteq> ucast (PTE_U OR PTE_P) \<or> perm AND NOT (ucast PTE_SYSCALL) \<noteq> 0"

definition sys_page_alloc :: "envid_t \<Rightarrow> u64 \<Rightarrow> u32 \<Rightarrow> kstate \<Rightarrow> (int \<times> kstate) option" where
  "sys_page_alloc envid va perm s = do {
     (result, e) \<leftarrow> envid2env envid True s;
     if result \<noteq> 0 then Some (- E_BAD_ENV, s)
     else if bad_va va then Some (- E_INVAL, s)
     else if bad_perm perm then Some (- E_INVAL, s)
     else do {
       e \<leftarrow> e;
       (p, s) \<leftarrow> page_alloc ALLOC_ZERO s;
       (case p of
          None \<Rightarrow> Some (- E_NO_MEM, s)
        | Some p \<Rightarrow> do {
            pml4e \<leftarrow> env_pml4e (envs s e);
            (result, s) \<leftarrow> page_insert pml4e p (ROUNDDOWN va PGSIZE) perm s;
            s \<leftarrow> (if result \<noteq> 0 then page_free p s else Some s);
            Some (result, s)
          })
     }
   }"

definition sys_page_map :: "envid_t \<Rightarrow> u64 \<Rightarrow> envid_t \<Rightarrow> u64 \<Rightarrow> u32 \<Rightarrow> kstate \<Rightarrow> (int \<times> kstate) option" where
  "sys_page_map srcenvid srcva dstenvid dstva perm s = do {
     (result_src, src_env) \<leftarrow> envid2env srcenvid True s;
     (result_dst, dst_env) \<leftarrow> envid2env dstenvid True s;
     if result_src \<noteq> 0 \<or> result_dst \<noteq> 0 then Some (- E_BAD_ENV, s)
     else if bad_va srcva \<or> bad_va dstva then Some (- E_INVAL, s)
     else do {
       src_env \<leftarrow> src_env;
       dst_env \<leftarrow> dst_env;
       src_root \<leftarrow> env_pml4e (envs s src_env);
       r \<leftarrow> page_lookup src_root srcva s;
       (case r of
          None \<Rightarrow> Some (- E_INVAL, s)
        | Some (src_page, _, _) \<Rightarrow> do {
            dst_root \<leftarrow> env_pml4e (envs s dst_env);
            (result, s) \<leftarrow> page_insert dst_root src_page dstva perm s;
            if result \<noteq> 0 then Some (- E_NO_MEM, s) else Some (result, s)
          })
     }
   }"

definition sys_page_unmap :: "envid_t \<Rightarrow> u64 \<Rightarrow> kstate \<Rightarrow> (int \<times> kstate) option" where
  "sys_page_unmap envid va s = do {
     (result, e) \<leftarrow> envid2env envid True s;
     if result \<noteq> 0 then Some (- E_BAD_ENV, s)
     else if bad_va va then Some (- E_INVAL, s)
     else do {
       e \<leftarrow> e;
       pml4e \<leftarrow> env_pml4e (envs s e);
       s \<leftarrow> page_remove pml4e va s;
       Some (0, s)
     }
   }"

section \<open>Interprocess communication\<close>

definition sys_ipc_try_send :: "envid_t \<Rightarrow> u32 \<Rightarrow> u64 \<Rightarrow> u32 \<Rightarrow> kstate \<Rightarrow> (int \<times> kstate) option" where
  "sys_ipc_try_send envid value srcva perm s = do {
     (r, dstenv) \<leftarrow> envid2env envid False s;
     if r < 0 then Some (- E_BAD_ENV, s)
     else do {
       (r, srcenv) \<leftarrow> envid2env 0 False s;
       dst \<leftarrow> dstenv;
       if r < 0 then Some (- E_BAD_ENV, s)
       else if \<not> env_ipc_recving (envs s dst) then Some (- E_IPC_NOT_RECV, s)
       else do {
         src \<leftarrow> srcenv;
         let s = upd_env dst (\<lambda>v. v\<lparr>env_ipc_recving := False, env_ipc_from := env_id (envs s src),
                   env_ipc_value := value\<rparr>) s;
         if srcva < UTOP then do {
           src_root \<leftarrow> env_pml4e (envs s src);
           l \<leftarrow> page_lookup src_root srcva s;
           (case l of
              None \<Rightarrow> Some (- E_INVAL, s)
            | Some (src_page, _, _) \<Rightarrow> do {
                dst_root \<leftarrow> env_pml4e (envs s dst);
                (result_dst, s) \<leftarrow> page_insert dst_root src_page (env_ipc_dstva (envs s dst)) perm s;
                if result_dst \<noteq> 0 then Some (- E_NO_MEM, s)
                else Some (0, upd_env dst (\<lambda>v. v\<lparr>env_ipc_perm := perm, env_status := ENV_RUNNABLE\<rparr>) s)
              })
         }
         else Some (0, upd_env dst (\<lambda>v. v\<lparr>env_ipc_perm := 0, env_status := ENV_RUNNABLE\<rparr>) s)
       }
     }
   }"

definition sys_ipc_recv :: "u64 \<Rightarrow> kstate \<Rightarrow> (int \<times> kstate) option" where
  "sys_ipc_recv dstva s = do {
     (r, env) \<leftarrow> envid2env 0 False s;
     if r < 0 then None
     else if dstva < UTOP \<and> dstva mod PGSIZE \<noteq> 0 then Some (- E_INVAL, s)
     else do {
       e \<leftarrow> env;
       Some (0, upd_env e (\<lambda>v. v\<lparr>env_ipc_recving := True, env_ipc_dstva := dstva, env_ipc_value := 0,
         env_ipc_perm := 0, env_ipc_from := 0, env_status := ENV_NOT_RUNNABLE\<rparr>) s)
     }
   }"

section \<open>Time and network\<close>

definition sys_time_msec :: "kstate \<Rightarrow> int" where
  "sys_time_msec s = sint (time_msec s)"

definition sys_net_try_send :: "u64 \<Rightarrow> u32 \<Rightarrow> kstate \<Rightarrow> (int \<times> kstate) option" where
  "sys_net_try_send data len s =
     (if UTOP \<le> data then Some (- E_INVAL, s)
      else do {
        (r, d) \<leftarrow> e1000_transmit (\<lambda>i. kload (data + of_nat i) s) (sint len) (nic s);
        Some (r, s\<lparr>nic := d\<rparr>)
      })"

definition sys_net_try_receive :: "u64 \<Rightarrow> u64 \<Rightarrow> kstate \<Rightarrow> (int \<times> kstate) option" where
  "sys_net_try_receive data lenp s =
     (if UTOP \<le> data then Some (- E_INVAL, s)
      else do {
        (n, bs, d) \<leftarrow> e1000_receive (nic s);
        s \<leftarrow> kmemcpy data ((!) bs) (length bs) s;
        s \<leftarrow> kmemcpy lenp (get_byte (of_int n)) 4 (s\<lparr>nic := d\<rparr>);
        Some (if 0 < n then 0 else n, s)
      })"

section \<open>The dispatcher\<close>

definition lift :: "(int \<times> kstate) option \<Rightarrow> int ctl option" where
  "lift m = do { (r, s) \<leftarrow> m; Some (Returns r s) }"

definition syscall :: "u64 \<Rightarrow> u64 \<Rightarrow> u64 \<Rightarrow> u64 \<Rightarrow> u64 \<Rightarrow> u64 \<Rightarrow> kstate \<Rightarrow> int ctl option" where
  "syscall syscallno a1 a2 a3 a4 a5 s =
     (if syscallno = 0 then cbind (sys_cputs a1 a2 s) (\<lambda>_ s. Some (Returns 0 s))
      else if syscallno = 1 then lift (sys_cgetc s)
      else if syscallno = 2 then do { r \<leftarrow> sys_getenvid s; Some (Returns r s) }
      else if syscallno = 3 then sys_env_destroy (ucast a1) s
      else if syscallno = 4 then lift (sys_page_alloc (ucast a1) a2 (ucast a3) s)
      else if syscallno = 5 then lift (sys_page_map (ucast a1) a2 (ucast a3) a4 (ucast a5) s)
      else if syscallno = 6 then lift (sys_page_unmap (ucast a1) a2 s)
      else if syscallno = 7 then lift (sys_exofork s)
      else if syscallno = 8 then lift (sys_env_set_status (ucast a1) (ucast a2) s)
      else if syscallno = 9 then lift (sys_env_set_trapframe (ucast a1) a2 s)
      else if syscallno = 10 then lift (sys_env_set_pgfault_upcall (ucast a1) a2 s)
      else if syscallno = 11 then sys_yield s
      else if syscallno = 12 then lift (sys_ipc_try_send (ucast a1) (ucast a2) a3 (ucast a4) s)
      else if syscallno = 13 then lift (sys_ipc_recv a1 s)
      else if syscallno = 14 then Some (Returns (sys_time_msec s) s)
      else if syscallno = 15 then lift (sys_net_try_send a1 (ucast a2) s)
      else if syscallno = 16 then lift (sys_net_try_receive a1 a2 s)
      else Some (Returns (- E_INVAL) s))"

end
