(* ===== verification/Kernel_Inv.thy ===== *)
theory Kernel_Inv
  imports Env_Space Syscall
begin

text \<open>
  The invariant of the whole kernel: memory manager, kernel page directory, free list of
  environments, and one separate address space per live environment.
\<close>

section \<open>Environments\<close>

definition live :: "kstate \<Rightarrow> nat \<Rightarrow> bool" where
  "live s e \<longleftrightarrow> e < NENV \<and> env_status (envs s e) \<noteq> ENV_FREE"

definition env_chain :: "kstate \<Rightarrow> nat list \<Rightarrow> bool" where
  "env_chain s es \<longleftrightarrow>
     chain (\<lambda>e. env_link (envs s e)) (env_free_list s) es \<and>
     set es = {e. e < NENV \<and> env_status (envs s e) = ENV_FREE}"

text \<open>The address space of a live environment: its root, and every user address can be walked.\<close>

definition space_ok :: "kstate \<Rightarrow> vm_ghost \<Rightarrow> nat \<Rightarrow> bool" where
  "space_ok s g e \<longleftrightarrow>
     (\<exists>root. env_pml4e (envs s e) = Some root \<and> env_cr3 (envs s e) = page2pa root \<and>
        lev g root = 4 \<and> (\<forall>a < UTOP. addr_ok s g root a))"

definition kinv :: "kstate \<Rightarrow> nat list \<Rightarrow> nat list \<Rightarrow> vm_ghost \<Rightarrow> bool" where
  "kinv s xs es g \<longleftrightarrow>
     vm_inv s xs g \<and> kern_ok s xs g \<and> env_chain s es \<and>
     (\<forall>e. live s e \<longrightarrow> ENVX (env_id (envs s e)) = e \<and> env_id (envs s e) \<noteq> 0 \<and> space_ok s g e) \<and>
     (\<forall>e e'. live s e \<longrightarrow> live s e' \<longrightarrow> env_pml4e (envs s e) = env_pml4e (envs s e') \<longrightarrow> e = e') \<and>
     (\<forall>e. curenv s = Some e \<longrightarrow> live s e) \<and>
     (\<forall>e < NENV. 0 \<le> sint (env_id (envs s e)))"

lemma kinvD:
  assumes "kinv s xs es g"
  shows "vm_inv s xs g" "kern_ok s xs g" "env_chain s es"
    "live s e \<Longrightarrow> ENVX (env_id (envs s e)) = e" "live s e \<Longrightarrow> env_id (envs s e) \<noteq> 0"
    "live s e \<Longrightarrow> space_ok s g e"
    "live s e \<Longrightarrow> live s e' \<Longrightarrow> env_pml4e (envs s e) = env_pml4e (envs s e') \<Longrightarrow> e = e'"
    "curenv s = Some e \<Longrightarrow> live s e" "e < NENV \<Longrightarrow> 0 \<le> sint (env_id (envs s e))"
  using assms unfolding kinv_def by blast+

lemma space_okE:
  assumes "space_ok s g e"
  obtains root where "env_pml4e (envs s e) = Some root" "env_cr3 (envs s e) = page2pa root" "lev g root = 4"
    "\<And>a. a < UTOP \<Longrightarrow> addr_ok s g root a"
  using assms unfolding space_ok_def by blast

text \<open>The mappings of an environment.\<close>

definition env_pte :: "kstate \<Rightarrow> nat \<Rightarrow> u64 \<Rightarrow> u64" where
  "env_pte s e a = (case env_pml4e (envs s e) of None \<Rightarrow> 0 | Some root \<Rightarrow> pte_at s root a)"

section \<open>envid2env\<close>

lemma ENVX_less [simp]: "ENVX i < NENV"
proof -
  have "unat (i AND 1023) \<le> unat (1023 :: u32)"
    by (rule word_le_nat_alt [THEN iffD1]) (rule word_and_le1)
  then show ?thesis by (simp add: ENVX_def NENV_def)
qed

text \<open>
  A successful lookup names a live environment that is the caller, or has that very id and, if
  permission is checked, is the caller's child.
\<close>

definition may_name :: "kstate \<Rightarrow> envid_t \<Rightarrow> bool \<Rightarrow> nat \<Rightarrow> bool" where
  "may_name s envid checkperm e \<longleftrightarrow>
     (if envid = 0 then curenv s = Some e
      else live s e \<and> ENVX envid = e \<and> env_id (envs s e) = envid \<and>
        (checkperm \<longrightarrow> curenv s = Some e \<or>
           (\<exists>c. curenv s = Some c \<and> env_parent_id (envs s e) = env_id (envs s c))))"

lemma envid2env_cases:
  assumes "curenv s = Some c"
  shows "(\<exists>e. may_name s envid checkperm e \<and> envid2env envid checkperm s = Some (0, Some e)) \<or>
    ((\<forall>e. \<not> may_name s envid checkperm e) \<and> envid2env envid checkperm s = Some (- E_BAD_ENV, None))"
  using assms by (auto simp: envid2env_def may_name_def live_def Let_def)

lemma envid2env_named:
  "curenv s = Some c \<Longrightarrow> may_name s envid b e \<Longrightarrow> envid2env envid b s = Some (0, Some e)"
  by (auto simp: envid2env_def may_name_def live_def Let_def split: if_splits)

lemma envid2env_unnamed:
  "curenv s = Some c \<Longrightarrow> \<nexists>e. may_name s envid b e \<Longrightarrow> envid2env envid b s = Some (- E_BAD_ENV, None)"
  using envid2env_cases [of s c envid b] by blast

lemma may_name_unique: "may_name s envid b e \<Longrightarrow> may_name s envid b' e' \<Longrightarrow> e = e'"
  by (auto simp: may_name_def split: if_splits)

lemma may_name_live: "kinv s xs es g \<Longrightarrow> may_name s envid b e \<Longrightarrow> live s e"
  using kinvD(8) by (auto simp: may_name_def split: if_splits)

section \<open>Steps of the memory manager keep the invariant\<close>

lemma live_mm: "mm_only s s' \<Longrightarrow> live s' e = live s e"
  by (simp add: live_def mm_only_fields)

lemma kern_ok_mm:
  assumes k: "kern_ok s xs g" and m: "mm_only s s'" and inv: "vm_inv s' xs' g'"
    and sg: "same_ghost xs g g'" and kd: "keeps_data xs g s s'"
  shows "kern_ok s' xs' g'"
proof -
  let ?P = "{boot_pml4e s, kern_pdpe s, kern_pgdir s}"
  have f: "p < npages s \<and> p \<notin> set xs \<and> lev g p = 0 \<and> held g p \<noteq> 0" if "p \<in> ?P" for p
    by (rule bspec [OF conjunct1 [OF k [unfolded kern_ok_def]] that])
  have same: "phys s' p i = phys s p i" if "p \<in> ?P" for p i
    using kd f [OF that] unfolding keeps_data_def by blast
  have b: "boot_pml4e s' = boot_pml4e s" "npages s' = npages s" using mm_only_fields [OF m] by simp_all
  then have kp: "kern_pdpe s' = kern_pdpe s" using same by (simp add: kern_pdpe_def)
  then have kg: "kern_pgdir s' = kern_pgdir s" using same by (simp add: kern_pgdir_def)
  have "p < npages s' \<and> p \<notin> set xs' \<and> lev g' p = 0 \<and> held g' p \<noteq> 0" if "p \<in> ?P" for p
    using f [OF that] same_ghostD [OF sg, of p] held_not_free [OF inv, of p] b by simp
  moreover have "phys s (boot_pml4e s) 0 \<noteq> 0" "phys s (kern_pdpe s) 3 \<noteq> 0" "\<And>i. i < 380 \<Longrightarrow> phys s (kern_pgdir s) i = 0"
    using k unfolding kern_ok_def by blast+
  ultimately show ?thesis
    unfolding kern_ok_def b(1) kp kg using same by simp
qed

lemma kinv_mm:
  assumes k: "kinv s xs es g" and m: "mm_only s s'" and inv: "vm_inv s' xs' g'"
    and sg: "same_ghost xs g g'" and kd: "keeps_data xs g s s'"
    and ok: "\<And>r a. addr_ok s g r a \<Longrightarrow> addr_ok s' g' r a"
  shows "kinv s' xs' es g'"
proof -
  note f = mm_only_fields [OF m]
  have "space_ok s' g' e" if "space_ok s g e" for e
  proof -
    from that obtain root where r: "env_pml4e (envs s e) = Some root" "env_cr3 (envs s e) = page2pa root"
      "lev g root = 4" "\<And>a. a < UTOP \<Longrightarrow> addr_ok s g root a" by (rule space_okE) blast
    have "root \<notin> set xs" using table_not_free [OF kinvD(1) [OF k]] r(3) by simp
    then show ?thesis using r ok same_ghostD(1) [OF sg] f by (auto simp: space_ok_def)
  qed
  moreover have "env_chain s' es" using kinvD(3) [OF k] f by (simp add: env_chain_def)
  moreover have "kern_ok s' xs' g'" by (rule kern_ok_mm [OF kinvD(2) [OF k] m inv sg kd])
  ultimately show ?thesis
    using inv kinvD(4-9) [OF k] unfolding kinv_def live_mm [OF m] f by blast
qed

section \<open>Changes of one environment\<close>

lemma vm_inv_cong:
  assumes "phys s' = phys s" "pages s' = pages s" "npages s' = npages s" "page_free_list s' = page_free_list s"
  shows "vm_inv s' xs g = vm_inv s xs g" "addr_ok s' g r a = addr_ok s g r a" "pte_at s' r a = pte_at s r a"
  using assms by (simp_all add: vm_inv_def alloc_inv_def free_pages_def addr_ok_def pte_at_def)

lemma kern_ok_cong:
  assumes "phys s' = phys s" "npages s' = npages s" "boot_pml4e s' = boot_pml4e s"
  shows "kern_ok s' xs g = kern_ok s xs g"
  using assms by (simp add: kern_ok_def kern_pgdir_def kern_pdpe_def)

text \<open>Fields the invariant does not mention may change, and a live environment may not become free.\<close>

lemma kinv_upd_env:
  assumes k: "kinv s xs es g"
    and f: "env_link (f (envs s e)) = env_link (envs s e)"
      "env_id (f (envs s e)) = env_id (envs s e) \<or>
        env_status (envs s e) = ENV_FREE \<and> 0 \<le> sint (env_id (f (envs s e)))"
      "env_pml4e (f (envs s e)) = env_pml4e (envs s e)" "env_cr3 (f (envs s e)) = env_cr3 (envs s e)"
      "env_status (f (envs s e)) = ENV_FREE \<longleftrightarrow> env_status (envs s e) = ENV_FREE"
  shows "kinv (upd_env e f s) xs es g"
proof -
  let ?s = "upd_env e f s"
  have l: "live ?s x = live s x" for x using f by (simp add: live_def)
  have fs: "env_link (envs ?s x) = env_link (envs s x)"
    "env_pml4e (envs ?s x) = env_pml4e (envs s x)" "env_cr3 (envs ?s x) = env_cr3 (envs s x)"
    "env_status (envs ?s x) = ENV_FREE \<longleftrightarrow> env_status (envs s x) = ENV_FREE" for x
    using f by simp_all
  have i: "env_id (envs ?s x) = env_id (envs s x)" if "live s x" for x
    using f(2) that by (auto simp: live_def)
  have i0: "0 \<le> sint (env_id (envs ?s x))" if "x < NENV" for x
    using f(2) kinvD(9) [OF k that] by auto
  have "space_ok ?s g x = space_ok s g x" for x
    unfolding space_ok_def fs using vm_inv_cong(2) [of ?s s] by simp
  moreover have "vm_inv ?s xs g" using kinvD(1) [OF k] vm_inv_cong(1) [of ?s s] by simp
  moreover have "kern_ok ?s xs g" using kinvD(2) [OF k] kern_ok_cong [of ?s s] by simp
  moreover have "env_chain ?s es" using kinvD(3) [OF k] unfolding env_chain_def fs by simp
  ultimately show ?thesis
    using kinvD(4-8) [OF k] i i0 unfolding kinv_def l fs by simp
qed

lemma env_pte_upd_env:
  "env_pml4e (f (envs s e)) = env_pml4e (envs s e) \<Longrightarrow> env_pte (upd_env e f s) x a = env_pte s x a"
  using vm_inv_cong(3) [of "upd_env e f s" s] by (simp add: env_pte_def split: option.splits)

lemma kinv_set_curenv:
  assumes k: "kinv s xs es g" and e: "\<And>e. c = Some e \<Longrightarrow> live s e"
  shows "kinv (set_curenv c s) xs es g" and "env_pte (set_curenv c s) x a = env_pte s x a"
proof -
  let ?s = "set_curenv c s"
  have f: "envs ?s = envs s" "env_free_list ?s = env_free_list s" "curenv ?s = c" "live ?s = live s"
    by (simp_all add: set_curenv_def curenv_def live_def fun_eq_iff)
  have v: "vm_inv ?s xs g = vm_inv s xs g" "addr_ok ?s g r a = addr_ok s g r a" "pte_at ?s r a = pte_at s r a" for r a
    using vm_inv_cong [of ?s s] by (simp_all add: set_curenv_def)
  have "kern_ok ?s xs g = kern_ok s xs g" using kern_ok_cong [of ?s s] by (simp add: set_curenv_def)
  then show "kinv ?s xs es g"
    using k e unfolding kinv_def env_chain_def space_ok_def f v by auto
  show "env_pte (set_curenv c s) x a = env_pte s x a" by (simp add: env_pte_def f v split: option.split)
qed

end
