(* ===== verification/Syscall_Spec.thy ===== *)
theory Syscall_Spec
  imports Kernel_Inv
begin

text \<open>
  What the system calls of kern/syscall.c do to the mappings of all environments, and that they
  keep the invariant of the kernel.
\<close>

section \<open>A page between page_alloc and page_insert\<close>

lemma alloc_vm_inv:
  assumes inv: "vm_inv s (p # ps) g"
  shows "vm_inv (alloc_state fl p s) ps g" and "lev g p = 0"
    and "addr_ok s g r a \<Longrightarrow> addr_ok (alloc_state fl p s) g r a \<and> pte_at (alloc_state fl p s) r a = pte_at s r a"
    and "keeps_data (p # ps) g s (alloc_state fl p s)"
proof -
  show l: "lev g p = 0" using table_not_free [OF inv, of p] by auto
  have same: "phys (alloc_state fl p s) q = phys s q" if "q \<noteq> p" for q
    using that by (simp add: alloc_state_def Let_def)
  then have st: "phys (alloc_state fl p s) q j = phys s q j" if "lev g q \<noteq> 0" for q j
    using l that by (metis (no_types))
  show "keeps_data (p # ps) g s (alloc_state fl p s)" using same by (simp add: keeps_data_def)
  show "addr_ok s g r a \<Longrightarrow> addr_ok (alloc_state fl p s) g r a \<and> pte_at (alloc_state fl p s) r a = pte_at s r a"
    using entry_same_tables [OF vm_invD(2) [OF inv] st, where ow' = "own g" and q = r and js = "path a"]
    by (simp add: addr_ok_def pte_at_def)
  have "leafs (phys (alloc_state fl p s)) (lev g) (own g) q = leafs (phys s) (lev g) (own g) q" for q
    using st by (auto simp: leafs_def)
  moreover have "tree_inv (phys (alloc_state fl p s)) (lev g) (own g)"
    by (rule tree_inv_cong [OF vm_invD(2) [OF inv] st])
  moreover have "unat (pp_ref (pages (alloc_state fl p s) q)) = unat (pp_ref (pages s q))" for q by simp
  ultimately show "vm_inv (alloc_state fl p s) ps g"
    using alloc_state_inv [OF vm_invD(1) [OF inv], of fl] vm_invD(4-9) [OF inv] st
    unfolding vm_inv_def by simp
qed

lemma rolled_back_inv:
  assumes inv: "vm_inv s xs g" and rb: "rolled_back xs s s'"
  shows "vm_inv s' xs g" and "addr_ok s g r a \<Longrightarrow> addr_ok s' g r a \<and> pte_at s' r a = pte_at s r a"
    and "keeps_data xs g s s'"
proof -
  have st: "phys s' q j = phys s q j" if "lev g q \<noteq> 0" for q j
    using rb table_not_free [OF inv that] by (simp add: rolled_back_def)
  show "keeps_data xs g s s'" using rb by (simp add: keeps_data_def rolled_back_def)
  show "addr_ok s g r a \<Longrightarrow> addr_ok s' g r a \<and> pte_at s' r a = pte_at s r a"
    using entry_same_tables [OF vm_invD(2) [OF inv] st, where ow' = "own g" and q = r and js = "path a"]
    by (simp add: addr_ok_def pte_at_def)
  have "leafs (phys s') (lev g) (own g) q = leafs (phys s) (lev g) (own g) q" for q
    using st by (auto simp: leafs_def)
  moreover have "tree_inv (phys s') (lev g) (own g)"
    by (rule tree_inv_cong [OF vm_invD(2) [OF inv] st])
  moreover have "npages s' = npages s" "pages s' = pages s" "alloc_inv s' xs"
    using rb mm_only_fields(1) [of s s'] vm_invD(1) [OF inv]
    by (simp_all add: rolled_back_def alloc_inv_def free_pages_def)
  ultimately show "vm_inv s' xs g"
    using vm_invD(4-9) [OF inv] st unfolding vm_inv_def by simp
qed

section \<open>Mappings of environments\<close>

text \<open>The entry for \<open>va\<close> of environment \<open>e\<close> becomes \<open>v\<close>; nobody else's changes.\<close>

definition remap :: "kstate \<Rightarrow> kstate \<Rightarrow> nat \<Rightarrow> u64 \<Rightarrow> u64 \<Rightarrow> bool" where
  "remap s s' e va v \<longleftrightarrow>
     (\<forall>e' a. live s e' \<longrightarrow> a < UTOP \<longrightarrow>
        env_pte s' e' a = (if e' = e \<and> path a = path va then v else env_pte s e' a))"

definition same_maps :: "kstate \<Rightarrow> kstate \<Rightarrow> bool" where
  "same_maps s s' \<longleftrightarrow> (\<forall>e' a. live s e' \<longrightarrow> a < UTOP \<longrightarrow> env_pte s' e' a = env_pte s e' a)"

lemma same_maps_refl [simp]: "same_maps s s"
  by (simp add: same_maps_def)

lemma live_root: "kinv s xs es g \<Longrightarrow> live s e \<Longrightarrow> \<exists>root. env_pml4e (envs s e) = Some root"
  using kinvD(6) [of s xs es g e] by (auto simp: space_ok_def)

lemma user_addr_ok:
  "kinv s xs es g \<Longrightarrow> live s e \<Longrightarrow> env_pml4e (envs s e) = Some root \<Longrightarrow> va < UTOP \<Longrightarrow> addr_ok s g root va"
  using kinvD(6) [of s xs es g e] by (auto simp: space_ok_def)

lemma remapI:
  assumes k: "kinv s xs es g" and m: "mm_only s s'" and e: "live s e" "env_pml4e (envs s e) = Some root"
    and pt: "\<And>r a. addr_ok s g r a \<Longrightarrow> pte_at s' r a = (if r = root \<and> path a = path va then v else pte_at s r a)"
  shows "remap s s' e va v"
proof -
  have "env_pte s' e' a = (if e' = e \<and> path a = path va then v else env_pte s e' a)"
    if e': "live s e'" and a: "a < UTOP" for e' a
  proof -
    obtain r where r: "env_pml4e (envs s e') = Some r" using live_root [OF k e'] by blast
    have "r = root \<longleftrightarrow> e' = e" using kinvD(7) [OF k e' e(1)] r(1) e(2) by auto
    then show ?thesis using pt [OF user_addr_ok [OF k e' r a]] r mm_only_fields(2) [OF m] by (simp add: env_pte_def)
  qed
  then show ?thesis by (simp add: remap_def)
qed

lemma same_mapsI:
  assumes k: "kinv s xs es g" and m: "mm_only s s'"
    and pt: "\<And>r a. addr_ok s g r a \<Longrightarrow> pte_at s' r a = pte_at s r a"
  shows "same_maps s s'"
proof -
  have "env_pte s' e' a = env_pte s e' a" if e': "live s e'" and a: "a < UTOP" for e' a
  proof -
    obtain r where r: "env_pml4e (envs s e') = Some r" using live_root [OF k e'] by blast
    then show ?thesis using pt [OF user_addr_ok [OF k e' r a]] mm_only_fields(2) [OF m] by (simp add: env_pte_def)
  qed
  then show ?thesis by (simp add: same_maps_def)
qed

text \<open>\<open>page_insert\<close> and \<open>page_remove\<close> as the system calls see them.\<close>

lemma insert_kinv:
  assumes k: "kinv s xs es g" and e: "live s e" "env_pml4e (envs s e) = Some root" and va: "va < UTOP"
    and pp: "pp \<noteq> 0" "pp < npages s" "pp \<notin> set xs" "pp_ref (pages s pp) \<noteq> - 1" and perm: "perm < 4096"
  shows "(\<exists>s'. page_insert root pp va perm s = Some (- E_NO_MEM, s') \<and> length xs < 3 \<and> rolled_back xs s s') \<or>
    (\<exists>s' xs' g'. page_insert root pp va perm s = Some (0, s') \<and> mm_only s s' \<and> kinv s' xs' es g' \<and>
       keeps_data xs g s s' \<and> same_ghost xs g g' \<and> pp \<notin> set xs' \<and> spends 3 2 xs s xs' s' \<and>
       remap s s' e va (leaf_pte pp perm))"
proof -
  have "addr_ok s g root va" by (rule user_addr_ok [OF k e va])
  note sp = page_insert_spec [OF kinvD(1) [OF k] this pp perm]
  then show ?thesis
  proof (elim disjE exE conjE)
    fix s' xs' g'
    assume *: "page_insert root pp va perm s = Some (0, s')" "mm_only s s'" "vm_inv s' xs' g'" "same_ghost xs g g'"
      "keeps_data xs g s s'" "pp \<notin> set xs'" "spends 3 2 xs s xs' s'" "mapped s g s' g' root va (leaf_pte pp perm)"
    have "kinv s' xs' es g'" using *(8) by (intro kinv_mm [OF k *(2-5)]) (simp add: mapped_def)
    moreover have "remap s s' e va (leaf_pte pp perm)"
      using *(8) by (intro remapI [OF k *(2) e]) (simp add: mapped_def)
    ultimately show ?thesis using * by blast
  qed auto
qed

lemma remove_kinv:
  assumes k: "kinv s xs es g" and e: "live s e" "env_pml4e (envs s e) = Some root" and va: "va < UTOP"
    and nz: "env_pte s e va \<noteq> 0"
  shows "\<exists>s'. page_remove root va s = Some s' \<and> mm_only s s' \<and>
    kinv s' (after_unmap s (tgt (env_pte s e va)) xs) es g \<and> keeps_data xs g s s' \<and> remap s s' e va 0"
proof -
  have ok: "addr_ok s g root va" by (rule user_addr_ok [OF k e va])
  have pe: "env_pte s e va = pte_at s root va" using e(2) by (simp add: env_pte_def)
  from page_remove_spec [OF kinvD(1) [OF k] ok, of xs] nz pe obtain s'
    where *: "page_remove root va s = Some s'" "mm_only s s'"
      "vm_inv s' (after_unmap s (tgt (env_pte s e va)) xs) g" "keeps_data xs g s s'"
      "\<And>r a. addr_ok s g r a \<Longrightarrow> addr_ok s' g r a \<and>
         pte_at s' r a = (if r = root \<and> path a = path va then 0 else pte_at s r a)"
    by auto
  have "kinv s' (after_unmap s (tgt (env_pte s e va)) xs) es g"
    using *(5) by (intro kinv_mm [OF k *(2,3) _ *(4)]) auto
  moreover have "remap s s' e va 0" using *(5) by (intro remapI [OF k *(2) e]) simp
  ultimately show ?thesis using * by blast
qed

section \<open>sys_page_alloc\<close>

lemma good_va: "\<not> bad_va va \<Longrightarrow> va < UTOP \<and> ROUNDDOWN va PGSIZE = va"
proof -
  assume a: "\<not> bad_va va"
  then have "unat PGSIZE dvd unat va"
    by (metis ROUNDDOWN_aligned ROUNDUP_def bad_va_def)
  with a show ?thesis by (auto simp: bad_va_def not_le intro: ROUNDDOWN_id)
qed

lemma good_perm: "\<not> bad_perm perm \<Longrightarrow> perm < 4096"
proof -
  assume "\<not> bad_perm perm"
  then have "perm AND NOT (ucast PTE_SYSCALL) = 0" by (simp add: bad_perm_def)
  moreover have "perm = (perm AND ucast PTE_SYSCALL) OR (perm AND NOT (ucast PTE_SYSCALL))"
    by (simp add: bit.conj_disj_distrib [symmetric])
  ultimately have "perm = perm AND ucast PTE_SYSCALL" by simp
  also have "\<dots> \<le> ucast PTE_SYSCALL" by (rule word_and_le1)
  also have "ucast PTE_SYSCALL < (4096 :: u32)" by (simp add: jos_consts)
  finally show ?thesis .
qed

lemma free_vm_inv:
  assumes "vm_inv s xs g" and "p \<noteq> 0" "p < npages s" "pp_ref (pages s p) = 0" "p \<notin> set xs"
  shows "vm_inv (free_state p s) (p # xs) g"
  using free_state_inv [OF vm_invD(1) [OF assms(1)] assms(2-5)] vm_invD(2,4-9) [OF assms(1)]
  unfolding vm_inv_def by (simp add: free_state_def)

lemma free_state_phys [simp]: "phys (free_state p s) = phys s"
  by (simp add: free_state_def)

text \<open>The page taken and given back: only the contents of free pages changed.\<close>

lemma alloc_undo:
  assumes k: "kinv s (p # ps) es g" and rb: "rolled_back ps (alloc_state ALLOC_ZERO p s) s2"
  shows "\<exists>s'. page_free p s2 = Some s' \<and> mm_only s s' \<and> kinv s' (p # ps) es g \<and> same_maps s s' \<and>
    keeps_data (p # ps) g s s'"
proof -
  let ?s1 = "alloc_state ALLOC_ZERO p s"
  have inv: "vm_inv s (p # ps) g" by (rule kinvD(1) [OF k])
  have a: "alloc_inv s (p # ps)" by (rule vm_invD(1) [OF inv])
  note av = alloc_vm_inv(1,3,4) [OF inv, where fl = ALLOC_ZERO] and r = rolled_back_inv [OF alloc_vm_inv(1) [OF inv] rb]
  have m: "mm_only s s2" using rb mm_only_trans [of s ?s1 s2] by (simp add: rolled_back_def)
  have p: "p \<noteq> 0" "p < npages s2" "pp_ref (pages s2 p) = 0" "p \<notin> set ps"
    using alloc_invD(2) [OF a] alloc_invD(4-6) [OF a, of p] rb mm_only_fields(1) [OF m]
    by (simp_all add: rolled_back_def)
  have f: "page_free p s2 = Some (free_state p s2)"
    using page_free_eq [OF vm_invD(1) [OF r(1)], of p] p by simp
  have m': "mm_only s (free_state p s2)" using m by simp
  have pt: "addr_ok (free_state p s2) g q x \<and> pte_at (free_state p s2) q x = pte_at s q x" if "addr_ok s g q x" for q x
    using av(2) [OF that] r(2) [of q x] by (simp add: addr_ok_def pte_at_def)
  have kd: "keeps_data (p # ps) g s (free_state p s2)"
    using keeps_data_trans [OF av(3) r(3)] by (auto simp: keeps_data_def)
  have "kinv (free_state p s2) (p # ps) es g"
    by (rule kinv_mm [OF k m' free_vm_inv [OF r(1) p] _ kd]) (use pt in auto)
  moreover have "same_maps s (free_state p s2)" using pt by (intro same_mapsI [OF k m']) simp
  ultimately show ?thesis using f m' kd by blast
qed

lemma sys_page_alloc_spec:
  assumes k: "kinv s xs es g" and c: "curenv s = Some c" and e: "may_name s envid True e"
    and va: "\<not> bad_va va" and perm: "\<not> bad_perm perm"
  shows "(\<exists>s'. sys_page_alloc envid va perm s = Some (- E_NO_MEM, s') \<and> length xs < 4 \<and> kinv s' xs es g \<and>
       mm_only s s' \<and> same_maps s s' \<and> keeps_data xs g s s') \<or>
    (\<exists>s' xs' g' p. sys_page_alloc envid va perm s = Some (0, s') \<and> kinv s' xs' es g' \<and> mm_only s s' \<and>
       keeps_data xs g s s' \<and> p \<in> set xs \<and> p \<notin> set xs' \<and> (\<forall>i. phys s' p i = 0) \<and>
       same_ghost xs g g' \<and> lev g' p = 0 \<and> spends 4 2 xs s xs' s' \<and> remap s s' e va (leaf_pte p perm))"
proof -
  have el: "live s e" by (rule may_name_live [OF k e])
  obtain root where root: "env_pml4e (envs s e) = Some root" using live_root [OF k el] by blast
  have id: "envid2env envid True s = Some (0, Some e)"
    by (rule envid2env_named [OF c e])
  note v = good_va [OF va] good_perm [OF perm]
  show ?thesis
  proof (cases xs)
    case Nil
    then show ?thesis
      using k id va perm page_alloc_empty [of s] vm_invD(1) [OF kinvD(1) [OF k]]
      by (simp add: sys_page_alloc_def)
  next
    case (Cons p ps)
    let ?s1 = "alloc_state ALLOC_ZERO p s"
    have k': "kinv s (p # ps) es g" using k Cons by simp
    have inv: "vm_inv s (p # ps) g" by (rule kinvD(1) [OF k'])
    have a: "alloc_inv s (p # ps)" by (rule vm_invD(1) [OF inv])
    note av = alloc_vm_inv(1,3,4) [OF inv, where fl = ALLOC_ZERO]
    have m1: "mm_only s ?s1" by simp
    have k1: "kinv ?s1 ps es g" by (rule kinv_mm [OF k' m1 av(1) _ av(3)]) (use av(2) in auto)
    have w: "sys_page_alloc envid va perm s = do {
        (result, s) \<leftarrow> page_insert root p va perm ?s1;
        s \<leftarrow> (if result \<noteq> 0 then page_free p s else Some s); Some (result, s) }"
      using id va perm v page_alloc_head [OF a, of ALLOC_ZERO] root
      by (simp add: sys_page_alloc_def)
    have p: "p \<noteq> 0" "p < npages ?s1" "p \<notin> set ps" "pp_ref (pages ?s1 p) \<noteq> - 1"
      using alloc_invD(2) [OF a] alloc_invD(4-6) [OF a, of p] by simp_all
    have e1: "live ?s1 e" "env_pml4e (envs ?s1 e) = Some root" using el root by (simp_all add: live_def)
    consider (fail) s2 where "page_insert root p va perm ?s1 = Some (- E_NO_MEM, s2)" "length ps < 3" "rolled_back ps ?s1 s2"
      | (succ) s' xs' g' where "page_insert root p va perm ?s1 = Some (0, s')" "mm_only ?s1 s'" "kinv s' xs' es g'"
          "keeps_data ps g ?s1 s'" "p \<notin> set xs'" "remap ?s1 s' e va (leaf_pte p perm)"
          "same_ghost ps g g'" "spends 3 2 ps ?s1 xs' s'"
      using insert_kinv [OF k1 e1 conjunct1 [OF v(1)] p v(2)] by blast
    then show ?thesis
    proof cases
      case fail
      obtain s' where s': "page_free p s2 = Some s'" "mm_only s s'" "kinv s' (p # ps) es g" "same_maps s s'"
          "keeps_data (p # ps) g s s'"
        using alloc_undo [OF k' fail(3)] by blast
      then have "sys_page_alloc envid va perm s = Some (- E_NO_MEM, s')"
        using w fail(1) by (simp add: E_NO_MEM_def)
      then show ?thesis using s' fail(2) Cons by auto
    next
      case succ
      have "sys_page_alloc envid va perm s = Some (0, s')" using w succ(1) by simp
      moreover have "keeps_data xs g s s'"
        unfolding Cons by (rule keeps_data_trans [OF av(3) succ(4)]) auto
      moreover have "phys s' p i = 0" for i
        using succ(4) p(3) alloc_vm_inv(2) [OF inv] by (simp add: keeps_data_def ALLOC_ZERO_def)
      moreover have "remap s s' e va (leaf_pte p perm)"
        using succ(6) same_mapsI [OF k' m1] av(2) by (auto simp: remap_def same_maps_def live_def)
      moreover have "spends 4 2 xs s xs' s'"
        using spends_trans [OF _ succ(8), of 1 0 xs s] Cons by (simp add: spends_def)
      moreover have "same_ghost xs g g'" "lev g' p = 0"
        using succ(7) p(3) alloc_vm_inv(2) [OF inv] Cons by (simp_all add: same_ghost_def)
      ultimately show ?thesis using succ(3,5) mm_only_trans [OF m1 succ(2)] Cons by auto
    qed
  qed
qed

lemma sys_page_unmap_spec:
  assumes k: "kinv s xs es g" and c: "curenv s = Some c" and e: "may_name s envid True e" and va: "\<not> bad_va va"
    and nz: "env_pte s e va \<noteq> 0"
  shows "\<exists>s'. sys_page_unmap envid va s = Some (0, s') \<and> mm_only s s' \<and> keeps_data xs g s s' \<and>
    kinv s' (after_unmap s (tgt (env_pte s e va)) xs) es g \<and> remap s s' e va 0"
proof -
  have el: "live s e" by (rule may_name_live [OF k e])
  obtain root where root: "env_pml4e (envs s e) = Some root" using live_root [OF k el] by blast
  obtain s' where "page_remove root va s = Some s'" "mm_only s s'"
      "kinv s' (after_unmap s (tgt (env_pte s e va)) xs) es g" "keeps_data xs g s s'" "remap s s' e va 0"
    using remove_kinv [OF k el root _ nz] good_va [OF va] by blast
  then show ?thesis
    using envid2env_named [OF c e] va root by (simp add: sys_page_unmap_def)
qed

text \<open>
  \<open>sys_page_map\<close> for a source that is mapped and a permission without address bits, which
  the source does not check.
\<close>

lemma mapped_target:
  assumes k: "kinv s xs es g" and e: "live s e" "env_pml4e (envs s e) = Some root" and va: "va < UTOP"
    and nz: "env_pte s e va \<noteq> 0"
  shows "\<exists>q j. page_lookup root va s = Some (Some (tgt (env_pte s e va), q, j))"
    and "tgt (env_pte s e va) \<noteq> 0" "tgt (env_pte s e va) < npages s" "tgt (env_pte s e va) \<notin> set xs"
proof -
  have inv: "vm_inv s xs g" by (rule kinvD(1) [OF k])
  have ok: "addr_ok s g root va" by (rule user_addr_ok [OF k e va])
  have pe: "env_pte s e va = pte_at s root va" using e(2) by (simp add: env_pte_def)
  obtain q j where sl: "slot (phys s) root (path va) = Some (q, j)" and pq: "phys s q j = env_pte s e va"
    using pte_slot [of s root va] nz pe by auto
  note l = slot_leaf [OF inv ok sl]
  have nq: "phys s q j \<noteq> 0" using nz pq by simp
  show "\<exists>q j. page_lookup root va s = Some (Some (tgt (env_pte s e va), q, j))"
    using page_lookup_mapped [OF inv ok sl nq] pq by auto
  show "tgt (env_pte s e va) \<noteq> 0" "tgt (env_pte s e va) < npages s"
    using vm_invD(7,8) [OF inv l(1,2) nq] pq by simp_all
  have "(q, j) \<in> leafs (phys s) (lev g) (own g) (tgt (env_pte s e va))"
    using l nq pq PTX_less by (simp add: leafs_def)
  then show "tgt (env_pte s e va) \<notin> set xs" by (rule leaf_not_free [OF inv])
qed

lemma sys_page_map_spec:
  assumes k: "kinv s xs es g" and c: "curenv s = Some c"
    and e: "may_name s srcenvid True e1" "may_name s dstenvid True e2"
    and va: "\<not> bad_va srcva" "\<not> bad_va dstva" and perm: "perm < 4096"
    and nz: "env_pte s e1 srcva \<noteq> 0" and rf: "pp_ref (pages s (tgt (env_pte s e1 srcva))) \<noteq> - 1"
  shows "(\<exists>s'. sys_page_map srcenvid srcva dstenvid dstva perm s = Some (- E_NO_MEM, s') \<and> length xs < 3 \<and>
       kinv s' xs es g \<and> mm_only s s' \<and> same_maps s s' \<and> keeps_data xs g s s') \<or>
    (\<exists>s' xs' g'. sys_page_map srcenvid srcva dstenvid dstva perm s = Some (0, s') \<and> kinv s' xs' es g' \<and>
       mm_only s s' \<and> keeps_data xs g s s' \<and> tgt (env_pte s e1 srcva) \<notin> set xs' \<and>
       same_ghost xs g g' \<and> spends 3 2 xs s xs' s' \<and> remap s s' e2 dstva (leaf_pte (tgt (env_pte s e1 srcva)) perm))"
proof -
  have el: "live s e1" "live s e2" using may_name_live [OF k] e by auto
  obtain r1 r2 where r: "env_pml4e (envs s e1) = Some r1" "env_pml4e (envs s e2) = Some r2"
    using live_root [OF k] el by blast
  note v = good_va [OF va(1), THEN conjunct1] good_va [OF va(2), THEN conjunct1]
  note t = mapped_target [OF k el(1) r(1) v(1) nz]
  have w: "sys_page_map srcenvid srcva dstenvid dstva perm s = do {
      (result, s) \<leftarrow> page_insert r2 (tgt (env_pte s e1 srcva)) dstva perm s;
      if result \<noteq> 0 then Some (- E_NO_MEM, s) else Some (result, s) }"
    using envid2env_named [OF c e(1)] envid2env_named [OF c e(2)] va r t(1) by (auto simp: sys_page_map_def)
  from insert_kinv [OF k el(2) r(2) v(2) t(2-4) rf perm] show ?thesis
  proof (elim disjE exE conjE)
    fix s'
    assume *: "page_insert r2 (tgt (env_pte s e1 srcva)) dstva perm s = Some (- E_NO_MEM, s')" "length xs < 3"
      and rb: "rolled_back xs s s'"
    note ri = rolled_back_inv [OF kinvD(1) [OF k] rb]
    have m: "mm_only s s'" using rb by (simp add: rolled_back_def)
    have "kinv s' xs es g" by (rule kinv_mm [OF k m ri(1) _ ri(3)]) (use ri(2) in auto)
    moreover have "same_maps s s'" by (rule same_mapsI [OF k m]) (use ri(2) in auto)
    ultimately show ?thesis using * w m ri(3) by (simp add: E_NO_MEM_def)
  qed (use w in auto)
qed

end
