(* ===== verification/Isolation.thy ===== *)
theory Isolation
  imports Syscall_Spec
begin

text \<open>
  Whatever page and permission bits a caller passes, \<open>page_insert\<close> and \<open>page_remove\<close> of
  kern/pmap.c change no entry but the one they are asked to change.
\<close>

definition others_kept :: "vm_ghost \<Rightarrow> kstate \<Rightarrow> kstate \<Rightarrow> nat \<Rightarrow> u64 \<Rightarrow> bool" where
  "others_kept g s s' root va \<longleftrightarrow>
     envs s' = envs s \<and>
     (\<forall>r a. addr_ok s g r a \<longrightarrow> \<not> (r = root \<and> path a = path va) \<longrightarrow> pte_at s' r a = pte_at s r a)"

lemma others_kept_store:
  assumes "vm_inv s xs g" and "addr_ok s g root va" and "slot (phys s) root (path va) = Some (q, j)"
    and "phys s' = (phys s)(q := (phys s q)(j := v))" and "envs s' = envs s"
  shows "others_kept g s s' root va"
  using pte_at_store(2) [OF assms(1-3), where v = v] assms(4,5) by (simp add: others_kept_def pte_at_def)

lemma page_decref_phys: "page_decref pp s = Some s' \<Longrightarrow> phys s' = phys s \<and> envs s' = envs s"
  by (auto simp: page_decref_def page_free_def Let_def split: if_splits Option.bind_splits)

lemma tlb_invalidate_envs [simp]: "envs (tlb_invalidate root va s) = envs s"
  by (simp add: tlb_invalidate_def split: option.splits)

lemma page_remove_frame:
  assumes inv: "vm_inv s xs g" and ok: "addr_ok s g root va" and r: "page_remove root va s = Some s'"
  shows "s' = s \<or> (\<exists>q j. slot (phys s) root (path va) = Some (q, j) \<and>
    phys s' = (phys s)(q := (phys s q)(j := 0)) \<and> envs s' = envs s)"
proof (cases "slot (phys s) root (path va)")
  case None
  then show ?thesis using r page_lookup_no_table [OF inv ok] by (simp add: page_remove_def)
next
  case (Some qj)
  obtain q j where qj: "slot (phys s) root (path va) = Some (q, j)" using Some by (cases qj) auto
  have "page_lookup root va s = do { pp \<leftarrow> pa2page s (phys s q j); Some (Some (pp, q, j)) }"
    using walk_found [OF inv ok qj, of False] slot_leaf(3) [OF inv ok qj]
    by (simp add: page_lookup_def)
  then show ?thesis
    using r qj page_decref_phys [of _ s]
    by (auto simp: page_remove_def split: Option.bind_splits)
qed

lemma page_remove_others:
  assumes "vm_inv s xs g" and "addr_ok s g root va" and "page_remove root va s = Some s'"
  shows "others_kept g s s' root va"
  using page_remove_frame [OF assms] others_kept_store [OF assms(1,2)]
  by (auto simp: others_kept_def [of g s s])

lemma insert_at_others:
  assumes inv: "vm_inv s xs g" and ok: "addr_ok s g root va" and sl: "slot (phys s) root (path va) = Some (q, j)"
    and r: "insert_at q j root va pp perm s = Some s'"
  shows "others_kept g s s' root va"
proof -
  have rm: "phys u = phys s \<or> phys u = (phys s)(q := (phys s q)(j := 0))" "envs u = envs s"
    if "page_remove root va s = Some u" for u
    using page_remove_frame [OF inv ok that] sl by auto
  have "\<exists>v. phys s' = (phys s)(q := (phys s q)(j := v)) \<and> envs s' = envs s"
    using r rm by (fastforce simp: insert_at_def split: if_splits Option.bind_splits)
  then show ?thesis using others_kept_store [OF inv ok sl] by blast
qed

lemma page_insert_others:
  assumes inv: "vm_inv s xs g" and ok: "addr_ok s g root va" and r: "page_insert root pp va perm s = Some (x, s')"
  shows "others_kept g s s' root va"
proof -
  from walk_create [OF inv ok] consider
    (fail) s1 where "pml4e_walk root va True s = Some (None, s1)" "rolled_back xs s s1"
  | (ok) q s1 where "pml4e_walk root va True s = Some (Some (q, PTX va), s1)" "created xs g s root (path va) q s1"
    by blast
  then show ?thesis
  proof cases
    case fail
    then have "s' = s1" using r by (simp add: page_insert_walk)
    then show ?thesis
      using rolled_back_inv(2) [OF inv fail(2)] fail(2) mm_only_fields(2) [of s s1]
      by (auto simp: others_kept_def rolled_back_def)
  next
    case (ok q s1)
    then obtain ys zs g' where c: "vm_inv s1 zs g'" "keeps_paths s g s1 g'"
        "slot (phys s1) root (path va) = Some (q, PTX va)" "mm_only s s1"
      by (auto simp: created_def)
    have k: "addr_ok s1 g' r a \<and> pte_at s1 r a = pte_at s r a" if "addr_ok s g r a" for r a
      using keeps_pathsD(1) [OF c(2), of r] keeps_pathsD(4,5) [OF c(2), of "path a" r] that
      by (simp add: addr_ok_def pte_at_def)
    have "insert_at q (PTX va) root va pp perm s1 = Some s'"
      using ok(1) r by (auto simp: page_insert_walk split: Option.bind_splits)
    from insert_at_others [OF c(1) k [THEN conjunct1, OF assms(2)] c(3) this] k mm_only_fields(2) [OF c(4)]
    show ?thesis by (simp add: others_kept_def)
  qed
qed

text \<open>The same for environments: nobody but \<open>e\<close> sees a change.\<close>

definition only_env :: "kstate \<Rightarrow> kstate \<Rightarrow> nat \<Rightarrow> bool" where
  "only_env s s' e \<longleftrightarrow> (\<forall>x a. live s x \<longrightarrow> x \<noteq> e \<longrightarrow> a < UTOP \<longrightarrow> env_pte s' x a = env_pte s x a)"

lemma only_envI:
  assumes k: "kinv s xs es g" and e: "live s e" "env_pml4e (envs s e) = Some root" and o: "others_kept g s s' root va"
  shows "only_env s s' e"
proof -
  have "env_pte s' x a = env_pte s x a" if x: "live s x" "x \<noteq> e" and a: "a < UTOP" for x a
  proof -
    obtain r where r: "env_pml4e (envs s x) = Some r" using live_root [OF k x(1)] by blast
    have "r \<noteq> root" using kinvD(7) [OF k x(1) e(1)] r e(2) x(2) by auto
    then show ?thesis
      using o user_addr_ok [OF k x(1) r a] r by (auto simp: others_kept_def env_pte_def)
  qed
  then show ?thesis by (simp add: only_env_def)
qed

lemma only_env_refl [simp]: "only_env s s e"
  by (simp add: only_env_def)

section \<open>The system calls that change mappings\<close>

lemma page_free_phys: "page_free pp s = Some s' \<Longrightarrow> phys s' = phys s \<and> envs s' = envs s"
  by (auto simp: page_free_def Let_def split: if_splits Option.bind_splits)

lemma only_env_trans:
  assumes "only_env s s1 e" and "phys s2 = phys s1" "envs s2 = envs s1"
  shows "only_env s s2 e"
proof -
  have "env_pte s2 x a = env_pte s1 x a" for x a
    using assms(2,3) by (simp add: env_pte_def pte_at_def split: option.split)
  then show ?thesis using assms(1) by (simp add: only_env_def)
qed

lemma page_alloc_cases:
  assumes "alloc_inv s xs" and "page_alloc fl s = Some (p, s')"
  shows "(p = None \<and> s' = s) \<or> (\<exists>q ps. xs = q # ps \<and> p = Some q \<and> s' = alloc_state fl q s)"
  using assms page_alloc_empty [of s fl] page_alloc_head [of s _ _ fl] by (cases xs) auto

lemma sys_page_alloc_isolated:
  assumes k: "kinv s xs es g" and c: "curenv s = Some c" and r: "sys_page_alloc envid va perm s = Some (x, s')"
  shows "s' = s \<or> (\<exists>e. may_name s envid True e \<and> only_env s s' e)"
proof (cases "(\<exists>e. may_name s envid True e) \<and> \<not> bad_va va \<and> \<not> bad_perm perm")
  case False
  then show ?thesis
    using r envid2env_named [OF c, of envid True] envid2env_unnamed [OF c, of envid True]
    by (cases "\<exists>e. may_name s envid True e") (auto simp: sys_page_alloc_def E_BAD_ENV_def split: if_splits)
next
  case True
  then obtain e where e: "may_name s envid True e" and va: "\<not> bad_va va" "\<not> bad_perm perm" by blast
  have el: "live s e" by (rule may_name_live [OF k e])
  obtain root where root: "env_pml4e (envs s e) = Some root" using live_root [OF k el] by blast
  have "s' = s \<or> only_env s s' e"
  proof (cases xs)
    case Nil
    then show ?thesis
      using r envid2env_named [OF c e] va page_alloc_empty [of s] vm_invD(1) [OF kinvD(1) [OF k]]
      by (simp add: sys_page_alloc_def)
  next
    case (Cons p ps)
    let ?s1 = "alloc_state ALLOC_ZERO p s"
    have inv: "vm_inv s (p # ps) g" using kinvD(1) [OF k] Cons by simp
    note av = alloc_vm_inv(1,3) [OF inv, where fl = ALLOC_ZERO]
    obtain y s2 where i: "page_insert root p va perm ?s1 = Some (y, s2)" and f: "phys s' = phys s2" "envs s' = envs s2"
      using r envid2env_named [OF c e] va page_alloc_head [OF vm_invD(1) [OF inv], of ALLOC_ZERO] root
        good_va [OF va(1)] page_free_phys [of p]
      by (auto simp: sys_page_alloc_def split: Option.bind_splits if_splits)
    have "addr_ok ?s1 g root va"
      using av(2) [OF user_addr_ok [OF k el root]] good_va [OF va(1)] by blast
    from page_insert_others [OF av(1) this i] have "others_kept g s s2 root va"
      using av(2) by (auto simp: others_kept_def)
    then show ?thesis using only_env_trans [OF only_envI [OF k el root] f] by blast
  qed
  with e show ?thesis by blast
qed

lemma sys_page_unmap_isolated:
  assumes k: "kinv s xs es g" and c: "curenv s = Some c" and r: "sys_page_unmap envid va s = Some (x, s')"
  shows "s' = s \<or> (\<exists>e. may_name s envid True e \<and> only_env s s' e)"
proof (cases "(\<exists>e. may_name s envid True e) \<and> \<not> bad_va va")
  case False
  then show ?thesis
    using r envid2env_named [OF c, of envid True] envid2env_unnamed [OF c, of envid True]
    by (cases "\<exists>e. may_name s envid True e") (auto simp: sys_page_unmap_def E_BAD_ENV_def split: if_splits)
next
  case True
  then obtain e where e: "may_name s envid True e" and va: "\<not> bad_va va" by blast
  have el: "live s e" by (rule may_name_live [OF k e])
  obtain root where root: "env_pml4e (envs s e) = Some root" using live_root [OF k el] by blast
  have "page_remove root va s = Some s'"
    using r envid2env_named [OF c e] va root by (auto simp: sys_page_unmap_def split: Option.bind_splits)
  from page_remove_others [OF kinvD(1) [OF k] user_addr_ok [OF k el root] this] good_va [OF va]
  have "others_kept g s s' root va" by blast
  then show ?thesis using only_envI [OF k el root] e by blast
qed

lemma sys_page_map_isolated:
  assumes k: "kinv s xs es g" and c: "curenv s = Some c"
    and r: "sys_page_map srcenvid srcva dstenvid dstva perm s = Some (x, s')"
  shows "s' = s \<or> (\<exists>e. may_name s dstenvid True e \<and> only_env s s' e)"
proof (cases "(\<exists>e. may_name s srcenvid True e) \<and> (\<exists>e. may_name s dstenvid True e) \<and> \<not> bad_va srcva \<and> \<not> bad_va dstva")
  case False
  then show ?thesis
    using r envid2env_named [OF c, of srcenvid True] envid2env_unnamed [OF c, of srcenvid True]
      envid2env_named [OF c, of dstenvid True] envid2env_unnamed [OF c, of dstenvid True]
    by (cases "\<exists>e. may_name s srcenvid True e"; cases "\<exists>e. may_name s dstenvid True e")
      (auto simp: sys_page_map_def E_BAD_ENV_def split: if_splits)
next
  case True
  then obtain e1 e where e: "may_name s srcenvid True e1" "may_name s dstenvid True e"
    and va: "\<not> bad_va srcva" "\<not> bad_va dstva" by blast
  have el: "live s e" "live s e1" using may_name_live [OF k] e by auto
  obtain root r1 where root: "env_pml4e (envs s e) = Some root" "env_pml4e (envs s e1) = Some r1"
    using live_root [OF k] el by blast
  have "s' = s \<or> (\<exists>pp y. page_insert root pp dstva perm s = Some (y, s'))"
    using r envid2env_named [OF c e(1)] envid2env_named [OF c e(2)] va root
    by (fastforce simp: sys_page_map_def split: Option.bind_splits if_splits option.splits prod.splits)
  then show ?thesis
  proof (elim disjE exE)
    fix pp y
    assume "page_insert root pp dstva perm s = Some (y, s')"
    from page_insert_others [OF kinvD(1) [OF k] user_addr_ok [OF k el(1) root(1)] this] good_va [OF va(2)]
    have "others_kept g s s' root dstva" by blast
    then show ?thesis using only_envI [OF k el(1) root(1)] e(2) by blast
  qed simp
qed

end
