(* ===== verification/Env_Id.thy ===== *)
theory Env_Id
  imports Kernel_Inv
begin

text \<open>Environment ids: what \<open>env_alloc\<close> of kern/env.c computes, as numbers.\<close>

lemma and_not_low: "x AND - 1024 = push_bit 10 (drop_bit 10 (x :: u32))"
proof -
  have m: "(- 1024 :: u32) = NOT (mask 10)" by (simp add: mask_eq_exp_minus_1)
  show ?thesis unfolding m by (rule bit_word_eqI) (auto simp: bit_simps)
qed

lemma unat_generation: "unat (x AND (- 1024 :: u32)) = unat x div 1024 * 1024"
proof -
  have "unat x div 1024 * 1024 \<le> unat x" by simp
  also have "unat x < 2 ^ 32" using unsigned_less [of x] by simp
  finally have "unat x div 1024 * 1024 < 2 ^ 32" .
  then show ?thesis
    by (simp add: and_not_low push_bit_eq_mult drop_bit_eq_div unat_word_ariths unat_div_distrib mult.commute)
qed

lemma or_small:
  assumes "unat (g :: u32) mod 1024 = 0" and "e < 1024"
  shows "unat (g OR of_nat e) = unat g + e"
proof -
  have "take_bit 10 g = 0"
    using assms(1) by (simp add: take_bit_eq_mod word_unat_eq_iff unat_mod_distrib)
  then have lo: "\<not> bit g n" if "n < 10" for n using that bit_take_bit_iff [of 10 g n] by simp
  have "drop_bit 10 (of_nat e :: u32) = 0"
    using assms(2) by (simp add: drop_bit_eq_div word_unat_eq_iff unat_div_distrib unat_of_nat)
  then have "\<not> bit (drop_bit 10 (of_nat e :: u32)) (n - 10)" for n by (simp only: bit_0_eq) simp
  then have hi: "\<not> bit (of_nat e :: u32) n" if "10 \<le> n" for n
    using that unfolding bit_drop_bit_eq by (metis comp_apply le_add_diff_inverse)
  have "g OR of_nat e = g + of_nat e" by (rule disjunctive_add [symmetric]) (metis lo hi not_le)
  moreover have "unat g div 1024 * 1024 = unat g" using assms(1) by auto
  moreover have "unat g < 4294967296" using unsigned_less [of g] by simp
  ultimately have "unat g div 1024 < 4194304" by linarith
  with \<open>unat g div 1024 * 1024 = unat g\<close> assms(2) have "unat g + e < 4294967296" by linarith
  with \<open>g OR of_nat e = g + of_nat e\<close> assms(2) show ?thesis by (simp add: unat_word_ariths unat_of_nat)
qed

lemma sint_uint31: "sint (x :: u32) = uint x - (if uint x < 2 ^ 31 then 0 else 2 ^ 32)"
proof -
  have u: "uint x < 2 ^ 32" using uint_lt2p [of x] by simp
  have "bit (uint x) 31 \<longleftrightarrow> 2 ^ 31 \<le> uint x"
  proof (cases "2 ^ 31 \<le> uint x")
    case True
    then have "uint x div 2 ^ 31 = 1" using u by (intro int_div_pos_eq [where r = "uint x - 2 ^ 31"]) auto
    then show ?thesis using True by (simp add: bit_iff_odd)
  next
    case False
    then have "uint x div 2 ^ 31 = 0" by (intro div_pos_pos_trivial) auto
    then show ?thesis using False by (simp add: bit_iff_odd)
  qed
  moreover have "sint x = uint x - 2 ^ 32 * of_bool (bit (uint x) 31)"
  proof -
    have "sint x = signed_take_bit 31 (uint x)" by (simp add: sint_uint)
    also have "\<dots> = take_bit 32 (uint x) - 2 ^ 32 * of_bool (bit (uint x) 31)"
      using signed_take_bit_eq_take_bit_minus [of 31 "uint x"] by simp
    also have "take_bit 32 (uint x) = uint x" using u by (simp add: take_bit_int_eq_self_iff)
    finally show ?thesis .
  qed
  ultimately show ?thesis by auto
qed

lemma sint_unat: "sint (x :: u32) = int (unat x) - (if unat x < 2 ^ 31 then 0 else 2 ^ 32)"
proof -
  define n where "n = unat x"
  have u: "uint x = int n" by (simp add: n_def)
  show ?thesis unfolding sint_uint31 u n_def [symmetric] by simp
qed

lemma unat_less_32: "unat (x :: u32) < 4294967296"
  using unsigned_less [of x] by simp

lemma sint_nonpos: "sint (x :: u32) \<le> 0 \<longleftrightarrow> unat x = 0 \<or> 2 ^ 31 \<le> unat x"
proof -
  define n where "n = unat x"
  have "n < 2 ^ 32" using unat_less_32 by (simp add: n_def)
  then show ?thesis unfolding sint_unat n_def [symmetric] by simp
qed

lemma sint_nonneg: "0 \<le> sint (x :: u32) \<longleftrightarrow> unat x < 2 ^ 31"
proof -
  define n where "n = unat x"
  have "n < 2 ^ 32" using unat_less_32 by (simp add: n_def)
  then show ?thesis unfolding sint_unat n_def [symmetric] by simp
qed

text \<open>\<open>new_env_id\<close> in numbers; ids in use are non-negative.\<close>

lemma new_env_id_unat:
  assumes "e < NENV" and "unat old < 2 ^ 31"
  shows "unat (new_env_id old e) =
    (let g = (unat old div 1024 + 4) * 1024 in if g < 2 ^ 31 then g else 4096) + e"
proof -
  have m: "unat (old + 4096) = unat old + 4096" using assms(2) by (simp add: unat_word_ariths)
  define g where "g = (old + 4096) AND (- 1024)"
  have ug: "unat g = (unat old div 1024 + 4) * 1024"
    unfolding g_def unat_generation m using div_mult_self1 [of 1024 "unat old" 4] by simp
  have "sint g \<le> 0 \<longleftrightarrow> 2 ^ 31 \<le> unat g"
    using ug by (simp add: sint_nonpos)
  then show ?thesis
    using assms(1) ug or_small [of g e] or_small [of 4096 e]
    by (simp add: new_env_id_def ENVGENSHIFT_def NENV_def g_def [symmetric] Let_def)
qed

text \<open>The new id names slot \<open>e\<close>, is positive, and differs from the old id of the slot.\<close>

lemma ENVX_unat: "ENVX i = unat i mod 1024"
proof -
  have "i AND 1023 = take_bit 10 i" by (simp add: take_bit_eq_mask mask_eq_exp_minus_1)
  then show ?thesis by (simp add: ENVX_def take_bit_eq_mod unat_mod_distrib)
qed

lemma new_env_id_props:
  assumes e: "e < NENV" and old: "0 \<le> sint old"
  shows "ENVX (new_env_id old e) = e" and "0 < sint (new_env_id old e)" and "new_env_id old e \<noteq> old"
proof -
  have o: "unat old < 2 ^ 31" using old by (simp only: sint_nonneg)
  define q where "q = unat old div 1024"
  define G where "G = (if (q + 4) * 1024 < 2 ^ 31 then q + 4 else 4)"
  have n: "unat (new_env_id old e) = G * 1024 + e"
    unfolding new_env_id_unat [OF e o] G_def q_def Let_def by simp
  have e': "e < 1024" using e by (simp add: NENV_def)
  show "ENVX (new_env_id old e) = e" unfolding ENVX_unat n using e' by simp
  have G: "0 < G" "G * 1024 < 2 ^ 31" by (auto simp: G_def)
  then have "G * 1024 + e < 2 ^ 31" using e' by simp
  then show "0 < sint (new_env_id old e)" using n G(1) by (simp add: sint_unat)
  have "(G * 1024 + e) div 1024 = G" using e' by simp
  moreover have "G \<noteq> q" using o by (auto simp: G_def)
  ultimately have "unat (new_env_id old e) div 1024 \<noteq> unat old div 1024" unfolding n q_def [symmetric] by simp
  then show "new_env_id old e \<noteq> old" by auto
qed

end
