(* ===== verification/Env_Spec.thy ===== *)
theory Env_Spec
  imports Syscall_Spec Env_Id
begin

text \<open>
  \<open>env_alloc\<close> and \<open>sys_exofork\<close> under the invariant of the kernel: a new environment
  gets an id that was not the last one of its slot and an address space of its own.
\<close>

section \<open>env_alloc\<close>

definition env_alloc_state :: "envid_t \<Rightarrow> nat \<Rightarrow> kstate \<Rightarrow> kstate" where
  "env_alloc_state pid e s =
     (upd_env e (\<lambda>v. v\<lparr>env_id := new_env_id (env_id v) e, env_parent_id := pid,
        env_type := ENV_TYPE_USER, env_status := ENV_RUNNABLE, env_runs := 0,
        env_tf := init_tf, env_pgfault_upcall := 0, env_ipc_recving := False\<rparr>) s)
     \<lparr>env_free_list := env_link (envs s e)\<rparr>"

lemma env_alloc_none: "env_chain s [] \<Longrightarrow> env_alloc pid s = Some (- E_NO_FREE_ENV, None, s)"
  by (simp add: env_chain_def env_alloc_def)

lemma env_alloc_eq:
  assumes "kinv s (p # p2 # p3 # ps) (e # es) g"
  shows "env_alloc pid s = Some (0, Some e, env_alloc_state pid e (space_state e p p2 p3 s))"
  using env_setup_vm_ok [OF vm_invD(1) [OF kinvD(1) [OF assms]] kinvD(2) [OF assms], of e] kinvD(3) [OF assms]
  by (simp add: env_alloc_def env_chain_def env_alloc_state_def)

lemma kern_ok_space:
  assumes k: "kern_ok s (p # p2 # p3 # ps) g" and a: "alloc_inv s (p # p2 # p3 # ps)"
  shows "kern_ok (space_state e p p2 p3 s) ps (space_ghost p p2 p3 g)"
proof -
  let ?P = "{boot_pml4e s, kern_pdpe s, kern_pgdir s}"
  have f: "x < npages s \<and> x \<notin> set (p # p2 # p3 # ps) \<and> lev g x = 0 \<and> held g x \<noteq> 0" if "x \<in> ?P" for x
    by (rule bspec [OF conjunct1 [OF k [unfolded kern_ok_def]] that])
  have same: "space_mem p p2 p3 s x = phys s x" if "x \<in> ?P" for x
    using f [OF that] by (simp add: space_mem_def)
  have kp: "kern_pdpe (space_state e p p2 p3 s) = kern_pdpe s" using same by (simp add: kern_pdpe_def)
  have kg: "kern_pgdir (space_state e p p2 p3 s) = kern_pgdir s" using same kp by (simp add: kern_pgdir_def)
  have "x < npages s \<and> x \<notin> set ps \<and> lev (space_ghost p p2 p3 g) x = 0 \<and> held (space_ghost p p2 p3 g) x \<noteq> 0"
    if "x \<in> ?P" for x using f [OF that] by simp
  moreover have "phys s (boot_pml4e s) 0 \<noteq> 0 \<and> phys s (kern_pdpe s) 3 \<noteq> 0 \<and> (\<forall>i < 380. phys s (kern_pgdir s) i = 0)"
    using k unfolding kern_ok_def by (elim conjE) (intro conjI)
  ultimately show ?thesis
    unfolding kern_ok_def kp kg space_state_simps using same by simp
qed

text \<open>The new state, field by field.\<close>

lemma env_alloc_fields:
  assumes s'_def: "s' = env_alloc_state pid e (space_state e p p2 p3 s)"
  shows "phys s' = space_mem p p2 p3 s" "npages s' = npages s" "boot_pml4e s' = boot_pml4e s" "curenv s' = curenv s"
    and "x \<noteq> e \<Longrightarrow> envs s' x = envs s x"
    and "env_pml4e (envs s' e) = Some p" "env_cr3 (envs s' e) = page2pa p"
      "env_status (envs s' e) = ENV_RUNNABLE" "env_id (envs s' e) = new_env_id (env_id (envs s e)) e"
    and "vm_inv s' xs gg = vm_inv (space_state e p p2 p3 s) xs gg"
    and "kern_ok s' xs gg = kern_ok (space_state e p p2 p3 s) xs gg"
    and "addr_ok s' gg r a = addr_ok (space_state e p p2 p3 s) gg r a"
    and "pte_at s' r a = pte_at (space_state e p p2 p3 s) r a"
  using vm_inv_cong [of s' "space_state e p p2 p3 s"] kern_ok_cong [of s' "space_state e p p2 p3 s"]
  by (simp_all add: s'_def env_alloc_state_def curenv_def space_state_def)

lemma free_head:
  assumes "env_chain s (e # es)"
  shows "e < NENV" "env_status (envs s e) = ENV_FREE" "\<not> live s e" "e \<notin> set es"
    "chain (\<lambda>e. env_link (envs s e)) (env_link (envs s e)) es"
    "x \<in> set es \<longleftrightarrow> x \<noteq> e \<and> x < NENV \<and> env_status (envs s x) = ENV_FREE"
proof -
  show d: "e \<notin> set es"
    using assms chain_distinct [of "\<lambda>e. env_link (envs s e)" _ "e # es"] by (auto simp: env_chain_def)
  show "e < NENV" "env_status (envs s e) = ENV_FREE" "\<not> live s e"
    "chain (\<lambda>e. env_link (envs s e)) (env_link (envs s e)) es"
    "x \<in> set es \<longleftrightarrow> x \<noteq> e \<and> x < NENV \<and> env_status (envs s x) = ENV_FREE"
    using assms d by (auto simp: env_chain_def live_def)
qed

lemma env_alloc_chain:
  fixes pid :: envid_t
  assumes c: "env_chain s (e # es)"
  shows "env_chain (env_alloc_state pid e (space_state e p p2 p3 s)) es"
proof -
  let ?s' = "env_alloc_state pid e (space_state e p p2 p3 s)"
  note h = free_head [OF c] and f = env_alloc_fields(5,8) [OF refl, where e = e and pid = pid and p = p and ?p2.0 = p2 and ?p3.0 = p3 and s = s]
  have "env_free_list ?s' = env_link (envs s e)" by (simp add: env_alloc_state_def)
  moreover have "chain (\<lambda>e. env_link (envs ?s' e)) q es = chain (\<lambda>e. env_link (envs s e)) q es" for q
    by (rule chain_cong) (metis f(1) h(4))
  moreover have "x \<in> set es \<longleftrightarrow> x < NENV \<and> env_status (envs ?s' x) = ENV_FREE" for x
    using h(6) [of x] f by (cases "x = e") auto
  ultimately show ?thesis using h(5) by (auto simp: env_chain_def)
qed

lemma env_alloc_maps:
  fixes pid :: envid_t
  assumes k: "kinv s (p # p2 # p3 # ps) (e # es) g"
  defines "s' \<equiv> env_alloc_state pid e (space_state e p p2 p3 s)"
  shows "addr_ok s g r a \<Longrightarrow> addr_ok s' (space_ghost p p2 p3 g) r a \<and> pte_at s' r a = pte_at s r a"
    and "a < UTOP \<Longrightarrow> addr_ok s' (space_ghost p p2 p3 g) p a"
    and "a < UTOP \<Longrightarrow> env_pte s' e a = 0" and "same_maps s s'"
proof -
  have inv: "vm_inv s (p # p2 # p3 # ps) g" and ko: "kern_ok s (p # p2 # p3 # ps) g"
    using kinvD(1,2) [OF k] .
  note f = env_alloc_fields [OF meta_eq_to_obj_eq [OF s'_def]]
  show ok: "addr_ok s' (space_ghost p p2 p3 g) r a \<and> pte_at s' r a = pte_at s r a" if "addr_ok s g r a" for r a
    using space_others [OF inv ko that, of e] f(12,13) by simp
  show "a < UTOP \<Longrightarrow> addr_ok s' (space_ghost p p2 p3 g) p a"
    using space_empty(1) [OF inv ko, of a e] f(12) by simp
  show "a < UTOP \<Longrightarrow> env_pte s' e a = 0"
    using space_empty(2) [OF inv ko, of a e] f(6,13) by (simp add: env_pte_def)
  have "env_pte s' x a = env_pte s x a" if x: "live s x" and a: "a < UTOP" for x a
  proof -
    obtain r where r: "env_pml4e (envs s x) = Some r" using live_root [OF k x] by blast
    have "x \<noteq> e" using x free_head(3) [OF kinvD(3) [OF k]] by auto
    then show ?thesis using ok [OF user_addr_ok [OF k x r a]] r f(5) [of x] by (simp add: env_pte_def)
  qed
  then show "same_maps s s'" by (simp add: same_maps_def)
qed

lemma env_alloc_spaces:
  fixes pid :: envid_t
  assumes k: "kinv s (p # p2 # p3 # ps) (e # es) g"
  defines "s' \<equiv> env_alloc_state pid e (space_state e p p2 p3 s)"
  shows "live s' x \<longleftrightarrow> live s x \<or> x = e"
    and "live s' x \<Longrightarrow> space_ok s' (space_ghost p p2 p3 g) x"
    and "live s' x \<Longrightarrow> live s' y \<Longrightarrow> env_pml4e (envs s' x) = env_pml4e (envs s' y) \<Longrightarrow> x = y"
proof -
  note f = env_alloc_fields [OF meta_eq_to_obj_eq [OF s'_def]] and m = env_alloc_maps [OF k, where pid = pid, folded s'_def]
    and h = free_head [OF kinvD(3) [OF k]]
  show lv: "live s' x \<longleftrightarrow> live s x \<or> x = e" for x
    using f(5) [of x] f(8) h(1,3) by (cases "x = e") (auto simp: live_def)
  show "space_ok s' (space_ghost p p2 p3 g) x" if "live s' x"
  proof (cases "x = e")
    case True
    have "lev (space_ghost p p2 p3 g) p = 4" using three_pages(1) [OF vm_invD(1) [OF kinvD(1) [OF k]]] by simp
    then show ?thesis using True f(6,7) m(2) by (auto simp: space_ok_def)
  next
    case False
    with that lv have "space_ok s g x" by (intro kinvD(6) [OF k]) simp
    then obtain root where r: "env_pml4e (envs s x) = Some root" "env_cr3 (envs s x) = page2pa root"
      "lev g root = 4" "\<And>a. a < UTOP \<Longrightarrow> addr_ok s g root a" by (rule space_okE) blast
    have "lev (space_ghost p p2 p3 g) root = 4"
      using m(1) [OF r(4), of 0] unat_UTOP by (simp add: addr_ok_def word_less_nat_alt)
    then show ?thesis using r m(1) f(5) [OF False] by (auto simp: space_ok_def)
  qed
  have np: "env_pml4e (envs s z) \<noteq> Some p" if "live s z" for z
  proof
    assume "env_pml4e (envs s z) = Some p"
    then have "lev g p = 4" using kinvD(6) [OF k that] by (auto simp: space_ok_def)
    then show False using space_facts(1) [OF kinvD(1,2) [OF k]] by simp
  qed
  show "x = y" if "live s' x" "live s' y" "env_pml4e (envs s' x) = env_pml4e (envs s' y)"
    using that lv [of x] lv [of y] np [of x] np [of y] kinvD(7) [OF k, of x y] f(6) f(5) [of x] f(5) [of y]
    by (cases "x = e"; cases "y = e") auto
qed

lemma env_alloc_kinv:
  fixes pid :: envid_t
  assumes k: "kinv s (p # p2 # p3 # ps) (e # es) g"
  defines "s' \<equiv> env_alloc_state pid e (space_state e p p2 p3 s)"
  shows "kinv s' ps es (space_ghost p p2 p3 g)"
proof -
  note f = env_alloc_fields [OF meta_eq_to_obj_eq [OF s'_def]] and sp = env_alloc_spaces [OF k, where pid = pid, folded s'_def]
    and h = free_head [OF kinvD(3) [OF k]]
  note id = new_env_id_props [OF h(1) kinvD(9) [OF k h(1)]]
  have "vm_inv s' ps (space_ghost p p2 p3 g)" "kern_ok s' ps (space_ghost p p2 p3 g)"
    using space_vm_inv [OF kinvD(1,2) [OF k], of e] kern_ok_space [OF kinvD(2) [OF k] vm_invD(1) [OF kinvD(1) [OF k]], of e]
      f(10,11) by simp_all
  moreover have "env_chain s' es" unfolding s'_def by (rule env_alloc_chain [OF kinvD(3) [OF k]])
  moreover have "ENVX (env_id (envs s' x)) = x \<and> env_id (envs s' x) \<noteq> 0" if "live s' x" for x
    using that sp(1) [of x] kinvD(4,5) [OF k, of x] f(9) f(5) [of x] id by (cases "x = e") auto
  moreover have "0 \<le> sint (env_id (envs s' x))" if "x < NENV" for x
    using kinvD(9) [OF k that] f(9) f(5) [of x] id by (cases "x = e") auto
  moreover have "live s' x" if "curenv s' = Some x" for x
    using that f(4) kinvD(8) [OF k, of x] sp(1) by simp
  ultimately show ?thesis
    using sp(2,3) unfolding kinv_def by (intro conjI allI impI) blast+
qed

section \<open>sys_exofork\<close>

lemma sys_exofork_spec:
  assumes k: "kinv s (p # p2 # p3 # ps) (e # es) g" and c: "curenv s = Some c"
  shows "\<exists>s' g'. sys_exofork s = Some (sint (env_id (envs s' e)), s') \<and> kinv s' ps es g' \<and> \<not> live s e \<and> live s' e \<and>
    ENVX (env_id (envs s' e)) = e \<and> 0 < sint (env_id (envs s' e)) \<and> env_id (envs s' e) \<noteq> env_id (envs s e) \<and>
    env_parent_id (envs s' e) = env_id (envs s c) \<and> env_status (envs s' e) = ENV_NOT_RUNNABLE \<and>
    env_tf (envs s' e) = (env_tf (envs s c))\<lparr>tf_regs := (tf_regs (env_tf (envs s c)))\<lparr>reg_rax := 0\<rparr>\<rparr> \<and>
    (\<forall>a < UTOP. env_pte s' e a = 0) \<and> same_maps s s' \<and> (\<forall>x. x \<noteq> e \<longrightarrow> envs s' x = envs s x) \<and>
    curenv s' = curenv s \<and> cr3 s' = cr3 s \<and> keeps_data (p # p2 # p3 # ps) g s s' \<and> same_ghost (p # p2 # p3 # ps) g g' \<and>
    spends 3 1 (p # p2 # p3 # ps) s ps s'"
proof -
  let ?pid = "env_id (envs s c)"
  let ?s1 = "env_alloc_state ?pid e (space_state e p p2 p3 s)"
  define f :: "env \<Rightarrow> env" where "f = (\<lambda>v. v\<lparr>env_status := ENV_NOT_RUNNABLE,
      env_tf := (env_tf (envs ?s1 c))\<lparr>tf_regs := (tf_regs (env_tf (envs ?s1 c)))\<lparr>reg_rax := 0\<rparr>\<rparr>\<rparr>)"
  note fl = env_alloc_fields [OF refl, where e = e and pid = ?pid and p = p and ?p2.0 = p2 and ?p3.0 = p3 and s = s]
    and h = free_head [OF kinvD(3) [OF k]]
  have ce: "c \<noteq> e" using kinvD(8) [OF k c] h(3) by auto
  have k': "kinv (upd_env e f ?s1) ps es (space_ghost p p2 p3 g)"
    by (rule kinv_upd_env [OF env_alloc_kinv [OF k]]) (simp_all add: f_def fl(8))
  have pt: "env_pte (upd_env e f ?s1) x a = env_pte ?s1 x a" for x a
    by (rule env_pte_upd_env) (simp add: f_def)
  have "sys_exofork s = Some (sint (env_id (envs (upd_env e f ?s1) e)), upd_env e f ?s1)"
    using c by (simp add: sys_exofork_def env_alloc_eq [OF k] f_def Let_def)
  moreover have "env_parent_id (envs ?s1 e) = ?pid" by (simp add: env_alloc_state_def)
  moreover have "live (upd_env e f ?s1) e" using h(1) by (simp add: live_def f_def)
  moreover have "keeps_data (p # p2 # p3 # ps) g s (upd_env e f ?s1)" by (simp add: keeps_data_def fl(1) space_mem_def)
  moreover have "same_ghost (p # p2 # p3 # ps) g (space_ghost p p2 p3 g)" by (simp add: same_ghost_def)
  moreover have "spends 3 1 (p # p2 # p3 # ps) s ps (upd_env e f ?s1)"
    using unat_inc_le by (simp add: spends_def env_alloc_state_def space_pages_def)
  moreover have "cr3 (upd_env e f ?s1) = cr3 s" by (simp add: env_alloc_state_def space_state_def)
  ultimately show ?thesis
    using k' fl(4) new_env_id_props [OF h(1) kinvD(9) [OF k h(1)]] fl(5) fl(9) h(3) ce
      env_alloc_maps(3,4) [OF k, where pid = ?pid] pt
    by (intro exI [of _ "upd_env e f ?s1"] exI [of _ "space_ghost p p2 p3 g"])
      (simp add: f_def same_maps_def)
qed

end
