(* ===== verification/Sample_Kernel.thy ===== *)
theory Sample_Kernel
  imports Sample Env_Spec
begin

text \<open>The concrete machine of Sample satisfies the invariant of the whole kernel.\<close>

lemma sample_fields [simp]:
  "boot_pml4e sample = 9" "env_free_list sample = Some 2" "cpunum sample = 0" "env_pml4e sample_env = Some 1"
  "env_pml4e sample_child = Some 12" "env_id sample_env = 0x1000" "env_id sample_child = 0x1001"
  "envs sample 0 = sample_env" "envs sample (Suc 0) = sample_child"
  "kernel_lock sample = \<lparr>locked = True, lk_cpu = Some 0\<rparr>" "ticks sample = 0"
  by (simp_all add: sample_def sample_env_def sample_child_def)

lemma sample_rest: "2 \<le> e \<Longrightarrow> envs sample e = zero_env\<lparr>env_link := if e < 1023 then Some (Suc e) else None\<rparr>"
  by (simp add: sample_def)

lemma sample_live: "live sample e \<longleftrightarrow> e = 0 \<or> e = 1"
proof (cases "2 \<le> e")
  case True
  then show ?thesis by (simp add: live_def sample_rest zero_env_def)
next
  case False
  then have "e = 0 \<or> e = 1" by auto
  then show ?thesis by (auto simp: live_def NENV_def sample_env_def sample_child_def)
qed

lemma chain_upt:
  assumes "\<And>e. e < n \<Longrightarrow> m \<le> e \<Longrightarrow> nxt e = (if Suc e < n then Some (Suc e) else None)"
  shows "m \<le> k \<Longrightarrow> k < n \<Longrightarrow> chain nxt (Some k) [k..<n]"
proof (induction "n - k" arbitrary: k)
  case (Suc d)
  have n: "nxt k = (if Suc k < n then Some (Suc k) else None)" using assms [of k] Suc.prems by simp
  show ?case
  proof (cases "Suc k < n")
    case True
    then show ?thesis using Suc n by (simp add: upt_conv_Cons [of k])
  next
    case False
    then have "n = Suc k" using Suc.prems by simp
    then show ?thesis using n by simp
  qed
qed simp

lemma sample_chain: "env_chain sample [2..<NENV]"
proof -
  have "chain (\<lambda>e. env_link (envs sample e)) (Some 2) [2..<NENV]"
  proof (rule chain_upt [where m = 2])
    show "env_link (envs sample e) = (if Suc e < NENV then Some (Suc e) else None)" if "2 \<le> e" for e
      unfolding sample_rest [OF that] NENV_def by simp
  qed (simp_all add: NENV_def)
  moreover have "e < NENV \<and> env_status (envs sample e) = ENV_FREE \<longleftrightarrow> 2 \<le> e \<and> e < NENV" for e
  proof -
    have "0 < NENV" "1 < NENV" by (simp_all add: NENV_def)
    then show ?thesis using sample_live [of e] unfolding live_def by (cases "2 \<le> e") auto
  qed
  ultimately show ?thesis unfolding env_chain_def sample_fields by (intro conjI set_eqI) simp_all
qed

lemma sample_kern_ok: "kern_ok sample [6, 7, 8, 13, 14] sample_ghost"
proof -
  have "kern_pdpe sample = 10" by (simp add: kern_pdpe_def sample_phys_def)
  moreover from this have "kern_pgdir sample = 11" by (simp add: kern_pgdir_def sample_phys_def)
  ultimately show ?thesis by (simp add: kern_ok_def sample_phys_def sample_ghost_def)
qed

lemma sample_spaces: "live sample e \<Longrightarrow> space_ok sample sample_ghost e"
proof -
  assume "live sample e"
  then consider "e = 0" | "e = 1" by (auto simp: sample_live)
  moreover have "lev sample_ghost 1 = 4" "lev sample_ghost 12 = 4" by (simp_all add: sample_ghost_def)
  ultimately show ?thesis
    using sample_addr_ok by cases (auto simp: space_ok_def sample_env_def sample_child_def page2pa_def)
qed

lemma sample_kinv: "kinv sample [6, 7, 8, 13, 14] [2..<NENV] sample_ghost"
proof -
  have "ENVX (env_id (envs sample e)) = e \<and> env_id (envs sample e) \<noteq> 0" if "live sample e" for e
    using that by (auto simp: sample_live ENVX_def)
  moreover have "e = e'" if "live sample e" "live sample e'" "env_pml4e (envs sample e) = env_pml4e (envs sample e')" for e e'
    using that by (auto simp: sample_live)
  moreover have "0 \<le> sint (env_id (envs sample e))" for e
  proof -
    consider "e = 0" | "e = 1" | "2 \<le> e" by linarith
    then show ?thesis by cases (simp_all add: sample_rest zero_env_def sint_nonneg)
  qed
  moreover have "live sample e" if "curenv sample = Some e" for e using that by (simp add: sample_live)
  ultimately show ?thesis
    using sample_vm_inv sample_kern_ok sample_chain sample_spaces unfolding kinv_def by blast
qed

lemma sample_env_pte: "env_pte sample 0 0x800000 = leaf_pte 5 7" "env_pte sample (Suc 0) a = 0"
proof -
  show "env_pte sample 0 0x800000 = leaf_pte 5 7" using sample_pte by (simp add: env_pte_def)
  have "pte_at sample 12 a = 0" by (simp add: pte_at_def path_def sample_phys_def)
  then show "env_pte sample (Suc 0) a = 0" by (simp add: env_pte_def)
qed

lemma sample_may_name: "may_name sample 0 b 0" "may_name sample 0x1001 True 1" "may_name sample 0x1001 False 1"
  by (simp_all add: may_name_def sample_live ENVX_def sample_child_def)

end
