(* ===== verification/Trap.thy ===== *)
theory Trap
  imports Syscall
begin

text \<open>
  Traps and interrupts: kern/trap.c from the point where the entry code of
  kern/trapentry.S has built the trap frame. The contents of the descriptor tables are not
  modelled.
\<close>

section \<open>Trap numbers (inc/trap.h)\<close>

definition T_DIVIDE :: nat where [jos_consts]: "T_DIVIDE = 0"
definition T_BRKPT :: nat where [jos_consts]: "T_BRKPT = 3"
definition T_PGFLT :: nat where [jos_consts]: "T_PGFLT = 14"
definition T_SYSCALL :: nat where [jos_consts]: "T_SYSCALL = 48"
definition IRQ_OFFSET :: nat where [jos_consts]: "IRQ_OFFSET = 32"
definition IRQ_TIMER :: nat where [jos_consts]: "IRQ_TIMER = 0"
definition IRQ_KBD :: nat where [jos_consts]: "IRQ_KBD = 1"
definition IRQ_SERIAL :: nat where [jos_consts]: "IRQ_SERIAL = 4"
definition IRQ_SPURIOUS :: nat where [jos_consts]: "IRQ_SPURIOUS = 7"

section \<open>The frame a handler works on\<close>

text \<open>
  The pointer \<open>tf\<close>: the frame on the kernel stack, or \<open>env_tf\<close> of an environment. The
  frame on the stack is not read again after a handler wrote to it.
\<close>

datatype tfptr = StackTf Trapframe | EnvTf nat

fun get_tf :: "tfptr \<Rightarrow> kstate \<Rightarrow> Trapframe" where
  "get_tf (StackTf f) s = f"
| "get_tf (EnvTf e) s = env_tf (envs s e)"

fun upd_tf :: "tfptr \<Rightarrow> (Trapframe \<Rightarrow> Trapframe) \<Rightarrow> kstate \<Rightarrow> kstate" where
  "upd_tf (StackTf f) g s = s"
| "upd_tf (EnvTf e) g s = upd_env e (\<lambda>v. v\<lparr>env_tf := g (env_tf v)\<rparr>) s"

section \<open>Handlers\<close>

definition destroy_curenv :: "kstate \<Rightarrow> unit ctl option" where
  "destroy_curenv s = do { e \<leftarrow> curenv s; env_destroy e s }"

definition divide_error_handler :: "kstate \<Rightarrow> unit ctl option" where
  "divide_error_handler s = destroy_curenv s"

text \<open>\<open>struct UTrapframe\<close> is stored field by field in the order of the source.\<close>

definition SIZEOF_UTF :: u64 where [jos_consts]: "SIZEOF_UTF = 160"

definition regs_list :: "PushRegs \<Rightarrow> u64 list" where
  "regs_list r = [reg_r15 r, reg_r14 r, reg_r13 r, reg_r12 r, reg_r11 r, reg_r10 r, reg_r9 r, reg_r8 r,
     reg_rsi r, reg_rdi r, reg_rbp r, reg_rdx r, reg_rcx r, reg_rbx r, reg_rax r]"

definition push_utf :: "u64 \<Rightarrow> u64 \<Rightarrow> Trapframe \<Rightarrow> kstate \<Rightarrow> kstate option" where
  "push_utf utf fault_va f s = do {
     s \<leftarrow> kstore64 (utf + 152) (tf_rsp f) s;
     s \<leftarrow> kstore64 (utf + 144) (tf_eflags f) s;
     s \<leftarrow> kstore64 (utf + 136) (tf_rip f) s;
     s \<leftarrow> foldM (\<lambda>i. kstore64 (utf + 16 + 8 * of_nat i) (regs_list (tf_regs f) ! i)) [0..<15] s;
     s \<leftarrow> kstore64 (utf + 8) (tf_err f) s;
     kstore64 utf fault_va s
   }"

definition utf_address :: "Trapframe \<Rightarrow> u64" where
  "utf_address f =
     (let stktop = (if tf_rsp f < UXSTACKTOP \<and> UXSTACKTOP - PGSIZE \<le> tf_rsp f then tf_rsp f - 8 else UXSTACKTOP)
      in stktop - SIZEOF_UTF)"

definition page_fault_handler :: "u64 \<Rightarrow> tfptr \<Rightarrow> kstate \<Rightarrow> unit ctl option" where
  "page_fault_handler cr2 tf s =
     (if tf_cs (get_tf tf s) = 8 then None
      else do {
        e \<leftarrow> curenv s;
        if env_pgfault_upcall (envs s e) \<noteq> 0 then do {
          let utf = utf_address (get_tf tf s);
          cbind (user_mem_assert e utf SIZEOF_UTF PTE_W s) (\<lambda>_ s. do {
            s \<leftarrow> push_utf utf cr2 (get_tf tf s) s;
            let s = upd_tf tf (\<lambda>f. f\<lparr>tf_rip := env_pgfault_upcall (envs s e), tf_rsp := utf\<rparr>) s;
            env_run e s
          })
        }
        else env_destroy e s
      })"

definition breakpoint_handler :: "kstate \<Rightarrow> unit ctl option" where
  "breakpoint_handler s = Some (Monitor s)"

section \<open>Dispatch\<close>

definition trap_dispatch :: "u64 \<Rightarrow> tfptr \<Rightarrow> kstate \<Rightarrow> unit ctl option" where
  "trap_dispatch cr2 tf s =
     (let trapno = unat (tf_trapno (get_tf tf s));
          swtch = unat (ucast (tf_trapno (get_tf tf s)) :: u32)
      in
      if trapno = IRQ_OFFSET + IRQ_SPURIOUS then Some (Returns () s)
      else if trapno = IRQ_OFFSET + IRQ_KBD then do { c \<leftarrow> kbd_intr (cons s); Some (Returns () (s\<lparr>cons := c\<rparr>)) }
      else if trapno = IRQ_OFFSET + IRQ_SERIAL then
        do { c \<leftarrow> serial_intr (cons s); Some (Returns () (s\<lparr>cons := c\<rparr>)) }
      else if swtch = T_DIVIDE then divide_error_handler s
      else if swtch = T_PGFLT then page_fault_handler cr2 tf s
      else if swtch = T_BRKPT then breakpoint_handler s
      else if swtch = IRQ_OFFSET + IRQ_TIMER then do { s \<leftarrow> time_tick s; sched_yield s }
      else if swtch = T_SYSCALL then
        (let r = tf_regs (get_tf tf s)
         in cbind (syscall (reg_rax r) (reg_rdx r) (reg_rcx r) (reg_rbx r) (reg_rdi r) (reg_rsi r) s)
              (\<lambda>v s. Some (Returns () (upd_tf tf (\<lambda>f. f\<lparr>tf_regs := (tf_regs f)\<lparr>reg_rax := of_int v\<rparr>\<rparr>) s))))
      else if IRQ_OFFSET \<le> trapno \<and> trapno < IRQ_OFFSET + 16 then sched_yield s
      else if tf_cs (get_tf tf s) = GD_KT then None
      else destroy_curenv s)"

text \<open>What \<open>trap\<close> does once the frame is in place.\<close>

definition trap_return :: "kstate \<Rightarrow> unit ctl option" where
  "trap_return s =
     (case curenv s of
        Some e \<Rightarrow> if env_status (envs s e) = ENV_RUNNING then env_run e s else sched_yield s
      | None \<Rightarrow> sched_yield s)"

definition trap :: "u64 \<Rightarrow> Trapframe \<Rightarrow> kstate \<Rightarrow> unit ctl option" where
  "trap cr2 f s =
     (if tf_cs f AND 3 = 3 then do {
        s \<leftarrow> lock_kernel s;
        e \<leftarrow> curenv s;
        if env_status (envs s e) = ENV_DYING then do {
          s \<leftarrow> env_free e s;
          sched_yield (set_curenv None s)
        }
        else cbind (trap_dispatch cr2 (EnvTf e) (upd_env e (\<lambda>v. v\<lparr>env_tf := f\<rparr>) s)) (\<lambda>_ s. trap_return s)
      }
      else cbind (trap_dispatch cr2 (StackTf f) s) (\<lambda>_ s. trap_return s))"

end
