(* ===== verification/Kernel_Theorems.thy ===== *)
theory Kernel_Theorems
  imports Isolation Sample_Kernel Trap
begin

text \<open>
  The properties of environments and system calls: kern/env.c and kern/syscall.c over the
  memory manager.
\<close>

lemma lift_returns: "lift m = Some (Returns r s) \<Longrightarrow> m = Some (r, s)"
  by (auto simp: lift_def split: Option.bind_splits)

section \<open>Memory system calls\<close>







section \<open>Creating environments\<close>





text \<open>
  A failing env_setup_vm leaks: when memory runs out after its first or second page, the
  pages it took are neither on the free list nor referenced by anything.
\<close>

theorem env_setup_vm_leaks:
  assumes "alloc_inv s xs" and "xs \<noteq> []" and "length xs < 3"
  shows "\<exists>s'. env_setup_vm e s = Some (- E_NO_MEM, s') \<and> alloc_inv s' [] \<and>
    (\<forall>p \<in> set xs. pp_ref (pages s' p) = 0)"
proof -
  consider p where "xs = [p]" | p q where "xs = [p, q]"
    using assms(2,3) by (cases xs rule: remdups_adj.cases) auto
  then show ?thesis
  proof cases
    case 1
    have a: "alloc_inv s [p]" using assms(1) 1 by simp
    show ?thesis
      using page_alloc_head [OF a, of ALLOC_ZERO] alloc_state_inv [OF a, of ALLOC_ZERO] alloc_invD(6) [OF a, of p] 1
        page_alloc_empty [of "alloc_state ALLOC_ZERO p s" ALLOC_ZERO]
      by (simp add: env_setup_vm_def)
  next
    case 2
    have a: "alloc_inv s [p, q]" using assms(1) 2 by simp
    let ?s1 = "alloc_state ALLOC_ZERO p s"
    note b = alloc_state_inv [OF a, of ALLOC_ZERO]
    show ?thesis
      using page_alloc_head [OF a, of ALLOC_ZERO] page_alloc_head [OF b, of ALLOC_ZERO]
        alloc_state_inv [OF b, of ALLOC_ZERO] alloc_invD(6) [OF a] 2
        page_alloc_empty [of "alloc_state ALLOC_ZERO q ?s1" ALLOC_ZERO]
      by (simp add: env_setup_vm_def)
  qed
qed

theorem env_setup_vm_leaks_witness:
  "\<exists>s'. env_setup_vm 2 (sample\<lparr>page_free_list := Some 14\<rparr>) = Some (- E_NO_MEM, s') \<and> alloc_inv s' [] \<and>
     pp_ref (pages s' 14) = 0"
proof -
  have "alloc_inv (sample\<lparr>page_free_list := Some 14\<rparr>) [14]"
    by (simp add: alloc_inv_def free_pages_def sample_page_def)
  from env_setup_vm_leaks [OF this, of 2] show ?thesis by auto
qed

section \<open>Interprocess communication\<close>







end
