(* ===== verification/Sched_Theorems.thy ===== *)
theory Sched_Theorems
  imports Trap Sample_Kernel
begin

text \<open>
  The properties of the clock (kern/time.c), the scheduler (kern/sched.c) and their composition
  in the timer interrupt (kern/trap.c).
\<close>

section \<open>The clock\<close>

lemma ten_times: "n \<le> 429496729 \<Longrightarrow> unat (of_nat n * 10 :: u32) = n * 10"
  by (simp add: unat_word_ariths unat_of_nat)

lemma time_tick_small:
  assumes "unat (ticks s) < 429496729"
  shows "time_tick s = Some (s\<lparr>ticks := ticks s + 1\<rparr>)" "unat (ticks s + 1) = unat (ticks s) + 1"
proof -
  show u: "unat (ticks s + 1) = unat (ticks s) + 1" using assms by (simp add: unat_word_ariths)
  have "ticks s + 1 = of_nat (unat (ticks s) + 1)" by simp
  with ten_times [of "unat (ticks s) + 1"] have "unat ((ticks s + 1) * 10) = (unat (ticks s) + 1) * 10"
    using assms by (metis Suc_eq_plus1 Suc_leI)
  then have "\<not> (ticks s + 1) * 10 < ticks s + 1" using u by (simp add: word_less_nat_alt)
  then show "time_tick s = Some (s\<lparr>ticks := ticks s + 1\<rparr>)" by (simp add: time_tick_def Let_def)
qed

lemma time_tick_last: "unat (ticks s) = 429496729 \<Longrightarrow> time_tick s = None"
proof -
  assume a: "unat (ticks s) = 429496729"
  then have "ticks s = 429496729" by (simp add: word_unat_eq_iff)
  then show ?thesis by (simp add: time_tick_def)
qed

text \<open>
  After n timer interrupts since time_init, time_msec reports exactly 10 n milliseconds as
  long as n is at most 429496729; the next interrupt panics, so the clock never shows a wrapped
  value.
\<close>

theorem clock_exact:
  "foldM (\<lambda>_. time_tick) [0..<n] (time_init s) =
     (if n \<le> 429496729 then Some (s\<lparr>ticks := of_nat n\<rparr>) else None) \<and>
   (n \<le> 429496729 \<longrightarrow> unat (time_msec (s\<lparr>ticks := of_nat n\<rparr>)) = 10 * n)"
proof -
  have "foldM (\<lambda>_. time_tick) [0..<n] (time_init s) =
     (if n \<le> 429496729 then Some (s\<lparr>ticks := of_nat n\<rparr>) else None)"
  proof (induction n)
    case 0
    then show ?case by (simp add: time_init_def)
  next
    case (Suc n)
    let ?s = "s\<lparr>ticks := of_nat n\<rparr>"
    have f: "foldM (\<lambda>_. time_tick) [0..<Suc n] (time_init s) =
        do { u \<leftarrow> foldM (\<lambda>_. time_tick) [0..<n] (time_init s); time_tick u }"
      by (simp add: foldM_append split: option.split Option.bind_split)
    consider "n < 429496729" | "n = 429496729" | "429496729 < n" by linarith
    then show ?case
    proof cases
      case 1
      then have "unat (ticks ?s) = n" by (simp add: unat_of_nat)
      with 1 time_tick_small(1) [of ?s] have "time_tick ?s = Some (s\<lparr>ticks := of_nat (Suc n)\<rparr>)"
        by (simp add: add.commute)
      then show ?thesis using 1 unfolding f Suc.IH by simp
    next
      case 2
      then have "unat (ticks ?s) = 429496729" by simp
      from time_tick_last [OF this] show ?thesis using 2 unfolding f Suc.IH by simp
    next
      case 3
      then show ?thesis unfolding f Suc.IH by simp
    qed
  qed
  then show ?thesis using ten_times [of n] by (simp add: time_msec_def mult.commute)
qed

theorem clock_exact_witness:
  "\<exists>s'. foldM (\<lambda>_. time_tick) [0..<100] (time_init sample) = Some s' \<and> time_msec s' = 1000"
  using clock_exact [of 100 sample] by (auto simp: word_unat_eq_iff)

section \<open>Round robin\<close>



text \<open>
  When the current environment is the last one of the array, sched_yield starts its search at
  envs[NENV], outside the array.
\<close>

theorem sched_yield_past_end:
  assumes "curenv s = Some (NENV - 1)"
  shows "(sched_yield s :: unit ctl option) = None"
proof -
  have "NENV - 1 = Suc (NENV - 2)" "Suc (NENV - 1) = NENV" by (simp_all add: NENV_def)
  then show ?thesis using assms by (simp add: sched_yield_def)
qed

theorem sched_yield_past_end_witness:
  "(sched_yield (set_curenv (Some (NENV - 1)) sample) :: unit ctl option) = None"
  by (rule sched_yield_past_end) (simp add: set_curenv_def curenv_def)

section \<open>The timer interrupt\<close>

text \<open>A CPU in user mode: its environment runs and the kernel lock is free.\<close>

definition in_user :: "kstate \<Rightarrow> nat \<Rightarrow> bool" where
  "in_user s i \<longleftrightarrow> curenv s = Some i \<and> i < NENV \<and> env_status (envs s i) = ENV_RUNNING \<and> \<not> locked (kernel_lock s)"

definition timer_frame :: "Trapframe \<Rightarrow> bool" where
  "timer_frame f \<longleftrightarrow> tf_cs f AND 3 = 3 \<and> tf_trapno f = 32"

fun timer_traps :: "Trapframe list \<Rightarrow> kstate \<Rightarrow> kstate option" where
  "timer_traps [] s = Some s"
| "timer_traps (f # fs) s =
     (case trap 0 f s of Some (UserMode s') \<Rightarrow> timer_traps fs s' | _ \<Rightarrow> None)"

lemma env_run_user:
  assumes "holding (kernel_lock s) (cpunum s)" and "curenv s = Some i" and "i \<noteq> e"
    and "env_status (envs s i) = ENV_RUNNING"
  shows "\<exists>s'. (env_run e s :: 'a ctl option) = Some (UserMode s') \<and> curenv s' = Some e \<and> ticks s' = ticks s \<and>
    env_status (envs s' e) = ENV_RUNNING \<and> \<not> locked (kernel_lock s') \<and> env_status (envs s' i) = ENV_RUNNABLE \<and>
    (\<forall>x. x \<notin> {i, e} \<longrightarrow> envs s' x = envs s x)"
  using assms
  by (simp add: env_run_def unlock_kernel_def spin_unlock_def xchg_def env_pop_tf_def set_curenv_def curenv_def
      lcr3_def upd_env_def holding_def Let_def)

lemma timer_step:
  assumes u: "in_user s i" "i < NENV - 1" and f: "timer_frame f" and t: "unat (ticks s) < 429496729"
    and e: "find (runnable s) (rr_order i) = Some e"
  shows "\<exists>s'. trap cr2 f s = Some (UserMode s') \<and> (e < NENV \<longrightarrow> in_user s' e) \<and> unat (ticks s') = unat (ticks s) + 1 \<and>
    (\<forall>x. x \<notin> {i, e} \<longrightarrow> envs s' x = envs s x)"
proof -
  define lk where "lk = (kernel_lock s)\<lparr>locked := True, lk_cpu := Some (cpunum s)\<rparr>"
  have lk: "spin_lock (cpunum s) (kernel_lock s) = Some lk" "holding lk (cpunum s)"
    using u(1) by (simp_all add: in_user_def spin_lock_def holding_def xchg_def lk_def)
  define s1 where "s1 = upd_env i (\<lambda>v. v\<lparr>env_tf := f\<rparr>) (s\<lparr>kernel_lock := lk\<rparr>)"
  define s2 where "s2 = s1\<lparr>ticks := ticks s1 + 1\<rparr>"
  have s2: "curenv s2 = Some i" "runnable s2 = runnable s" "holding (kernel_lock s2) (cpunum s2)"
    "env_status (envs s2 i) = ENV_RUNNING" "ticks s2 = ticks s + 1" "\<And>x. x \<noteq> i \<Longrightarrow> envs s2 x = envs s x"
    using u(1) lk(2) by (auto simp: s2_def s1_def in_user_def curenv_def runnable_def fun_eq_iff upd_env_def)
  have tick: "time_tick s1 = Some s2" "unat (ticks s + 1) = unat (ticks s) + 1"
    using time_tick_small [of s1] t by (simp_all add: s1_def s2_def)
  have "find (runnable s2) (rr_order i) = Some e" using e s2(2) by simp
  then have y: "(sched_yield s2 :: unit ctl option) = env_run e s2"
    using sched_yield_find [OF u(2), of s2] s2(1) by simp
  have ie: "i \<noteq> e" using e u(1) by (auto simp: find_Some_iff runnable_def in_user_def)
  obtain s' where s': "(env_run e s2 :: unit ctl option) = Some (UserMode s')" "curenv s' = Some e" "ticks s' = ticks s2"
      "env_status (envs s' e) = ENV_RUNNING" "\<not> locked (kernel_lock s')" "\<forall>x. x \<notin> {i, e} \<longrightarrow> envs s' x = envs s2 x"
    using env_run_user [OF s2(3,1) ie s2(4)] by blast
  have "trap_dispatch cr2 (EnvTf i) s1 = sched_yield s2"
    using f tick(1) by (simp add: trap_dispatch_def timer_frame_def s1_def jos_consts)
  moreover have "trap cr2 f s = cbind (trap_dispatch cr2 (EnvTf i) s1) (\<lambda>_ s. trap_return s)"
    using f u(1) lk(1) by (simp add: trap_def timer_frame_def lock_kernel_def in_user_def curenv_def s1_def)
  ultimately have "trap cr2 f s = Some (UserMode s')" using y s'(1) by simp
  then show ?thesis using s' s2 tick(2) by (auto simp: in_user_def)
qed

text \<open>Positions in the round-robin order are distances modulo the size of the array.\<close>

lemma rr_order_nth:
  assumes "i < NENV" and "m < NENV - 1"
  shows "rr_order i ! m = (i + Suc m) mod NENV"
proof (cases "i + Suc m < NENV")
  case True
  then have "m < NENV - Suc i" by simp
  then show ?thesis using True by (simp add: rr_order_def nth_append)
next
  case False
  then have "(i + Suc m) mod NENV = i + Suc m - NENV"
    using assms by (simp add: mod_if)
  moreover have "\<not> m < NENV - Suc i" using False by simp
  ultimately show ?thesis using False assms by (simp add: rr_order_def nth_append add.commute)
qed

lemma rr_order_length [simp]: "i < NENV \<Longrightarrow> length (rr_order i) = NENV - 1"
  by (simp add: rr_order_def)

text \<open>The first runnable environment is at most as far away as any other runnable one.\<close>

lemma rr_find:
  assumes i: "i < NENV" and d: "0 < d" "d < NENV" and k: "runnable s ((i + d) mod NENV)"
  shows "\<exists>n. 0 < n \<and> n \<le> d \<and> find (runnable s) (rr_order i) = Some ((i + n) mod NENV)"
proof -
  have "d - 1 < NENV - 1" using d by simp
  then have at: "rr_order i ! (d - 1) = (i + d) mod NENV" using rr_order_nth [OF i] d by simp
  moreover have "d - 1 < length (rr_order i)" using rr_order_length [OF i] \<open>d - 1 < NENV - 1\<close> by simp
  ultimately have "(i + d) mod NENV \<in> set (rr_order i)" by (metis nth_mem)
  then obtain e where e: "find (runnable s) (rr_order i) = Some e"
    using k by (cases "find (runnable s) (rr_order i)") (auto simp: find_None_iff)
  then obtain m where m: "m < length (rr_order i)" "e = rr_order i ! m" "\<forall>j < m. \<not> runnable s (rr_order i ! j)"
    by (auto simp: find_Some_iff)
  have "m \<le> d - 1"
  proof (rule ccontr)
    assume "\<not> m \<le> d - 1"
    then have "\<not> runnable s (rr_order i ! (d - 1))" using m(3) by simp
    then show False using at k by simp
  qed
  then show ?thesis using e m rr_order_nth [OF i, of m] rr_order_length [OF i] d by (intro exI [of _ "Suc m"]) auto
qed

text \<open>
  C7 No environment starves: if the timer interrupts user mode again and again, an environment
  that is runnable runs after at most d interrupts, where d is its distance from the current
  environment in the array (taken as a ring). The last slot must not be runnable unless it is
  the environment in question, since the search cannot go on from it.
\<close>

theorem timer_liveness:
  assumes "in_user s i" and "i < NENV - 1" and "0 < d" and "d < NENV" and "k = (i + d) mod NENV"
    and "runnable s k" and "k \<noteq> NENV - 1 \<longrightarrow> \<not> runnable s (NENV - 1)"
    and "list_all timer_frame fs" and "length fs = d" and "unat (ticks s) + d \<le> 429496729"
  shows "\<exists>n s'. n \<le> d \<and> timer_traps (take n fs) s = Some s' \<and> in_user s' k"
  using assms
proof (induction d arbitrary: s i fs rule: less_induct)
  case (less d)
  have i: "i < NENV" using less.prems(2) by simp
  obtain n where n: "0 < n" "n \<le> d" "find (runnable s) (rr_order i) = Some ((i + n) mod NENV)"
    using rr_find [OF i less.prems(3,4)] less.prems(5,6) by blast
  define e where "e = (i + n) mod NENV"
  have e: "e < NENV" "runnable s e" using n(3) by (auto simp: e_def NENV_def find_Some_iff)
  obtain f fs' where fs: "fs = f # fs'" using less.prems(3,9) by (cases fs) auto
  have tf: "timer_frame f" "list_all timer_frame fs'" "unat (ticks s) < 429496729"
    using less.prems(3,8,10) fs by auto
  obtain s1 where s1: "trap 0 f s = Some (UserMode s1)" "in_user s1 e" "unat (ticks s1) = unat (ticks s) + 1"
      "\<forall>x. x \<notin> {i, e} \<longrightarrow> envs s1 x = envs s x"
    using timer_step [OF less.prems(1,2) tf(1,3) n(3) [folded e_def], of 0] e(1) by blast
  show ?case
  proof (cases "e = k")
    case True
    then show ?thesis using s1 fs less.prems(3) by (intro exI [of _ "Suc 0"] exI [of _ s1]) simp
  next
    case False
    have "n \<noteq> d" using False less.prems(5) by (auto simp: e_def)
    then have nd: "n < d" using n(2) by simp
    have kd: "k = (e + (d - n)) mod NENV"
      unfolding e_def mod_add_left_eq less.prems(5) using nd by simp
    have ki: "k \<noteq> i" using less.prems(1,6) by (auto simp: in_user_def runnable_def)
    have el: "e < NENV - 1"
      using e less.prems(7) False by (cases "e = NENV - 1") (auto simp: NENV_def)
    have rn: "runnable s1 x = runnable s x" if "x \<notin> {i, e}" for x using s1(4) that by (simp add: runnable_def)
    have "runnable s1 k" using rn [of k] ki False less.prems(6) by simp
    moreover have "k \<noteq> NENV - 1 \<longrightarrow> \<not> runnable s1 (NENV - 1)"
      using rn [of "NENV - 1"] el less.prems(2,7) by simp
    moreover have "list_all timer_frame (take (d - n) fs')"
      using tf(2) by (auto simp: list_all_iff dest: in_set_takeD)
    moreover have "length (take (d - n) fs') = d - n" using fs less.prems(9) n(1) by simp
    moreover have "unat (ticks s1) + (d - n) \<le> 429496729" using s1(3) less.prems(10) n(1) nd by linarith
    moreover have "d - n < d" "0 < d - n" "d - n < NENV" using n(1) nd less.prems(4) by simp_all
    ultimately obtain m s' where "m \<le> d - n" "timer_traps (take m (take (d - n) fs')) s1 = Some s'" "in_user s' k"
      using less.IH [OF _ s1(2) el _ _ kd] by blast
    moreover from this have "take m (take (d - n) fs') = take m fs'" by simp
    ultimately show ?thesis
      using s1(1) fs n(1) nd by (intro exI [of _ "Suc m"] exI [of _ s']) auto
  qed
qed

theorem timer_liveness_witness:
  "\<exists>n s'. n \<le> 1 \<and> in_user s' 1 \<and>
     timer_traps (take n [zero_tf\<lparr>tf_cs := 0x1B, tf_trapno := 32\<rparr>])
       ((upd_env 1 (\<lambda>v. v\<lparr>env_status := ENV_RUNNABLE\<rparr>) sample)\<lparr>kernel_lock := \<lparr>locked = False, lk_cpu = None\<rparr>\<rparr>) = Some s'"
proof -
  let ?s = "(upd_env 1 (\<lambda>v. v\<lparr>env_status := ENV_RUNNABLE\<rparr>) sample)\<lparr>kernel_lock := \<lparr>locked = False, lk_cpu = None\<rparr>\<rparr>"
  have nenv: "0 < NENV - 1" "1 < NENV" "1 = (0 + 1) mod NENV" by (simp_all add: NENV_def)
  have u: "in_user ?s 0"
  proof -
    have "curenv ?s = Some 0" by (simp add: curenv_def sample_def upd_env_def)
    then show ?thesis using nenv(2) by (simp add: in_user_def sample_env_def)
  qed
  have r: "runnable ?s 1" by (simp add: runnable_def sample_child_def zero_env_def)
  have "2 \<le> NENV - 1" by (simp add: NENV_def)
  from sample_rest [OF this] have l: "\<not> runnable ?s (NENV - 1)"
    using \<open>2 \<le> NENV - 1\<close> by (simp add: runnable_def zero_env_def)
  from timer_liveness [OF u nenv(1) _ nenv(2,3) r, where fs = "[zero_tf\<lparr>tf_cs := 0x1B, tf_trapno := 32\<rparr>]"] l
  show ?thesis by (auto simp: timer_frame_def)
qed

end
