(* ===== verification/Block_Cache.thy ===== *)
theory Block_Cache
  imports Prelude
begin

text \<open>
  The disk driver (fs/ide.c) and the block cache (fs/bc.c) of the file server. A disk block is
  mapped into memory when it is first touched; the page fault handler reads it from the disk.
  Addresses are byte offsets from \<open>DISKMAP\<close>.
\<close>

section \<open>The disk driver (fs/ide.c)\<close>

text \<open>
  A controller with two drives, each an array of bytes. \<open>ide_err\<close> says that the status
  register shows an error; waiting for the ready bit is not modelled.
\<close>

record ide =
  ide_diskno :: nat
  ide_err :: bool
  ide_data :: "nat \<Rightarrow> nat \<Rightarrow> u8"

definition SECTSIZE :: nat where [jos_consts]: "SECTSIZE = 512"
definition BLKSIZE :: nat where [jos_consts]: "BLKSIZE = 4096"
definition BLKSECTS :: nat where [jos_consts]: "BLKSECTS = 8"

definition ide_wait_ready :: "bool \<Rightarrow> ide \<Rightarrow> int" where
  "ide_wait_ready check_error d = (if check_error \<and> ide_err d then - 1 else 0)"

definition ide_set_disk :: "int \<Rightarrow> ide \<Rightarrow> ide option" where
  "ide_set_disk n d = (if n \<noteq> 0 \<and> n \<noteq> 1 then None else Some (d\<lparr>ide_diskno := nat n\<rparr>))"

text \<open>The sector address in the four registers: 28 bits.\<close>

definition lba :: "u32 \<Rightarrow> nat" where
  "lba secno = unat (secno AND 0xFFFFFFF)"

fun read_sectors :: "nat \<Rightarrow> nat \<Rightarrow> ide \<Rightarrow> int \<times> u8 list" where
  "read_sectors sec 0 d = (0, [])"
| "read_sectors sec (Suc n) d =
     (if ide_wait_ready True d < 0 then (ide_wait_ready True d, [])
      else (case read_sectors (sec + 1) n d of
              (r, bs) \<Rightarrow> (r, map (\<lambda>i. ide_data d (ide_diskno d) (sec * SECTSIZE + i)) [0..<SECTSIZE] @ bs)))"

definition ide_read :: "u32 \<Rightarrow> nat \<Rightarrow> ide \<Rightarrow> (int \<times> u8 list) option" where
  "ide_read secno nsecs d = (if 256 < nsecs then None else Some (read_sectors (lba secno) nsecs d))"

text \<open>\<open>src\<close> is the memory written from, by byte.\<close>

fun write_sectors :: "nat \<Rightarrow> (nat \<Rightarrow> u8) \<Rightarrow> nat \<Rightarrow> ide \<Rightarrow> int \<times> ide" where
  "write_sectors sec src 0 d = (0, d)"
| "write_sectors sec src (Suc n) d =
     (if ide_wait_ready True d < 0 then (ide_wait_ready True d, d)
      else write_sectors (sec + 1) (\<lambda>i. src (SECTSIZE + i)) n
             (d\<lparr>ide_data := (ide_data d)(ide_diskno d := (\<lambda>a.
                  if sec * SECTSIZE \<le> a \<and> a < (sec + 1) * SECTSIZE then src (a - sec * SECTSIZE)
                  else ide_data d (ide_diskno d) a))\<rparr>))"

definition ide_write :: "u32 \<Rightarrow> (nat \<Rightarrow> u8) \<Rightarrow> nat \<Rightarrow> ide \<Rightarrow> (int \<times> ide) option" where
  "ide_write secno src nsecs d = (if 256 < nsecs then None else Some (write_sectors (lba secno) src nsecs d))"

section \<open>The cache (fs/bc.c)\<close>

text \<open>
  The pages of the disk region that are mapped, with their dirty and accessed bits as the
  processor sets them; whether the pointers \<open>super\<close> and \<open>bitmap\<close> are set; whether the
  kernel still has pages to give.
\<close>

record bcache =
  bc_ide :: ide
  bc_page :: "nat \<Rightarrow> (nat \<Rightarrow> u8) option"
  bc_dirty :: "nat \<Rightarrow> bool"
  bc_acc :: "nat \<Rightarrow> bool"
  super_ptr :: bool
  bitmap_ptr :: bool
  mem_ok :: bool

definition DISKSIZE :: nat where [jos_consts]: "DISKSIZE = 0xC0000000"

definition le32 :: "(nat \<Rightarrow> u8) \<Rightarrow> u32" where
  "le32 f = ucast (f 0) OR push_bit 8 (ucast (f 1)) OR push_bit 16 (ucast (f 2)) OR push_bit 24 (ucast (f 3))"

lemma le32_cong: "(\<And>i. i < 4 \<Longrightarrow> f i = g i) \<Longrightarrow> le32 f = le32 g"
  by (simp add: le32_def)

text \<open>
  \<open>super->s_nblocks\<close> as the fault handler reads it. If block 1 is not mapped, that read
  faults again before anything is mapped, and so on for ever.
\<close>

definition super_nblocks :: "bcache \<Rightarrow> nat option" where
  "super_nblocks s = map_option (\<lambda>pg. unat (le32 (\<lambda>i. pg (4 + i)))) (bc_page s 1)"

definition va_is_mapped :: "nat \<Rightarrow> bcache \<Rightarrow> bool" where
  "va_is_mapped va s \<longleftrightarrow> bc_page s (va div BLKSIZE) \<noteq> None"

definition va_is_dirty :: "nat \<Rightarrow> bcache \<Rightarrow> bool" where
  "va_is_dirty va s \<longleftrightarrow> bc_dirty s (va div BLKSIZE)"

definition va_is_not_accessed :: "nat \<Rightarrow> bcache \<Rightarrow> bool" where
  "va_is_not_accessed va s \<longleftrightarrow> bc_acc s (va div BLKSIZE)"

definition map_page :: "nat \<Rightarrow> u8 list \<Rightarrow> bcache \<Rightarrow> bcache" where
  "map_page b bs s = s\<lparr>bc_page := (bc_page s)(b := Some (\<lambda>i. bs ! i)),
     bc_dirty := (bc_dirty s)(b := True), bc_acc := (bc_acc s)(b := True)\<rparr>"

text \<open>
  The page fault handler for the block of the faulting address. Reading the block into the new
  page sets its dirty bit, which the code leaves set. The final check reads the bitmap, which
  may fault in turn.
\<close>

partial_function (option) bc_pgfault :: "nat \<Rightarrow> bcache \<Rightarrow> bcache option" where
  "bc_pgfault addr s =
     (let blockno = addr div BLKSIZE
      in if DISKSIZE \<le> addr then None
      else do {
        n \<leftarrow> (if super_ptr s then super_nblocks s else Some (Suc blockno));
        if n \<le> blockno then None
        else if \<not> mem_ok s then None
        else do {
          (r, bs) \<leftarrow> ide_read (of_nat (blockno * BLKSECTS)) BLKSECTS (bc_ide s);
          if r \<noteq> 0 then None
          else do {
            let s = map_page blockno bs s;
            if bitmap_ptr s \<and> super_ptr s then do {
              n \<leftarrow> super_nblocks s;
              if n \<le> blockno then Some s
              else do {
                let word = 2 * BLKSIZE + blockno div 32 * 4;
                s \<leftarrow> (if bc_page s (word div BLKSIZE) = None then bc_pgfault word s else Some s);
                pg \<leftarrow> bc_page s (word div BLKSIZE);
                if bit (le32 (\<lambda>i. pg (word mod BLKSIZE + i))) (blockno mod 32) then None else Some s
              }
            }
            else Some s
          }
        }
      })"

text \<open>The loads and stores of the file server's code in the disk region.\<close>

definition bc_touch :: "nat \<Rightarrow> bcache \<Rightarrow> bcache option" where
  "bc_touch a s = (if va_is_mapped a s then Some s else bc_pgfault a s)"

definition bc_load :: "nat \<Rightarrow> bcache \<Rightarrow> (u8 \<times> bcache) option" where
  "bc_load a s = do {
     s \<leftarrow> bc_touch a s;
     pg \<leftarrow> bc_page s (a div BLKSIZE);
     Some (pg (a mod BLKSIZE), s\<lparr>bc_acc := (bc_acc s)(a div BLKSIZE := True)\<rparr>)
   }"

definition bc_store :: "nat \<Rightarrow> u8 \<Rightarrow> bcache \<Rightarrow> bcache option" where
  "bc_store a v s = do {
     s \<leftarrow> bc_touch a s;
     pg \<leftarrow> bc_page s (a div BLKSIZE);
     Some (s\<lparr>bc_page := (bc_page s)(a div BLKSIZE := Some (pg(a mod BLKSIZE := v))),
       bc_dirty := (bc_dirty s)(a div BLKSIZE := True), bc_acc := (bc_acc s)(a div BLKSIZE := True)\<rparr>)
   }"

text \<open>Mapping the page onto itself without \<open>PTE_D\<close> clears its dirty and accessed bits.\<close>

definition flush_block :: "nat \<Rightarrow> bcache \<Rightarrow> bcache option" where
  "flush_block addr s =
     (let blockno = addr div BLKSIZE
      in if DISKSIZE \<le> addr then None
      else if va_is_mapped addr s \<and> (va_is_dirty addr s \<or> va_is_not_accessed addr s) then do {
        pg \<leftarrow> bc_page s blockno;
        (r, d) \<leftarrow> ide_write (of_nat (blockno * BLKSECTS)) pg BLKSECTS (bc_ide s);
        if r < 0 then None
        else Some (s\<lparr>bc_ide := d, bc_dirty := (bc_dirty s)(blockno := False),
               bc_acc := (bc_acc s)(blockno := False)\<rparr>)
      }
      else Some s)"

end
