(* ===== verification/Flat_Memory.thy ===== *)
theory Flat_Memory
  imports Prelude
begin

text \<open>
  The interface between the file system and the block cache: byte loads and stores, and flushes
  of the unit that holds an address. A provider promises that they act on a flat memory \<open>mem\<close>
  and a flat disk \<open>dsk\<close>; the client lemma extends that to every sequence of operations.
\<close>

datatype 'v memop = Load nat | Store nat 'v | Flush nat

text \<open>Running operations on an implementation; the result is the list of the values loaded.\<close>

fun run_ops :: "(nat \<Rightarrow> 's \<Rightarrow> ('v \<times> 's) option) \<Rightarrow> (nat \<Rightarrow> 'v \<Rightarrow> 's \<Rightarrow> 's option) \<Rightarrow> (nat \<Rightarrow> 's \<Rightarrow> 's option) \<Rightarrow>
    'v memop list \<Rightarrow> 's \<Rightarrow> ('v list \<times> 's) option" where
  "run_ops load store flush [] s = Some ([], s)"
| "run_ops load store flush (Load a # ps) s = do {
     (v, s) \<leftarrow> load a s;
     (vs, s) \<leftarrow> run_ops load store flush ps s;
     Some (v # vs, s) }"
| "run_ops load store flush (Store a v # ps) s = do {
     s \<leftarrow> store a v s;
     run_ops load store flush ps s }"
| "run_ops load store flush (Flush a # ps) s = do {
     s \<leftarrow> flush a s;
     run_ops load store flush ps s }"

text \<open>The specification: the same operations on the two flat arrays, in units of \<open>n\<close> bytes.\<close>

definition flush_flat :: "nat \<Rightarrow> nat \<Rightarrow> (nat \<Rightarrow> 'v) \<Rightarrow> (nat \<Rightarrow> 'v) \<Rightarrow> nat \<Rightarrow> 'v" where
  "flush_flat n a m d = (\<lambda>x. if x div n = a div n then m x else d x)"

fun run_flat :: "nat \<Rightarrow> 'v memop list \<Rightarrow> (nat \<Rightarrow> 'v) \<times> (nat \<Rightarrow> 'v) \<Rightarrow> 'v list \<times> (nat \<Rightarrow> 'v) \<times> (nat \<Rightarrow> 'v)" where
  "run_flat n [] (m, d) = ([], m, d)"
| "run_flat n (Load a # ps) (m, d) = (case run_flat n ps (m, d) of (vs, r) \<Rightarrow> (m a # vs, r))"
| "run_flat n (Store a v # ps) (m, d) = run_flat n ps (m(a := v), d)"
| "run_flat n (Flush a # ps) (m, d) = run_flat n ps (m, flush_flat n a m d)"

text \<open>
  Sequences in which every access is to an address that may be used at that moment, and no
  store makes the memory invalid.
\<close>

fun legal :: "((nat \<Rightarrow> 'v) \<Rightarrow> bool) \<Rightarrow> ((nat \<Rightarrow> 'v) \<Rightarrow> nat \<Rightarrow> bool) \<Rightarrow> 'v memop list \<Rightarrow> (nat \<Rightarrow> 'v) \<Rightarrow> bool" where
  "legal valid usable [] m \<longleftrightarrow> True"
| "legal valid usable (Load a # ps) m \<longleftrightarrow> usable m a \<and> legal valid usable ps m"
| "legal valid usable (Store a v # ps) m \<longleftrightarrow> usable m a \<and> valid (m(a := v)) \<and> legal valid usable ps (m(a := v))"
| "legal valid usable (Flush a # ps) m \<longleftrightarrow> usable m a \<and> legal valid usable ps m"

text \<open>A memory after a copy of bytes to an address.\<close>

definition upd_bytes :: "nat \<Rightarrow> 'v list \<Rightarrow> (nat \<Rightarrow> 'v) \<Rightarrow> nat \<Rightarrow> 'v" where
  "upd_bytes a vs m = (\<lambda>x. if a \<le> x \<and> x < a + length vs then vs ! (x - a) else m x)"

lemma upd_bytes_Nil [simp]: "upd_bytes a [] m = m"
  by (rule ext) (auto simp: upd_bytes_def)

lemma upd_bytes_Cons: "upd_bytes a (v # vs) m = upd_bytes (Suc a) vs (m(a := v))"
proof
  fix x
  show "upd_bytes a (v # vs) m x = upd_bytes (Suc a) vs (m(a := v)) x"
    by (cases "x = a") (auto simp: upd_bytes_def nth_Cons' Suc_diff_Suc le_less)
qed

locale block_memory =
  fixes load :: "nat \<Rightarrow> 's \<Rightarrow> ('v \<times> 's) option" and store :: "nat \<Rightarrow> 'v \<Rightarrow> 's \<Rightarrow> 's option"
    and flush :: "nat \<Rightarrow> 's \<Rightarrow> 's option" and n :: nat
    and mem :: "'s \<Rightarrow> nat \<Rightarrow> 'v" and dsk :: "'s \<Rightarrow> nat \<Rightarrow> 'v" and inv :: "'s \<Rightarrow> bool"
    and valid :: "(nat \<Rightarrow> 'v) \<Rightarrow> bool" and usable :: "(nat \<Rightarrow> 'v) \<Rightarrow> nat \<Rightarrow> bool"
  assumes load_law: "inv s \<Longrightarrow> valid (mem s) \<Longrightarrow> usable (mem s) a \<Longrightarrow>
      \<exists>s'. load a s = Some (mem s a, s') \<and> mem s' = mem s \<and> dsk s' = dsk s \<and> inv s'"
    and store_law: "inv s \<Longrightarrow> valid (mem s) \<Longrightarrow> usable (mem s) a \<Longrightarrow>
      \<exists>s'. store a v s = Some s' \<and> mem s' = (mem s)(a := v) \<and> dsk s' = dsk s \<and> inv s'"
    and flush_law: "inv s \<Longrightarrow> valid (mem s) \<Longrightarrow> usable (mem s) a \<Longrightarrow>
      \<exists>s'. flush a s = Some s' \<and> mem s' = mem s \<and> dsk s' = flush_flat n a (mem s) (dsk s) \<and> inv s'"
begin

lemma run_simulates:
  assumes "inv s" and "valid (mem s)" and "legal valid usable ps (mem s)"
  shows "\<exists>vs s'. run_ops load store flush ps s = Some (vs, s') \<and>
    run_flat n ps (mem s, dsk s) = (vs, mem s', dsk s') \<and> inv s'"
  using assms
proof (induction ps arbitrary: s)
  case (Cons p ps)
  show ?case
  proof (cases p)
    case (Load a)
    then obtain s1 where s1: "load a s = Some (mem s a, s1)" "mem s1 = mem s" "dsk s1 = dsk s" "inv s1"
      using load_law [of s a] Cons.prems by auto
    from Cons.IH [of s1] show ?thesis using s1 Cons.prems Load by auto
  next
    case (Store a v)
    then obtain s1 where s1: "store a v s = Some s1" "mem s1 = (mem s)(a := v)" "dsk s1 = dsk s" "inv s1"
      using store_law [of s a v] Cons.prems by auto
    have "legal valid usable ps (mem s1)" "valid (mem s1)" using Cons.prems Store by (simp_all add: s1(2))
    then obtain vs s' where "run_ops load store flush ps s1 = Some (vs, s')"
        "run_flat n ps (mem s1, dsk s1) = (vs, mem s', dsk s')" "inv s'" using Cons.IH [OF s1(4)] by blast
    then show ?thesis using s1(1) Store by (simp add: s1(2,3))
  next
    case (Flush a)
    then obtain s1 where s1: "flush a s = Some s1" "mem s1 = mem s" "dsk s1 = flush_flat n a (mem s) (dsk s)" "inv s1"
      using flush_law [of s a] Cons.prems by auto
    from Cons.IH [of s1] show ?thesis using s1 Cons.prems Flush by auto
  qed
qed simp

end

end
