(* ===== verification/Cache_Spec.thy ===== *)
theory Cache_Spec
  imports Block_Cache Flat_Memory
begin

text \<open>
  The block cache implements a plain byte memory on top of the disk: the abstraction function,
  the invariant, and what every access of the file server does to them.
\<close>

section \<open>Reading and writing a block of the disk\<close>

lemma lba_small: "n < 2 ^ 28 \<Longrightarrow> lba (of_nat n) = n"
proof -
  assume n: "n < 2 ^ 28"
  have m: "(0xFFFFFFF :: u32) = mask 28" by (simp add: mask_eq_exp_minus_1)
  have "lba (of_nat n) = unat (take_bit 28 (of_nat n :: u32))"
    unfolding lba_def m by (simp only: take_bit_eq_mask)
  then show ?thesis using n by (simp add: take_bit_eq_mod unat_mod_distrib unat_of_nat)
qed

lemma lba_block: "b * BLKSIZE < DISKSIZE \<Longrightarrow> lba (of_nat (b * BLKSECTS)) = b * BLKSECTS"
  by (rule lba_small) (simp add: BLKSIZE_def DISKSIZE_def BLKSECTS_def)

lemma read_sectors_ok:
  "\<not> ide_err d \<Longrightarrow> read_sectors sec n d = (0, map (\<lambda>i. ide_data d (ide_diskno d) (sec * SECTSIZE + i)) [0..<SECTSIZE * n])"
proof (induction n arbitrary: sec)
  case (Suc n)
  have "[0..<SECTSIZE * Suc n] = [0..<SECTSIZE] @ map (\<lambda>i. SECTSIZE + i) [0..<SECTSIZE * n]"
    using upt_add_eq_append [of 0 SECTSIZE "SECTSIZE * n"] by (simp add: map_add_upt add.commute)
  then show ?case
    using Suc by (simp add: ide_wait_ready_def ac_simps o_def)
qed simp

lemma ide_read_block:
  assumes "\<not> ide_err d" and "b * BLKSIZE < DISKSIZE"
  shows "ide_read (of_nat (b * BLKSECTS)) BLKSECTS d =
    Some (0, map (\<lambda>i. ide_data d (ide_diskno d) (b * BLKSIZE + i)) [0..<BLKSIZE])"
  using read_sectors_ok [OF assms(1), of "b * BLKSECTS" BLKSECTS] lba_block [OF assms(2)]
  by (simp add: ide_read_def BLKSECTS_def BLKSIZE_def SECTSIZE_def mult.commute)

definition disk_upd :: "nat \<Rightarrow> nat \<Rightarrow> (nat \<Rightarrow> u8) \<Rightarrow> ide \<Rightarrow> ide" where
  "disk_upd lo hi src d = d\<lparr>ide_data := (ide_data d)(ide_diskno d :=
     (\<lambda>a. if lo \<le> a \<and> a < hi then src (a - lo) else ide_data d (ide_diskno d) a))\<rparr>"

lemma disk_upd_append:
  assumes "lo \<le> mid" and "mid \<le> hi"
  shows "disk_upd mid hi (\<lambda>i. src (mid - lo + i)) (disk_upd lo mid src d) = disk_upd lo hi src d"
proof -
  have "(\<lambda>a. if mid \<le> a \<and> a < hi then src (mid - lo + (a - mid)) else if lo \<le> a \<and> a < mid then src (a - lo) else f a) =
      (\<lambda>a. if lo \<le> a \<and> a < hi then src (a - lo) else f a)" for f
    using assms by (auto simp: fun_eq_iff)
  then show ?thesis by (simp add: disk_upd_def cong: if_cong)
qed

lemma write_sectors_ok:
  "\<not> ide_err d \<Longrightarrow> write_sectors sec src n d = (0, disk_upd (sec * SECTSIZE) ((sec + n) * SECTSIZE) src d)"
proof (induction n arbitrary: sec src d)
  case 0
  have "(\<lambda>a. if sec * SECTSIZE \<le> a \<and> a < sec * SECTSIZE then src (a - sec * SECTSIZE) else ide_data d (ide_diskno d) a) =
      ide_data d (ide_diskno d)" by (rule ext) (simp only: not_less [symmetric], simp)
  then show ?case by (simp add: disk_upd_def)
next
  case (Suc n)
  let ?d = "disk_upd (sec * SECTSIZE) ((sec + 1) * SECTSIZE) src d"
  have "write_sectors sec src (Suc n) d = write_sectors (sec + 1) (\<lambda>i. src (SECTSIZE + i)) n ?d"
    using Suc.prems by (simp add: ide_wait_ready_def disk_upd_def)
  also have "\<dots> = (0, disk_upd ((sec + 1) * SECTSIZE) ((sec + 1 + n) * SECTSIZE) (\<lambda>i. src (SECTSIZE + i)) ?d)"
    by (rule Suc.IH) (use Suc.prems in \<open>simp add: disk_upd_def\<close>)
  finally show ?case using disk_upd_append [of "sec * SECTSIZE" "(sec + 1) * SECTSIZE" "(sec + Suc n) * SECTSIZE" src d]
    by (simp add: SECTSIZE_def)
qed

lemma ide_write_block:
  assumes "\<not> ide_err d" and "b * BLKSIZE < DISKSIZE"
  shows "ide_write (of_nat (b * BLKSECTS)) src BLKSECTS d = Some (0, disk_upd (b * BLKSIZE) (b * BLKSIZE + BLKSIZE) src d)"
  using write_sectors_ok [OF assms(1), of "b * BLKSECTS" src BLKSECTS] lba_block [OF assms(2)]
  by (simp add: ide_write_def BLKSECTS_def BLKSIZE_def SECTSIZE_def ac_simps)

section \<open>The abstraction\<close>

definition dsk :: "bcache \<Rightarrow> nat \<Rightarrow> u8" where
  "dsk s a = ide_data (bc_ide s) (ide_diskno (bc_ide s)) a"

definition content :: "bcache \<Rightarrow> nat \<Rightarrow> u8" where
  "content s a = (case bc_page s (a div BLKSIZE) of None \<Rightarrow> dsk s a | Some pg \<Rightarrow> pg (a mod BLKSIZE))"

text \<open>A page whose dirty bit is clear equals its block on the disk.\<close>

definition cache_inv :: "bcache \<Rightarrow> bool" where
  "cache_inv s \<longleftrightarrow>
     (\<forall>b pg i. bc_page s b = Some pg \<longrightarrow> \<not> bc_dirty s b \<longrightarrow> i < BLKSIZE \<longrightarrow> pg i = dsk s (b * BLKSIZE + i))"

definition c_nblocks :: "(nat \<Rightarrow> u8) \<Rightarrow> nat" where
  "c_nblocks m = unat (le32 (\<lambda>i. m (BLKSIZE + 4 + i)))"

definition c_free :: "(nat \<Rightarrow> u8) \<Rightarrow> nat \<Rightarrow> bool" where
  "c_free m b \<longleftrightarrow> bit (le32 (\<lambda>i. m (2 * BLKSIZE + b div 32 * 4 + i))) (b mod 32)"

text \<open>
  The file server after \<open>fs_init\<close>: pointers set, block 1 mapped, disk and kernel in order,
  every bitmap block exists and is marked in use.
\<close>

definition fs_ready :: "bcache \<Rightarrow> bool" where
  "fs_ready s \<longleftrightarrow> super_ptr s \<and> bitmap_ptr s \<and> mem_ok s \<and> \<not> ide_err (bc_ide s) \<and> bc_page s 1 \<noteq> None"

definition fs_valid :: "(nat \<Rightarrow> u8) \<Rightarrow> bool" where
  "fs_valid m \<longleftrightarrow> c_nblocks m * BLKSIZE \<le> DISKSIZE \<and>
     (\<forall>i. i * 32768 < c_nblocks m \<longrightarrow> 2 + i < c_nblocks m \<and> \<not> c_free m (2 + i))"

definition fs_up :: "bcache \<Rightarrow> bool" where
  "fs_up s \<longleftrightarrow> fs_ready s \<and> fs_valid (content s)"

lemmas fs_up_defs = fs_up_def fs_ready_def fs_valid_def

text \<open>
  What no access changes: the pointers, the state of the drive, that a mapped block stays mapped,
  and the invariant. \<open>same_store\<close> are the steps that also keep contents and disk, and so change
  nothing but which blocks are mapped and accessed.
\<close>

definition frame :: "bcache \<Rightarrow> bcache \<Rightarrow> bool" where
  "frame s s' \<longleftrightarrow> super_ptr s' = super_ptr s \<and> bitmap_ptr s' = bitmap_ptr s \<and> mem_ok s' = mem_ok s \<and>
     ide_err (bc_ide s') = ide_err (bc_ide s) \<and> ide_diskno (bc_ide s') = ide_diskno (bc_ide s) \<and>
     (\<forall>b. bc_page s b \<noteq> None \<longrightarrow> bc_page s' b \<noteq> None) \<and> (cache_inv s \<longrightarrow> cache_inv s')"

definition same_store :: "bcache \<Rightarrow> bcache \<Rightarrow> bool" where
  "same_store s s' \<longleftrightarrow> frame s s' \<and> content s' = content s \<and> dsk s' = dsk s"

lemma frame_refl [simp]: "frame s s"
  by (simp add: frame_def)

lemma frame_trans: "frame s s' \<Longrightarrow> frame s' s'' \<Longrightarrow> frame s s''"
  by (simp add: frame_def)

lemma frame_ready: "frame s s' \<Longrightarrow> fs_ready s \<Longrightarrow> fs_ready s'"
  by (simp add: frame_def fs_ready_def)

lemma same_store_refl [simp]: "same_store s s"
  by (simp add: same_store_def)

lemma same_store_trans: "same_store s s' \<Longrightarrow> same_store s' s'' \<Longrightarrow> same_store s s''"
  by (auto simp: same_store_def intro: frame_trans)

lemma same_store_up: "same_store s s' \<Longrightarrow> fs_up s \<Longrightarrow> fs_up s'"
  by (auto simp: same_store_def fs_up_def intro: frame_ready)

lemma same_store_mapped: "same_store s s' \<Longrightarrow> bc_page s b \<noteq> None \<Longrightarrow> bc_page s' b \<noteq> None"
  by (simp add: same_store_def frame_def)

section \<open>Faults\<close>

lemma blk_addr [simp]:
  "i < BLKSIZE \<Longrightarrow> (b * BLKSIZE + i) div BLKSIZE = b" "i < BLKSIZE \<Longrightarrow> (b * BLKSIZE + i) mod BLKSIZE = i"
  by (simp_all add: BLKSIZE_def)

lemma word_page:
  fixes b :: nat
  defines "w \<equiv> 2 * BLKSIZE + b div 32 * 4"
  shows "w div BLKSIZE = 2 + b div 32768" and "i < 4 \<Longrightarrow> (w + i) div BLKSIZE = w div BLKSIZE"
    and "i < 4 \<Longrightarrow> (w + i) mod BLKSIZE = w mod BLKSIZE + i"
proof -
  define x y where "x = b div 32 div 1024" and "y = b div 32 mod 1024"
  have q: "b div 32 = x * 1024 + y" by (simp add: x_def y_def)
  have y: "y < 1024" by (simp add: y_def)
  have w: "w + i = (2 + x) * BLKSIZE + (y * 4 + i)" for i
    unfolding w_def q BLKSIZE_def by simp
  have s: "y * 4 + i < BLKSIZE" if "i < 4" for i using y that by (simp add: BLKSIZE_def)
  have w0: "w = (2 + x) * BLKSIZE + (y * 4 + 0)" using w [of 0] by simp
  have d: "w div BLKSIZE = 2 + x" "w mod BLKSIZE = y * 4" unfolding w0 using s [of 0] blk_addr by simp_all
  show "w div BLKSIZE = 2 + b div 32768" unfolding d x_def by (simp add: div_mult2_eq [symmetric])
  show "i < 4 \<Longrightarrow> (w + i) div BLKSIZE = w div BLKSIZE" "i < 4 \<Longrightarrow> (w + i) mod BLKSIZE = w mod BLKSIZE + i"
    unfolding d unfolding w using blk_addr [OF s [of i], of "2 + x"] by simp_all
qed

lemma content_page: "bc_page s b = Some pg \<Longrightarrow> a div BLKSIZE = b \<Longrightarrow> content s a = pg (a mod BLKSIZE)"
  by (simp add: content_def)

lemma super_nblocks_content: "bc_page s 1 \<noteq> None \<Longrightarrow> super_nblocks s = Some (c_nblocks (content s))"
proof -
  assume "bc_page s 1 \<noteq> None"
  then obtain pg where pg: "bc_page s 1 = Some pg" by auto
  have "content s (BLKSIZE + 4 + i) = pg (4 + i)" if "i < 4" for i
  proof -
    have "4 + i < BLKSIZE" using that by (simp add: BLKSIZE_def)
    from blk_addr [OF this, of 1] show ?thesis using content_page [OF pg, of "1 * BLKSIZE + (4 + i)"]
      by (simp add: add.assoc)
  qed
  then have "le32 (\<lambda>i. content s (BLKSIZE + 4 + i)) = le32 (\<lambda>i. pg (4 + i))" by (rule le32_cong)
  then show ?thesis using pg by (simp add: super_nblocks_def c_nblocks_def)
qed

lemma free_bit_content:
  assumes "bc_page s ((2 * BLKSIZE + b div 32 * 4) div BLKSIZE) = Some pg"
  shows "bit (le32 (\<lambda>i. pg ((2 * BLKSIZE + b div 32 * 4) mod BLKSIZE + i))) (b mod 32) = c_free (content s) b"
proof -
  have "content s (2 * BLKSIZE + b div 32 * 4 + i) = pg ((2 * BLKSIZE + b div 32 * 4) mod BLKSIZE + i)" if "i < 4" for i
    using content_page [OF assms] word_page(2,3) [of i b] that by simp
  from le32_cong [of "\<lambda>i. content s (2 * BLKSIZE + b div 32 * 4 + i)", OF this]
  show ?thesis unfolding c_free_def by simp
qed

text \<open>Mapping a block that is not mapped changes neither contents nor disk.\<close>

definition block_bytes :: "nat \<Rightarrow> bcache \<Rightarrow> u8 list" where
  "block_bytes b s = map (\<lambda>i. dsk s (b * BLKSIZE + i)) [0..<BLKSIZE]"

lemma addr_split: "a = a div BLKSIZE * BLKSIZE + a mod BLKSIZE" "a mod BLKSIZE < BLKSIZE"
  by (simp_all add: BLKSIZE_def)

lemma map_page_same:
  assumes "bc_page s b = None"
  shows "same_store s (map_page b (block_bytes b s) s)" and "bc_page (map_page b (block_bytes b s) s) b \<noteq> None"
proof -
  let ?s = "map_page b (block_bytes b s) s"
  have "content ?s a = content s a" for a
  proof (cases "a div BLKSIZE = b")
    case True
    then have "content ?s a = dsk s (b * BLKSIZE + a mod BLKSIZE)"
      using addr_split(2) [of a] by (simp add: content_def map_page_def block_bytes_def)
    also have "\<dots> = content s a" using True assms addr_split(1) [of a] by (simp add: content_def)
    finally show ?thesis .
  next
    case False
    then show ?thesis by (simp add: content_def map_page_def dsk_def split: option.split)
  qed
  moreover have "cache_inv s \<Longrightarrow> cache_inv ?s" by (auto simp: cache_inv_def map_page_def dsk_def)
  ultimately show "same_store s ?s" by (auto simp: same_store_def frame_def map_page_def dsk_def fun_eq_iff)
  show "bc_page ?s b \<noteq> None" by (simp add: map_page_def)
qed

lemma pgfault_step:
  assumes up: "fs_up s" and b: "b < c_nblocks (content s)" "bc_page s b = None" "a div BLKSIZE = b"
    and nf: "\<not> c_free (content s) b"
  defines "s1 \<equiv> map_page b (block_bytes b s) s" and "w \<equiv> 2 * BLKSIZE + b div 32 * 4"
  shows "bc_pgfault a s = do {
      s \<leftarrow> (if bc_page s1 (w div BLKSIZE) = None then bc_pgfault w s1 else Some s1);
      pg \<leftarrow> bc_page s (w div BLKSIZE);
      if bit (le32 (\<lambda>i. pg (w mod BLKSIZE + i))) (b mod 32) then None else Some s }"
proof -
  have ss: "same_store s s1" unfolding s1_def by (rule map_page_same(1) [OF b(2)])
  note u1 = same_store_up [OF ss up]
  have "c_nblocks (content s) * BLKSIZE \<le> DISKSIZE" using up by (simp add: fs_up_defs)
  moreover have "(b + 1) * BLKSIZE \<le> c_nblocks (content s) * BLKSIZE" using b(1) by (intro mult_right_mono) auto
  ultimately have r: "b * BLKSIZE + BLKSIZE \<le> DISKSIZE" by simp
  have a: "a < DISKSIZE" using r addr_split [of a] unfolding b(3) by linarith
  have bd: "b * BLKSIZE < DISKSIZE" using r by (simp add: BLKSIZE_def)
  have n: "super_nblocks s = Some (c_nblocks (content s))" "super_nblocks s1 = Some (c_nblocks (content s))"
    using super_nblocks_content [of s] super_nblocks_content [of s1] up u1 ss
    by (simp_all add: fs_up_defs same_store_def)
  have i: "ide_read (of_nat (b * BLKSECTS)) BLKSECTS (bc_ide s) = Some (0, block_bytes b s)"
    using ide_read_block [OF _ bd, of "bc_ide s"] up by (simp add: fs_up_defs block_bytes_def dsk_def)
  show ?thesis
    using up u1 b a n i
    by (subst bc_pgfault.simps) (simp add: fs_up_defs s1_def [symmetric] w_def [symmetric] Let_def)
qed

text \<open>
  The recursion ends: the bitmap word of a block lies in a bitmap block, and the word of a
  bitmap block in block 2, which is mapped by its own fault.
\<close>

definition fault_ok :: "bcache \<Rightarrow> nat \<Rightarrow> bool" where
  "fault_ok s b \<longleftrightarrow>
     (\<forall>a. a div BLKSIZE = b \<longrightarrow> (\<exists>s'. bc_pgfault a s = Some s' \<and> same_store s s' \<and> bc_page s' b \<noteq> None))"

lemma fault_okI:
  assumes up: "fs_up s" and b: "b < c_nblocks (content s)" "bc_page s b = None" and nf: "\<not> c_free (content s) b"
    and nest: "\<And>s1. same_store s s1 \<Longrightarrow> bc_page s1 b \<noteq> None \<Longrightarrow> bc_page s1 (2 + b div 32768) = None \<Longrightarrow>
      fault_ok s1 (2 + b div 32768)"
  shows "fault_ok s b"
  unfolding fault_ok_def
proof (intro allI impI)
  fix a
  assume a: "a div BLKSIZE = b"
  let ?w = "2 * BLKSIZE + b div 32 * 4"
  define s1 where "s1 = map_page b (block_bytes b s) s"
  note m = map_page_same [OF b(2), folded s1_def] and st = pgfault_step [OF up b a nf, folded s1_def]
  have "\<exists>s2. (if bc_page s1 (?w div BLKSIZE) = None then bc_pgfault ?w s1 else Some s1) = Some s2 \<and>
      same_store s1 s2 \<and> bc_page s2 (?w div BLKSIZE) \<noteq> None"
  proof (cases "bc_page s1 (?w div BLKSIZE) = None")
    case True
    then have "fault_ok s1 (?w div BLKSIZE)" using nest [OF m] word_page(1) [of b] by simp
    then show ?thesis using True by (simp add: fault_ok_def)
  qed auto
  then obtain s2 pg where s2: "(if bc_page s1 (?w div BLKSIZE) = None then bc_pgfault ?w s1 else Some s1) = Some s2"
      "same_store s1 s2" "bc_page s2 (?w div BLKSIZE) = Some pg" by blast
  have "\<not> bit (le32 (\<lambda>i. pg (?w mod BLKSIZE + i))) (b mod 32)"
    using free_bit_content [OF s2(3)] nf m(1) s2(2) by (simp add: same_store_def)
  then have "bc_pgfault a s = Some s2" using st s2(1,3) by simp
  then show "\<exists>s'. bc_pgfault a s = Some s' \<and> same_store s s' \<and> bc_page s' b \<noteq> None"
    using same_store_trans [OF m(1) s2(2)] same_store_mapped [OF s2(2) m(2)] by blast
qed

lemma bitmap_blocks:
  assumes "fs_up s" and "b < c_nblocks (content s)"
  shows "2 + b div 32768 < c_nblocks (content s)" "\<not> c_free (content s) (2 + b div 32768)" "(2 + b div 32768) div 32768 = 0"
proof -
  have "b div 32768 * 32768 < c_nblocks (content s)"
    using assms(2) by (meson div_times_less_eq_dividend le_less_trans)
  then show "2 + b div 32768 < c_nblocks (content s)" "\<not> c_free (content s) (2 + b div 32768)"
    using assms(1) unfolding fs_up_defs by blast+
  have "c_nblocks (content s) \<le> 786432" using assms(1) by (simp add: fs_up_defs BLKSIZE_def DISKSIZE_def)
  then have "b div 32768 \<le> 24" using assms(2) by linarith
  then show "(2 + b div 32768) div 32768 = 0" by simp
qed

lemma fault_ok_all:
  assumes up: "fs_up s" and b: "b < c_nblocks (content s)" "bc_page s b = None" and nf: "\<not> c_free (content s) b"
  shows "fault_ok s b"
proof -
  have two: "fault_ok s 2" if "fs_up s" "bc_page s 2 = None" "0 < c_nblocks (content s)" for s
    using bitmap_blocks [OF that(1), of 0] that by (intro fault_okI [OF that(1) _ that(2)]) simp_all
  have bm: "fault_ok s (2 + b div 32768)" if "fs_up s" "b < c_nblocks (content s)" "bc_page s (2 + b div 32768) = None" for s b
  proof (rule fault_okI [OF that(1) _ that(3)])
    show "2 + b div 32768 < c_nblocks (content s)" "\<not> c_free (content s) (2 + b div 32768)"
      using bitmap_blocks [OF that(1,2)] by simp_all
    show "fault_ok s1 (2 + (2 + b div 32768) div 32768)"
      if "same_store s s1" "bc_page s1 (2 + (2 + b div 32768) div 32768) = None" for s1
      using two [of s1] same_store_up [OF that(1) \<open>fs_up s\<close>] that \<open>b < c_nblocks (content s)\<close>
        bitmap_blocks(3) [OF \<open>fs_up s\<close> \<open>b < c_nblocks (content s)\<close>]
      by (simp add: same_store_def)
  qed
  show ?thesis
  proof (rule fault_okI [OF up b nf])
    show "fault_ok s1 (2 + b div 32768)" if "same_store s s1" "bc_page s1 (2 + b div 32768) = None" for s1
      using bm [of s1 b] same_store_up [OF that(1) up] that b(1) by (simp add: same_store_def)
  qed
qed

section \<open>Loads, stores and flushes\<close>

lemma addr_eq_iff: "x = a \<longleftrightarrow> x div BLKSIZE = a div BLKSIZE \<and> x mod BLKSIZE = a mod BLKSIZE"
  by (metis div_mult_mod_eq)

lemma load_touched:
  assumes "bc_touch a s = Some s1" and "same_store s s1" and "bc_page s1 (a div BLKSIZE) = Some pg"
  shows "\<exists>s'. bc_load a s = Some (content s a, s') \<and> same_store s s'"
proof -
  let ?s = "s1\<lparr>bc_acc := (bc_acc s1)(a div BLKSIZE := True)\<rparr>"
  have "same_store s1 ?s"
    by (simp add: same_store_def frame_def content_def cache_inv_def dsk_def fun_eq_iff split: option.split)
  then have ss: "same_store s ?s" by (rule same_store_trans [OF assms(2)])
  have "pg (a mod BLKSIZE) = content s a"
    using content_page [OF assms(3), of a] assms(2) by (simp add: same_store_def)
  then show ?thesis using assms ss by (simp add: bc_load_def)
qed

lemma store_touched:
  assumes "bc_touch a s = Some s1" and ss: "same_store s s1" and pg: "bc_page s1 (a div BLKSIZE) = Some pg"
  shows "\<exists>s'. bc_store a v s = Some s' \<and> content s' = (content s)(a := v) \<and> dsk s' = dsk s \<and> frame s s' \<and>
    bc_page s' (a div BLKSIZE) \<noteq> None"
proof -
  define s2 where "s2 = s1\<lparr>bc_page := (bc_page s1)(a div BLKSIZE := Some (pg(a mod BLKSIZE := v))),
       bc_dirty := (bc_dirty s1)(a div BLKSIZE := True), bc_acc := (bc_acc s1)(a div BLKSIZE := True)\<rparr>"
  have d: "dsk s2 = dsk s1" by (simp add: s2_def dsk_def fun_eq_iff)
  have "content s2 x = ((content s1)(a := v)) x" for x
    using pg d addr_eq_iff [of x a] by (auto simp: content_def s2_def dsk_def split: option.split)
  then have c: "content s2 = (content s)(a := v)" using ss by (auto simp: same_store_def)
  have "frame s1 s2" using d by (simp add: frame_def cache_inv_def s2_def)
  then have f: "frame s s2" using ss by (auto simp: same_store_def intro: frame_trans)
  have "bc_store a v s = Some s2" using assms by (simp add: bc_store_def s2_def)
  moreover have "bc_page s2 (a div BLKSIZE) \<noteq> None" by (simp add: s2_def)
  ultimately show ?thesis using c d f ss by (auto simp: same_store_def)
qed

lemma disk_upd_dsk:
  "dsk (s\<lparr>bc_ide := disk_upd (b * BLKSIZE) (b * BLKSIZE + BLKSIZE) src (bc_ide s), bc_dirty := f, bc_acc := g\<rparr>) x =
    (if x div BLKSIZE = b then src (x mod BLKSIZE) else dsk s x)"
proof -
  have "b * BLKSIZE \<le> x \<and> x < b * BLKSIZE + BLKSIZE \<longleftrightarrow> x div BLKSIZE = b"
    by (auto simp: BLKSIZE_def)
  moreover have "x - b * BLKSIZE = x mod BLKSIZE" if "x div BLKSIZE = b"
    using that by (simp add: modulo_nat_def mult.commute)
  ultimately show ?thesis by (simp add: dsk_def disk_upd_def)
qed

lemma flush_block_writes:
  assumes i: "\<not> ide_err (bc_ide s)" and a: "a div BLKSIZE * BLKSIZE < DISKSIZE" "a < DISKSIZE"
    and pg: "bc_page s (a div BLKSIZE) = Some pg" "bc_dirty s (a div BLKSIZE) \<or> bc_acc s (a div BLKSIZE)"
  shows "\<exists>s'. flush_block a s = Some s' \<and> content s' = content s \<and> dsk s' = flush_flat BLKSIZE a (content s) (dsk s) \<and>
    frame s s' \<and> \<not> bc_dirty s' (a div BLKSIZE)"
proof -
  let ?b = "a div BLKSIZE"
  let ?d = "disk_upd (?b * BLKSIZE) (?b * BLKSIZE + BLKSIZE) pg (bc_ide s)"
  define s1 where "s1 = s\<lparr>bc_ide := ?d, bc_dirty := (bc_dirty s)(?b := False), bc_acc := (bc_acc s)(?b := False)\<rparr>"
  have w: "ide_write (of_nat (?b * BLKSECTS)) pg BLKSECTS (bc_ide s) = Some (0, ?d)"
    using ide_write_block [OF i a(1)] by simp
  have "flush_block a s = Some s1"
    using pg w a(2) unfolding flush_block_def va_is_mapped_def va_is_dirty_def va_is_not_accessed_def
    by (simp add: s1_def Let_def)
  moreover have d: "dsk s1 x = (if x div BLKSIZE = ?b then pg (x mod BLKSIZE) else dsk s x)" for x
    unfolding s1_def by (rule disk_upd_dsk)
  moreover have c: "content s1 = content s"
    using pg(1) d by (auto simp: content_def s1_def [THEN arg_cong, of bc_page] fun_eq_iff split: option.split)
  moreover have "dsk s1 = flush_flat BLKSIZE a (content s) (dsk s)"
    using d content_page [OF pg(1)] by (auto simp: flush_flat_def fun_eq_iff)
  moreover have "cache_inv s \<Longrightarrow> cache_inv s1"
    unfolding cache_inv_def d using pg by (auto simp: s1_def split: if_splits)
  then have "frame s s1" by (simp add: frame_def s1_def disk_upd_def)
  moreover have "\<not> bc_dirty s1 ?b" by (simp add: s1_def)
  ultimately show ?thesis by blast
qed

lemma flush_clean:
  assumes i: "cache_inv s" and c: "bc_page s (a div BLKSIZE) = None \<or> \<not> bc_dirty s (a div BLKSIZE)"
  shows "flush_flat BLKSIZE a (content s) (dsk s) = dsk s"
proof
  fix x
  show "flush_flat BLKSIZE a (content s) (dsk s) x = dsk s x"
  proof (cases "bc_page s (x div BLKSIZE)")
    case (Some pg)
    have "pg (x mod BLKSIZE) = dsk s x" if "x div BLKSIZE = a div BLKSIZE"
    proof -
      have "pg (x mod BLKSIZE) = dsk s (x div BLKSIZE * BLKSIZE + x mod BLKSIZE)"
        using i Some c that addr_split(2) [of x] unfolding cache_inv_def by auto
      then show ?thesis using addr_split(1) [of x] by simp
    qed
    then show ?thesis using Some by (auto simp: flush_flat_def content_def)
  qed (auto simp: flush_flat_def content_def)
qed

lemma flush_block_ok:
  assumes "\<not> ide_err (bc_ide s)" and "cache_inv s" and "a div BLKSIZE * BLKSIZE < DISKSIZE" "a < DISKSIZE"
  shows "\<exists>s'. flush_block a s = Some s' \<and> content s' = content s \<and> dsk s' = flush_flat BLKSIZE a (content s) (dsk s) \<and>
    frame s s' \<and> \<not> (bc_page s' (a div BLKSIZE) \<noteq> None \<and> bc_dirty s' (a div BLKSIZE))"
proof (cases "\<exists>pg. bc_page s (a div BLKSIZE) = Some pg \<and> (bc_dirty s (a div BLKSIZE) \<or> bc_acc s (a div BLKSIZE))")
  case True
  then show ?thesis using flush_block_writes [OF assms(1,3,4)] by blast
next
  case False
  have "flush_block a s = Some s"
    using False assms(4) unfolding flush_block_def va_is_mapped_def va_is_dirty_def va_is_not_accessed_def
    by (auto simp: Let_def)
  then show ?thesis using flush_clean [OF assms(2)] False by auto
qed

section \<open>The cache implements a flat memory\<close>

definition usable :: "(nat \<Rightarrow> u8) \<Rightarrow> nat \<Rightarrow> bool" where
  "usable m a \<longleftrightarrow> a div BLKSIZE < c_nblocks m \<and> \<not> c_free m (a div BLKSIZE)"

definition bc_inv :: "bcache \<Rightarrow> bool" where
  "bc_inv s \<longleftrightarrow> fs_ready s \<and> cache_inv s"

lemma frame_inv: "frame s s' \<Longrightarrow> bc_inv s \<Longrightarrow> bc_inv s'"
  using frame_ready [of s s'] by (simp add: frame_def bc_inv_def)

lemma bc_touch_ok:
  assumes "bc_inv s" and "fs_valid (content s)" and "usable (content s) a"
  obtains s' pg where "bc_touch a s = Some s'" "same_store s s'" "bc_page s' (a div BLKSIZE) = Some pg"
proof (cases "bc_page s (a div BLKSIZE)")
  case None
  then have "fault_ok s (a div BLKSIZE)" using assms by (simp add: fault_ok_all usable_def bc_inv_def fs_up_def)
  then show ?thesis using None that by (auto simp: fault_ok_def bc_touch_def va_is_mapped_def)
next
  case (Some pg)
  then show ?thesis using that [of s] by (simp add: bc_touch_def va_is_mapped_def)
qed

lemma bc_load_ok:
  assumes "bc_inv s" and "fs_valid (content s)" and "usable (content s) a"
  shows "\<exists>s'. bc_load a s = Some (content s a, s') \<and> same_store s s'"
  using bc_touch_ok [OF assms] load_touched by metis

lemma bc_store_ok:
  assumes "bc_inv s" and "fs_valid (content s)" and "usable (content s) a"
  shows "\<exists>s'. bc_store a v s = Some s' \<and> content s' = (content s)(a := v) \<and> dsk s' = dsk s \<and> frame s s'"
  using bc_touch_ok [OF assms] store_touched by metis

lemma usable_in_disk:
  assumes "fs_valid m" and "usable m a"
  shows "a div BLKSIZE * BLKSIZE < DISKSIZE" and "a < DISKSIZE"
proof -
  have "(a div BLKSIZE + 1) * BLKSIZE \<le> c_nblocks m * BLKSIZE"
    using assms(2) unfolding usable_def by (intro mult_right_mono) auto
  moreover have "c_nblocks m * BLKSIZE \<le> DISKSIZE" using assms(1) by (simp add: fs_valid_def)
  ultimately have "a div BLKSIZE * BLKSIZE + BLKSIZE \<le> DISKSIZE" by simp
  then show "a div BLKSIZE * BLKSIZE < DISKSIZE" "a < DISKSIZE" using addr_split [of a] by linarith+
qed

interpretation cache: block_memory bc_load bc_store flush_block BLKSIZE content dsk bc_inv fs_valid usable
proof
  fix s a v
  assume i: "bc_inv s" and v: "fs_valid (content s)" and u: "usable (content s) a"
  show "\<exists>s'. bc_load a s = Some (content s a, s') \<and> content s' = content s \<and> dsk s' = dsk s \<and> bc_inv s'"
    using bc_load_ok [OF i v u] frame_inv [OF _ i] by (auto simp: same_store_def)
  show "\<exists>s'. bc_store a v s = Some s' \<and> content s' = (content s)(a := v) \<and> dsk s' = dsk s \<and> bc_inv s'"
    using bc_store_ok [OF i v u] frame_inv [OF _ i] by blast
  have "\<not> ide_err (bc_ide s)" "cache_inv s" using i by (simp_all add: bc_inv_def fs_ready_def)
  then show "\<exists>s'. flush_block a s = Some s' \<and> content s' = content s \<and>
      dsk s' = flush_flat BLKSIZE a (content s) (dsk s) \<and> bc_inv s'"
    using flush_block_ok [OF _ _ usable_in_disk [OF v u]] frame_inv [OF _ i] by blast
qed

end
