(* ===== verification/Fs_Init.thy ===== *)
theory Fs_Init
  imports Cache_Spec
begin

text \<open>
  Start of the file server: probing the disks (fs/ide.c), the self test of the block cache
  (fs/bc.c) and the checks of super block and bitmap (fs/fs.c), as they run on the cache.
\<close>

section \<open>Definitions\<close>

text \<open>\<open>st x\<close> is the status byte that the x-th read of port 0x1F7 returns.\<close>

fun probe_loop :: "(nat \<Rightarrow> u8) \<Rightarrow> nat \<Rightarrow> nat \<Rightarrow> nat" where
  "probe_loop st x 0 = x"
| "probe_loop st x (Suc k) = (if st x AND 0xA1 \<noteq> 0 then probe_loop st (x + 1) k else x)"

definition ide_probe_disk1 :: "(nat \<Rightarrow> u8) \<Rightarrow> bool" where
  "ide_probe_disk1 st \<longleftrightarrow> probe_loop st 0 1000 < 1000"

definition diskaddr :: "nat \<Rightarrow> bcache \<Rightarrow> nat option" where
  "diskaddr blockno s =
     (if blockno = 0 then None
      else if super_ptr s then do {
        n \<leftarrow> super_nblocks s;
        if n \<le> blockno then None else Some (blockno * BLKSIZE) }
      else Some (blockno * BLKSIZE))"

text \<open>Copies from and to the disk region, byte by byte.\<close>

fun bc_load_bytes :: "nat \<Rightarrow> nat \<Rightarrow> bcache \<Rightarrow> (u8 list \<times> bcache) option" where
  "bc_load_bytes a 0 s = Some ([], s)"
| "bc_load_bytes a (Suc n) s = do {
     (v, s) \<leftarrow> bc_load a s;
     (vs, s) \<leftarrow> bc_load_bytes (a + 1) n s;
     Some (v # vs, s) }"

fun bc_store_bytes :: "nat \<Rightarrow> u8 list \<Rightarrow> bcache \<Rightarrow> bcache option" where
  "bc_store_bytes a [] s = Some s"
| "bc_store_bytes a (v # vs) s = do {
     s \<leftarrow> bc_store a v s;
     bc_store_bytes (a + 1) vs s }"

definition bc_load32 :: "nat \<Rightarrow> bcache \<Rightarrow> (u32 \<times> bcache) option" where
  "bc_load32 a s = do {
     (vs, s) \<leftarrow> bc_load_bytes a 4 s;
     Some (le32 (\<lambda>i. vs ! i), s) }"

definition bc_unmap :: "nat \<Rightarrow> bcache \<Rightarrow> bcache" where
  "bc_unmap a s = s\<lparr>bc_page := (bc_page s)(a div BLKSIZE := None)\<rparr>"

text \<open>The string \<open>OOPS!\<close>, newline, with its terminating zero; \<open>sizeof (struct Super)\<close>.\<close>

definition oops_str :: "u8 list" where
  "oops_str = [79, 79, 80, 83, 33, 10, 0]"

definition sizeof_Super :: nat where [jos_consts]: "sizeof_Super = 264"

definition check_bc :: "bcache \<Rightarrow> bcache option" where
  "check_bc s = do {
     a \<leftarrow> diskaddr 1 s;
     (backup, s) \<leftarrow> bc_load_bytes a sizeof_Super s;
     s \<leftarrow> bc_store_bytes a oops_str s;
     s \<leftarrow> flush_block a s;
     if \<not> va_is_mapped a s \<or> va_is_dirty a s then None
     else do {
       let s = bc_unmap a s;
       (vs, s) \<leftarrow> bc_load_bytes a (length oops_str) s;
       if vs \<noteq> oops_str then None
       else do {
         s \<leftarrow> bc_store_bytes a backup s;
         flush_block a s
       }
     }
   }"

definition FS_MAGIC :: u32 where [jos_consts]: "FS_MAGIC = 0x4A0530AE"

definition check_super :: "bcache \<Rightarrow> bcache option" where
  "check_super s = do {
     (magic, s) \<leftarrow> bc_load32 BLKSIZE s;
     if magic \<noteq> FS_MAGIC then None
     else do {
       (n, s) \<leftarrow> bc_load32 (BLKSIZE + 4) s;
       if DISKSIZE div BLKSIZE < unat n then None else Some s
     }
   }"

definition bc_block_is_free :: "nat \<Rightarrow> bcache \<Rightarrow> (bool \<times> bcache) option" where
  "bc_block_is_free blockno s =
     (if \<not> super_ptr s then Some (False, s)
      else do {
        (n, s) \<leftarrow> bc_load32 (BLKSIZE + 4) s;
        if unat n \<le> blockno then Some (False, s)
        else do {
          (w, s) \<leftarrow> bc_load32 (2 * BLKSIZE + blockno div 32 * 4) s;
          Some (bit w (blockno mod 32), s)
        }
      })"

fun assert_in_use :: "nat list \<Rightarrow> bcache \<Rightarrow> bcache option" where
  "assert_in_use [] s = Some s"
| "assert_in_use (b # bs) s = do {
     (f, s) \<leftarrow> bc_block_is_free b s;
     if f then None else assert_in_use bs s }"

definition check_bitmap :: "bcache \<Rightarrow> bcache option" where
  "check_bitmap s = do {
     (n, s) \<leftarrow> bc_load32 (BLKSIZE + 4) s;
     assert_in_use (map (\<lambda>i. 2 + i) [0..<(unat n + 32767) div 32768] @ [0, 1]) s }"

definition fs_init :: "(nat \<Rightarrow> u8) \<Rightarrow> bcache \<Rightarrow> bcache option" where
  "fs_init st s = do {
     d \<leftarrow> ide_set_disk (if ide_probe_disk1 st then 1 else 0) (bc_ide s);
     s \<leftarrow> check_bc (s\<lparr>bc_ide := d\<rparr>);
     _ \<leftarrow> diskaddr 1 s;
     let s = s\<lparr>super_ptr := True\<rparr>;
     _ \<leftarrow> diskaddr 2 s;
     let s = s\<lparr>bitmap_ptr := True\<rparr>;
     s \<leftarrow> check_super s;
     check_bitmap s }"

section \<open>Copies\<close>

lemma bc_load_mapped: "bc_load a s = Some (v, s') \<Longrightarrow> bc_page s' (a div BLKSIZE) \<noteq> None"
  by (auto simp: bc_load_def bind_eq_Some_conv)

lemma load_bytes_ok:
  assumes "\<And>s' i. same_store s s' \<Longrightarrow> i < n \<Longrightarrow> \<exists>s''. bc_load (a + i) s' = Some (content s' (a + i), s'') \<and> same_store s' s''"
  shows "\<exists>s'. bc_load_bytes a n s = Some (map (\<lambda>i. content s (a + i)) [0..<n], s') \<and> same_store s s' \<and>
    (0 < n \<longrightarrow> bc_page s' (a div BLKSIZE) \<noteq> None)"
  using assms
proof (induction n arbitrary: a s)
  case (Suc n)
  obtain s1 where s1: "bc_load a s = Some (content s a, s1)" "same_store s s1" using Suc.prems [of s 0] by auto
  have "\<exists>s''. bc_load (Suc a + i) s' = Some (content s' (Suc a + i), s'') \<and> same_store s' s''"
    if "same_store s1 s'" "i < n" for s' i
    using Suc.prems [of s' "Suc i"] same_store_trans [OF s1(2) that(1)] that(2) by simp
  from Suc.IH [of s1 "Suc a", OF this] obtain s2 where
    s2: "bc_load_bytes (Suc a) n s1 = Some (map (\<lambda>i. content s1 (Suc a + i)) [0..<n], s2)" "same_store s1 s2" by auto
  have "map (\<lambda>i. content s (a + i)) [0..<Suc n] = content s a # map (\<lambda>i. content s1 (Suc a + i)) [0..<n]"
    using s1(2) by (simp add: upt_conv_Cons map_Suc_upt [symmetric] same_store_def o_def del: upt_Suc)
  then show ?case using s1 s2 same_store_trans [OF s1(2) s2(2)] same_store_mapped [OF s2(2) bc_load_mapped [OF s1(1)]]
    by auto
qed simp

lemma store_bytes_ok:
  assumes "\<And>s' i v. frame s s' \<Longrightarrow> i < length vs \<Longrightarrow>
    \<exists>s''. bc_store (a + i) v s' = Some s'' \<and> content s'' = (content s')(a + i := v) \<and> dsk s'' = dsk s' \<and> frame s' s''"
  shows "\<exists>s'. bc_store_bytes a vs s = Some s' \<and> content s' = upd_bytes a vs (content s) \<and> dsk s' = dsk s \<and> frame s s'"
  using assms
proof (induction vs arbitrary: a s)
  case (Cons v vs)
  obtain s1 where s1: "bc_store a v s = Some s1" "content s1 = (content s)(a := v)" "dsk s1 = dsk s" "frame s s1"
    using Cons.prems [OF frame_refl, of 0 v] unfolding add_0_right by blast
  have "\<exists>s''. bc_store (Suc a + i) w s' = Some s'' \<and> content s'' = (content s')(Suc a + i := w) \<and> dsk s'' = dsk s' \<and> frame s' s''"
    if "frame s1 s'" "i < length vs" for s' i w
  proof -
    have "Suc i < length (v # vs)" and e: "a + Suc i = Suc a + i" using that(2) by simp_all
    from Cons.prems [OF frame_trans [OF s1(4) that(1)] this(1), of w] show ?thesis unfolding e .
  qed
  from Cons.IH [of s1 "Suc a", OF this] obtain s2 where
    s2: "bc_store_bytes (Suc a) vs s1 = Some s2" "content s2 = upd_bytes (Suc a) vs (content s1)" "dsk s2 = dsk s1" "frame s1 s2"
    by blast
  show ?case using s1(1,3) s2(1,3) frame_trans [OF s1(4) s2(4)] s2(2) unfolding s1(2) upd_bytes_Cons by simp
qed simp

section \<open>The self test\<close>

text \<open>Before the pointers are set a fault reads the block and checks nothing.\<close>

definition raw :: "bcache \<Rightarrow> bool" where
  "raw s \<longleftrightarrow> \<not> super_ptr s \<and> \<not> bitmap_ptr s \<and> mem_ok s \<and> \<not> ide_err (bc_ide s)"

lemma raw_touch:
  assumes "raw s" and "a div BLKSIZE = 1"
  obtains s' pg where "bc_touch a s = Some s'" "same_store s s'" "bc_page s' 1 = Some pg"
proof (cases "bc_page s 1")
  case None
  have r: "ide_read (of_nat (1 * BLKSECTS)) BLKSECTS (bc_ide s) = Some (0, block_bytes 1 s)"
    using ide_read_block [of "bc_ide s" 1] assms by (simp add: raw_def block_bytes_def dsk_def jos_consts)
  have a: "a < DISKSIZE" using addr_split [of a] assms(2) by (simp add: jos_consts)
  have "bc_touch a s = Some (map_page 1 (block_bytes 1 s) s)"
    using None r a assms by (simp add: bc_touch_def va_is_mapped_def bc_pgfault.simps [of a] raw_def map_page_def)
  then show ?thesis using that map_page_same [OF None] by auto
next
  case (Some pg)
  then show ?thesis using that [of s] assms by (simp add: bc_touch_def va_is_mapped_def)
qed

lemma raw_frame: "frame s s' \<Longrightarrow> raw s \<Longrightarrow> raw s'"
  by (simp add: raw_def frame_def)

lemma raw_load_bytes:
  assumes "raw s" and "\<And>i. i < n \<Longrightarrow> (a + i) div BLKSIZE = 1" and "0 < n"
  shows "\<exists>s'. bc_load_bytes a n s = Some (map (\<lambda>i. content s (a + i)) [0..<n], s') \<and> same_store s s' \<and> bc_page s' 1 \<noteq> None"
proof -
  have "\<exists>s''. bc_load (a + i) s' = Some (content s' (a + i), s'') \<and> same_store s' s''"
    if "same_store s s'" "i < n" for s' i
  proof -
    have "raw s'" using that(1) assms(1) raw_frame by (auto simp: same_store_def)
    from raw_touch [OF this assms(2) [OF that(2)]] show ?thesis using load_touched assms(2) [OF that(2)] by metis
  qed
  from load_bytes_ok [of s n a, OF this] show ?thesis using assms(2) [of 0] assms(3) by simp
qed

lemma raw_store_bytes:
  assumes "raw s" and "\<And>i. i < length vs \<Longrightarrow> (a + i) div BLKSIZE = 1"
  shows "\<exists>s'. bc_store_bytes a vs s = Some s' \<and> content s' = upd_bytes a vs (content s) \<and> dsk s' = dsk s \<and> frame s s'"
proof (rule store_bytes_ok)
  fix s' i v
  assume f: "frame s s'" and i: "i < length vs"
  from raw_touch [OF raw_frame [OF f assms(1)] assms(2) [OF i]]
  show "\<exists>s''. bc_store (a + i) v s' = Some s'' \<and> content s'' = (content s')(a + i := v) \<and> dsk s'' = dsk s' \<and> frame s' s''"
    using store_touched assms(2) [OF i] by metis
qed

lemma unmap_clean:
  assumes "cache_inv s" and "\<not> bc_dirty s b" and "a div BLKSIZE = b"
  shows "content (bc_unmap a s) = content s" "dsk (bc_unmap a s) = dsk s" "cache_inv (bc_unmap a s)"
    and "raw s \<Longrightarrow> raw (bc_unmap a s)"
proof -
  show d: "dsk (bc_unmap a s) = dsk s" by (simp add: bc_unmap_def dsk_def fun_eq_iff)
  show "content (bc_unmap a s) = content s"
  proof
    fix x
    show "content (bc_unmap a s) x = content s x"
      using flush_clean [of s a, THEN fun_cong, of x] assms d
      by (auto simp: content_def bc_unmap_def flush_flat_def dsk_def split: option.splits)
  qed
  show "cache_inv (bc_unmap a s)" using assms(1) d by (simp add: cache_inv_def bc_unmap_def)
  show "raw s \<Longrightarrow> raw (bc_unmap a s)" by (simp add: raw_def bc_unmap_def)
qed

lemma in_block1: "i < 4096 \<Longrightarrow> (BLKSIZE + i) div BLKSIZE = 1"
  by (simp add: BLKSIZE_def)

lemma raw_flush:
  assumes "raw s" and "cache_inv s"
  shows "\<exists>s'. flush_block BLKSIZE s = Some s' \<and> content s' = content s \<and>
    dsk s' = flush_flat BLKSIZE BLKSIZE (content s) (dsk s) \<and> frame s s' \<and> (bc_page s' 1 \<noteq> None \<longrightarrow> \<not> bc_dirty s' 1)"
proof -
  have b: "BLKSIZE div BLKSIZE = 1" "1 * BLKSIZE < DISKSIZE" "BLKSIZE < DISKSIZE" by (simp_all add: jos_consts)
  have "\<not> ide_err (bc_ide s)" using assms(1) by (simp add: raw_def)
  from flush_block_ok [OF this assms(2), of BLKSIZE, unfolded b(1), OF b(2,3)] show ?thesis by metis
qed

lemma smash_and_restore:
  "upd_bytes a (map (\<lambda>i. m (a + i)) [0..<n]) (upd_bytes a vs m) = m" if "length vs \<le> n"
  using that by (auto simp: upd_bytes_def fun_eq_iff)

definition backup_of :: "bcache \<Rightarrow> u8 list" where
  "backup_of s = map (\<lambda>i. content s (BLKSIZE + i)) [0..<sizeof_Super]"

lemma check_bc_smash:
  assumes r: "raw s" and i: "cache_inv s"
  shows "\<exists>s1 s2 s3. bc_load_bytes BLKSIZE sizeof_Super s = Some (backup_of s, s1) \<and>
    bc_store_bytes BLKSIZE oops_str s1 = Some s2 \<and> flush_block BLKSIZE s2 = Some s3 \<and> frame s s3 \<and>
    bc_page s3 1 \<noteq> None \<and> \<not> bc_dirty s3 1 \<and> content s3 = upd_bytes BLKSIZE oops_str (content s) \<and>
    dsk s3 = flush_flat BLKSIZE BLKSIZE (content s3) (dsk s)"
proof -
  obtain s1 where s1: "bc_load_bytes BLKSIZE sizeof_Super s = Some (backup_of s, s1)" "same_store s s1" "bc_page s1 1 \<noteq> None"
    using raw_load_bytes [OF r, of sizeof_Super BLKSIZE] in_block1 by (auto simp: sizeof_Super_def backup_of_def)
  have f1: "frame s s1" "content s1 = content s" "dsk s1 = dsk s" using s1(2) by (simp_all add: same_store_def)
  obtain s2 where s2: "bc_store_bytes BLKSIZE oops_str s1 = Some s2" "content s2 = upd_bytes BLKSIZE oops_str (content s)"
      "dsk s2 = dsk s" "frame s s2" "frame s1 s2"
    using raw_store_bytes [OF raw_frame [OF f1(1) r], of oops_str BLKSIZE] in_block1 f1 frame_trans [OF f1(1)]
    unfolding f1(2,3) by (auto simp: oops_str_def)
  have i2: "cache_inv s2" using s2(4) i by (simp add: frame_def)
  obtain s3 where s3: "flush_block BLKSIZE s2 = Some s3" "content s3 = content s2"
      "dsk s3 = flush_flat BLKSIZE BLKSIZE (content s2) (dsk s)" "frame s2 s3" "bc_page s3 1 \<noteq> None \<longrightarrow> \<not> bc_dirty s3 1"
    using raw_flush [OF raw_frame [OF s2(4) r] i2] unfolding s2(3) by blast
  have f3: "frame s s3" by (rule frame_trans [OF s2(4) s3(4)])
  have m3: "bc_page s3 1 \<noteq> None" using s1(3) s2(5) s3(4) by (simp add: frame_def)
  show ?thesis
    by (intro exI [of _ s1] exI [of _ s2] exI [of _ s3]) (use s1(1) s2(1,2) s3 f3 m3 in simp)
qed

lemma check_bc_restore:
  assumes r: "raw s" and i: "cache_inv s" and c: "content s = upd_bytes BLKSIZE oops_str (content t)"
  shows "\<exists>s1 s2 s3. bc_load_bytes BLKSIZE (length oops_str) s = Some (oops_str, s1) \<and>
    bc_store_bytes BLKSIZE (backup_of t) s1 = Some s2 \<and> flush_block BLKSIZE s2 = Some s3 \<and> frame s s3 \<and>
    bc_page s3 1 \<noteq> None \<and> content s3 = content t \<and> dsk s3 = flush_flat BLKSIZE BLKSIZE (content t) (dsk s)"
proof -
  have v: "map (\<lambda>i. content s (BLKSIZE + i)) [0..<length oops_str] = oops_str"
    unfolding c by (rule nth_equalityI) (simp_all add: upd_bytes_def)
  obtain s1 where s1: "bc_load_bytes BLKSIZE (length oops_str) s = Some (oops_str, s1)" "same_store s s1" "bc_page s1 1 \<noteq> None"
    using raw_load_bytes [OF r, of "length oops_str" BLKSIZE] in_block1 unfolding v by (auto simp: oops_str_def)
  have f1: "frame s s1" "content s1 = content s" "dsk s1 = dsk s" using s1(2) by (simp_all add: same_store_def)
  obtain s2 where s2: "bc_store_bytes BLKSIZE (backup_of t) s1 = Some s2"
      "content s2 = upd_bytes BLKSIZE (backup_of t) (content s)" "dsk s2 = dsk s" "frame s1 s2"
    using raw_store_bytes [OF raw_frame [OF f1(1) r], of "backup_of t" BLKSIZE] in_block1
    unfolding f1(2,3) by (auto simp: sizeof_Super_def backup_of_def)
  have c2: "content s2 = content t"
    unfolding s2(2) c backup_of_def by (rule smash_and_restore) (simp add: oops_str_def sizeof_Super_def)
  have f2: "frame s s2" by (rule frame_trans [OF f1(1) s2(4)])
  have i2: "cache_inv s2" using f2 i by (simp add: frame_def)
  obtain s3 where s3: "flush_block BLKSIZE s2 = Some s3" "content s3 = content t"
      "dsk s3 = flush_flat BLKSIZE BLKSIZE (content t) (dsk s)" "frame s2 s3"
    using raw_flush [OF raw_frame [OF f2 r] i2] unfolding c2 s2(3) by blast
  have "bc_page s3 1 \<noteq> None" using s1(3) s2(4) s3(4) by (simp add: frame_def)
  then show ?thesis
    by (intro exI [of _ s1] exI [of _ s2] exI [of _ s3]) (use s1(1) s2(1) s3 frame_trans [OF f2 s3(4)] in simp)
qed

text \<open>The self test returns and leaves contents and disk as they were, with block 1 mapped.\<close>

lemma check_bc_ok:
  assumes r: "raw s" and i: "cache_inv s" and cl: "bc_page s 1 = None"
  shows "\<exists>s'. check_bc s = Some s' \<and> raw s' \<and> cache_inv s' \<and> content s' = content s \<and> dsk s' = dsk s \<and>
    bc_page s' 1 \<noteq> None"
proof -
  have da: "diskaddr 1 s = Some BLKSIZE" using r by (simp add: diskaddr_def raw_def)
  have b1: "BLKSIZE div BLKSIZE = 1" by (simp add: BLKSIZE_def)
  obtain s1 s2 s3 where s3: "bc_load_bytes BLKSIZE sizeof_Super s = Some (backup_of s, s1)"
      "bc_store_bytes BLKSIZE oops_str s1 = Some s2" "flush_block BLKSIZE s2 = Some s3" "frame s s3"
      "bc_page s3 1 \<noteq> None" "\<not> bc_dirty s3 1" "content s3 = upd_bytes BLKSIZE oops_str (content s)"
      "dsk s3 = flush_flat BLKSIZE BLKSIZE (content s3) (dsk s)"
    using check_bc_smash [OF r i] by blast
  have i3: "cache_inv s3" using s3(4) i by (simp add: frame_def)
  define s4 where "s4 = bc_unmap BLKSIZE s3"
  note u = unmap_clean [OF i3 s3(6) b1, folded s4_def]
    and r4 = unmap_clean(4) [OF i3 s3(6) b1 raw_frame [OF s3(4) r], folded s4_def]
  obtain s5 s6 s7 where s7: "bc_load_bytes BLKSIZE (length oops_str) s4 = Some (oops_str, s5)"
      "bc_store_bytes BLKSIZE (backup_of s) s5 = Some s6" "flush_block BLKSIZE s6 = Some s7" "frame s4 s7"
      "bc_page s7 1 \<noteq> None" "content s7 = content s" "dsk s7 = flush_flat BLKSIZE BLKSIZE (content s) (dsk s4)"
    using check_bc_restore [OF r4 u(3), of s] u(1) s3(7) by auto
  have "content s x = dsk s x" if "x div BLKSIZE = 1" for x using that cl by (simp add: content_def)
  then have "dsk s7 = dsk s" unfolding s7(7) u(2) s3(8) by (auto simp: flush_flat_def b1)
  moreover have "check_bc s = Some s7"
    using da s3(1-3,5,6) s7(1-3) by (simp add: check_bc_def va_is_mapped_def va_is_dirty_def b1 s4_def [symmetric])
  moreover have "raw s7" "cache_inv s7" using raw_frame [OF s7(4) r4] s7(4) u(3) by (simp_all add: frame_def)
  ultimately show ?thesis using s7(5,6) by blast
qed

section \<open>The checks of super block and bitmap\<close>

lemma bc_load32_ok:
  assumes i: "bc_inv s" and v: "fs_valid (content s)" and u: "\<And>k. k < 4 \<Longrightarrow> usable (content s) (a + k)"
  shows "\<exists>s'. bc_load32 a s = Some (le32 (\<lambda>k. content s (a + k)), s') \<and> same_store s s'"
proof -
  have "\<exists>s''. bc_load (a + k) s' = Some (content s' (a + k), s'') \<and> same_store s' s''"
    if "same_store s s'" "k < 4" for s' k
    using bc_load_ok [of s' "a + k"] frame_inv [OF _ i] v u [OF that(2)] that(1) by (simp add: same_store_def)
  from load_bytes_ok [of s 4 a, OF this] obtain s' where
    s': "bc_load_bytes a 4 s = Some (map (\<lambda>k. content s (a + k)) [0..<4], s')" "same_store s s'" by auto
  have "le32 (\<lambda>k. map (\<lambda>k. content s (a + k)) [0..<4] ! k) = le32 (\<lambda>k. content s (a + k))"
    by (rule le32_cong) simp
  then show ?thesis using s' by (simp add: bc_load32_def)
qed

text \<open>A disk on which the server starts.\<close>

definition good_disk :: "(nat \<Rightarrow> u8) \<Rightarrow> bool" where
  "good_disk m \<longleftrightarrow> le32 (\<lambda>k. m (BLKSIZE + k)) = FS_MAGIC \<and> 0 < c_nblocks m \<and> fs_valid m \<and> \<not> c_free m 0 \<and> \<not> c_free m 1"

lemma good_two: "good_disk m \<Longrightarrow> 2 < c_nblocks m"
  by (auto simp: good_disk_def fs_valid_def dest: spec [of _ 0])

lemma good_usable1: "good_disk m \<Longrightarrow> k < 8 \<Longrightarrow> usable m (BLKSIZE + k)"
  using good_two [of m] by (simp add: good_disk_def usable_def in_block1)

lemma good_usable_bit:
  assumes "good_disk m" and "b < c_nblocks m" and "k < 4"
  shows "usable m (2 * BLKSIZE + b div 32 * 4 + k)"
proof -
  have "b div 32768 * 32768 < c_nblocks m" using assms(2) by (meson div_times_less_eq_dividend le_less_trans)
  then have "2 + b div 32768 < c_nblocks m \<and> \<not> c_free m (2 + b div 32768)"
    using assms(1) by (auto simp: good_disk_def fs_valid_def)
  then show ?thesis using word_page(1) [of b] word_page(2) [OF assms(3), of b] by (simp add: usable_def)
qed

lemma check_super_ok:
  assumes "bc_inv s" and g: "good_disk (content s)"
  shows "\<exists>s'. check_super s = Some s' \<and> same_store s s'"
proof -
  have v: "fs_valid (content s)" using g by (simp add: good_disk_def)
  obtain s1 where s1: "bc_load32 BLKSIZE s = Some (FS_MAGIC, s1)" "same_store s s1"
    using bc_load32_ok [OF assms(1) v, of BLKSIZE] good_usable1 [OF g] g by (auto simp: good_disk_def)
  have c: "content s1 = content s" and i1: "bc_inv s1" using s1(2) assms(1) frame_inv by (auto simp: same_store_def)
  obtain s2 where s2: "bc_load32 (BLKSIZE + 4) s1 = Some (le32 (\<lambda>k. content s (BLKSIZE + 4 + k)), s2)" "same_store s1 s2"
    using bc_load32_ok [OF i1, of "BLKSIZE + 4"] good_usable1 [OF g] v unfolding c by (auto simp: add.assoc)
  have "unat (le32 (\<lambda>k. content s (BLKSIZE + 4 + k))) \<le> DISKSIZE div BLKSIZE"
    using v by (simp add: fs_valid_def c_nblocks_def BLKSIZE_def DISKSIZE_def)
  then have "check_super s = Some s2" using s1(1) s2(1) by (simp add: check_super_def)
  then show ?thesis using same_store_trans [OF s1(2) s2(2)] by blast
qed

lemma block_is_free_ok:
  assumes "bc_inv s" and g: "good_disk (content s)" and b: "b < c_nblocks (content s)"
  shows "\<exists>s'. bc_block_is_free b s = Some (c_free (content s) b, s') \<and> same_store s s'"
proof -
  have v: "fs_valid (content s)" using g by (simp add: good_disk_def)
  obtain s1 where s1: "bc_load32 (BLKSIZE + 4) s = Some (le32 (\<lambda>k. content s (BLKSIZE + 4 + k)), s1)" "same_store s s1"
    using bc_load32_ok [OF assms(1) v, of "BLKSIZE + 4"] good_usable1 [OF g] by (auto simp: add.assoc)
  have c: "content s1 = content s" and i1: "bc_inv s1" using s1(2) assms(1) frame_inv by (auto simp: same_store_def)
  obtain s2 where s2: "bc_load32 (2 * BLKSIZE + b div 32 * 4) s1 =
      Some (le32 (\<lambda>k. content s (2 * BLKSIZE + b div 32 * 4 + k)), s2)" "same_store s1 s2"
    using bc_load32_ok [OF i1, of "2 * BLKSIZE + b div 32 * 4"] good_usable_bit [OF g b] v unfolding c by auto
  have "super_ptr s" using assms(1) by (simp add: bc_inv_def fs_ready_def)
  then have "bc_block_is_free b s = Some (c_free (content s) b, s2)"
    using s1(1) s2(1) b by (simp add: bc_block_is_free_def c_free_def c_nblocks_def)
  then show ?thesis using same_store_trans [OF s1(2) s2(2)] by blast
qed

lemma assert_in_use_ok:
  assumes "bc_inv s" and "good_disk (content s)" and "\<forall>b \<in> set bs. b < c_nblocks (content s) \<and> \<not> c_free (content s) b"
  shows "\<exists>s'. assert_in_use bs s = Some s' \<and> same_store s s'"
  using assms
proof (induction bs arbitrary: s)
  case (Cons b bs)
  then obtain s1 where s1: "bc_block_is_free b s = Some (False, s1)" "same_store s s1"
    using block_is_free_ok [of s b] by auto
  have "bc_inv s1" "content s1 = content s" using s1(2) Cons.prems(1) frame_inv by (auto simp: same_store_def)
  then show ?case using Cons.IH [of s1] Cons.prems s1 same_store_trans [OF s1(2)] by auto
qed simp

lemma check_bitmap_ok:
  assumes "bc_inv s" and g: "good_disk (content s)"
  shows "\<exists>s'. check_bitmap s = Some s' \<and> same_store s s'"
proof -
  let ?n = "c_nblocks (content s)"
  have v: "fs_valid (content s)" using g by (simp add: good_disk_def)
  obtain s1 where s1: "bc_load32 (BLKSIZE + 4) s = Some (le32 (\<lambda>k. content s (BLKSIZE + 4 + k)), s1)" "same_store s s1"
    using bc_load32_ok [OF assms(1) v, of "BLKSIZE + 4"] good_usable1 [OF g] by (auto simp: add.assoc)
  have c: "content s1 = content s" and i1: "bc_inv s1" using s1(2) assms(1) frame_inv by (auto simp: same_store_def)
  have "2 + i < ?n \<and> \<not> c_free (content s) (2 + i)" if "i < (?n + 32767) div 32768" for i
  proof -
    have "i * 32768 < ?n" using that by linarith
    then show ?thesis using v by (simp add: fs_valid_def)
  qed
  moreover have "2 < ?n" by (rule good_two [OF g])
  ultimately have "\<forall>b \<in> set (map (\<lambda>i. 2 + i) [0..<(?n + 32767) div 32768] @ [0, 1]).
      b < c_nblocks (content s1) \<and> \<not> c_free (content s1) b"
    using g by (auto simp: c good_disk_def)
  from assert_in_use_ok [OF i1 _ this] obtain s2 where
    "assert_in_use (map (\<lambda>i. 2 + i) [0..<(?n + 32767) div 32768] @ [0, 1]) s1 = Some s2" "same_store s1 s2"
    using g c by auto
  then show ?thesis using s1 same_store_trans [OF s1(2)] by (auto simp: check_bitmap_def c_nblocks_def)
qed

lemma fs_init_ok:
  fixes s st
  defines "k \<equiv> (if ide_probe_disk1 st then 1 else 0)"
  assumes "\<not> ide_err (bc_ide s)" and "bc_page s = (\<lambda>_. None)" and "\<not> super_ptr s" "\<not> bitmap_ptr s" "mem_ok s"
    and g: "good_disk (ide_data (bc_ide s) k)"
  shows "\<exists>s'. fs_init st s = Some s' \<and> bc_inv s' \<and> content s' = ide_data (bc_ide s) k \<and> dsk s' = ide_data (bc_ide s) k"
proof -
  define s0 where "s0 = s\<lparr>bc_ide := (bc_ide s)\<lparr>ide_diskno := k\<rparr>\<rparr>"
  have sd: "ide_set_disk (if ide_probe_disk1 st then 1 else 0) (bc_ide s) = Some ((bc_ide s)\<lparr>ide_diskno := k\<rparr>)"
    by (simp add: ide_set_disk_def k_def)
  have d0: "dsk s0 = ide_data (bc_ide s) k" by (simp add: s0_def dsk_def fun_eq_iff)
  have c0: "content s0 = ide_data (bc_ide s) k" using assms(3) d0 by (simp add: content_def s0_def fun_eq_iff)
  have "raw s0" "cache_inv s0" "bc_page s0 1 = None" using assms by (simp_all add: s0_def raw_def cache_inv_def)
  from check_bc_ok [OF this] obtain s1 where s1: "check_bc s0 = Some s1" "raw s1" "cache_inv s1"
    "content s1 = ide_data (bc_ide s) k" "dsk s1 = ide_data (bc_ide s) k" "bc_page s1 1 \<noteq> None"
    unfolding c0 d0 by blast
  define s2 where "s2 = s1\<lparr>super_ptr := True, bitmap_ptr := True\<rparr>"
  have d2: "dsk s2 = dsk s1" by (simp add: s2_def dsk_def fun_eq_iff)
  have c2: "content s2 = content s1" by (simp add: content_def s2_def dsk_def fun_eq_iff split: option.split)
  have i2: "bc_inv s2" using s1(2,3,6) d2 by (simp add: bc_inv_def fs_ready_def raw_def cache_inv_def s2_def)
  have g2: "good_disk (content s2)" using g c2 s1(4) by simp
  have "2 < c_nblocks (content s1)" using good_two [OF g2] c2 by simp
  then have a: "diskaddr 1 s1 \<noteq> None" "diskaddr 2 (s1\<lparr>super_ptr := True\<rparr>) \<noteq> None"
    using s1(2) super_nblocks_content [of "s1\<lparr>super_ptr := True\<rparr>"] super_nblocks_content [OF s1(6)] s1(6)
    by (auto simp: diskaddr_def raw_def super_nblocks_def)
  obtain s3 where s3: "check_super s2 = Some s3" "same_store s2 s3" using check_super_ok [OF i2 g2] by blast
  have c3: "content s3 = content s2" and i3: "bc_inv s3" using s3(2) i2 frame_inv by (auto simp: same_store_def)
  obtain s4 where s4: "check_bitmap s3 = Some s4" "same_store s3 s4" using check_bitmap_ok [OF i3] g2 c3 by auto
  have "fs_init st s = Some s4"
    using sd s1(1) a s3(1) s4(1) by (auto simp: fs_init_def s0_def [symmetric] s2_def)
  moreover have "bc_inv s4" using s4(2) i3 frame_inv by (auto simp: same_store_def)
  moreover have "content s4 = content s1" "dsk s4 = dsk s1"
    using s4(2) s3(2) c2 d2 by (simp_all add: same_store_def)
  ultimately show ?thesis using s1(4,5) by auto
qed

end
