(* ===== verification/Cache_Theorems.thy ===== *)
theory Cache_Theorems
  imports Fs_Init
begin

text \<open>The properties of the disk driver, the block cache and the start of the file server.\<close>

section \<open>A small disk\<close>

text \<open>Four blocks, all in use: boot sector, super block, bitmap and one block of data.\<close>

definition small_disk :: "nat \<Rightarrow> u8" where
  "small_disk a = (if a = 4096 then 0xAE else if a = 4097 then 0x30 else if a = 4098 then 0x05 else
     if a = 4099 then 0x4A else if a = 4100 then 4 else if a = 12300 then 7 else 0)"

definition boot_cache :: bcache where
  "boot_cache = \<lparr>bc_ide = \<lparr>ide_diskno = 1, ide_err = False, ide_data = (\<lambda>_. small_disk)\<rparr>, bc_page = (\<lambda>_. None),
     bc_dirty = (\<lambda>_. False), bc_acc = (\<lambda>_. False), super_ptr = False, bitmap_ptr = False, mem_ok = True\<rparr>"

definition small_cache :: bcache where
  "small_cache = boot_cache\<lparr>super_ptr := True, bitmap_ptr := True, bc_page := [1 \<mapsto> (\<lambda>i. small_disk (BLKSIZE + i))]\<rparr>"

lemma small_nblocks [simp]: "c_nblocks small_disk = 4"
  by (simp add: c_nblocks_def small_disk_def le32_def BLKSIZE_def)

lemma small_free [simp]: "b < 4 \<Longrightarrow> \<not> c_free small_disk b"
  by (simp add: c_free_def small_disk_def le32_def BLKSIZE_def)

lemma small_good: "good_disk small_disk"
proof -
  have "le32 (\<lambda>k. small_disk (BLKSIZE + k)) = FS_MAGIC"
    by (simp add: small_disk_def le32_def BLKSIZE_def FS_MAGIC_def)
  moreover have "fs_valid small_disk" by (simp add: fs_valid_def BLKSIZE_def DISKSIZE_def)
  ultimately show ?thesis by (simp add: good_disk_def)
qed

lemma small_dsk: "dsk small_cache = small_disk"
  by (simp add: dsk_def small_cache_def boot_cache_def fun_eq_iff)

lemma small_content: "content small_cache = small_disk"
proof
  fix x
  have "small_disk (BLKSIZE + x mod BLKSIZE) = small_disk x" if "x div BLKSIZE = 1"
    using that div_mult_mod_eq [of x BLKSIZE] by simp
  then show "content small_cache x = small_disk x"
    using small_dsk by (auto simp: content_def small_cache_def)
qed

lemma small_inv: "bc_inv small_cache"
  using small_dsk by (auto simp: bc_inv_def fs_ready_def cache_inv_def small_cache_def boot_cache_def)

lemma small_valid: "fs_valid (content small_cache)"
  using small_good by (simp add: small_content good_disk_def)

section \<open>Properties\<close>

text \<open>
  C24 The block cache refines a flat memory over a flat disk. For every sequence of byte loads,
  byte stores and \<open>flush_block\<close> calls that touches only blocks in use, the cache panics nowhere,
  every load returns the byte of the flat memory, and at the end the memory the file server
  sees and the contents of the drive are those of the flat specification, whatever was faulted
  in, written back or left dirty in between.
\<close>

theorem cache_refines_flat:
  assumes "bc_inv s" and "fs_valid (content s)" and "legal fs_valid usable ops (content s)"
  shows "\<exists>vs s'. run_ops bc_load bc_store flush_block ops s = Some (vs, s') \<and>
    run_flat BLKSIZE ops (content s, dsk s) = (vs, content s', dsk s') \<and> bc_inv s'"
  by (rule cache.run_simulates [OF assms])

lemma small_upd_nblocks: "a \<notin> {4100..4103} \<Longrightarrow> c_nblocks (small_disk(a := v)) = 4"
  using small_nblocks by (auto simp: c_nblocks_def BLKSIZE_def le32_def)

lemma small_upd_free: "a \<notin> {8192..8195} \<Longrightarrow> b < 4 \<Longrightarrow> \<not> c_free (small_disk(a := v)) b"
  using small_free [of b] by (auto simp: c_free_def BLKSIZE_def le32_def)

theorem cache_refines_flat_witness:
  "\<exists>s'. run_ops bc_load bc_store flush_block [Store 12301 9, Load 12300, Load 12301, Flush 12300] small_cache = Some ([7, 9], s') \<and>
    dsk s' 12301 = 9"
proof -
  let ?ops = "[Store 12301 9, Load 12300, Load 12301, Flush 12300] :: u8 memop list"
  have d: "(12300::nat) div BLKSIZE = 3" "(12301::nat) div BLKSIZE = 3" by (simp_all add: BLKSIZE_def)
  have l: "legal fs_valid usable ?ops (content small_cache)"
    by (simp add: small_content usable_def d small_upd_nblocks small_upd_free fs_valid_def BLKSIZE_def DISKSIZE_def)
  obtain vs s' where r: "run_ops bc_load bc_store flush_block ?ops small_cache = Some (vs, s')"
      "run_flat BLKSIZE ?ops (content small_cache, dsk small_cache) = (vs, content s', dsk s')"
    using cache_refines_flat [OF small_inv small_valid l] by blast
  have v: "vs = [7, 9]" and e: "flush_flat BLKSIZE 12300 (small_disk(12301 := 9)) small_disk = dsk s'"
    using r(2) by (simp_all add: small_content small_dsk) (auto simp: small_disk_def)
  have "dsk s' 12301 = 9" unfolding e [symmetric] by (simp add: flush_flat_def d)
  then show ?thesis using r(1) v by blast
qed

text \<open>
  C25 The page fault handler of the file server ends, although its last check reads the bitmap
  and may fault on it in turn: a fault on a block that exists and is marked in use, on a valid
  file system and a working drive, returns with the block mapped, and it changes neither the
  memory the file server sees nor the disk.
\<close>

theorem bc_pgfault_returns:
  assumes "bc_inv s" and "fs_valid (content s)" and "usable (content s) a" and "\<not> va_is_mapped a s"
  shows "\<exists>s'. bc_pgfault a s = Some s' \<and> va_is_mapped a s' \<and> content s' = content s \<and> dsk s' = dsk s \<and> bc_inv s'"
proof -
  obtain s' pg where "bc_touch a s = Some s'" "same_store s s'" "bc_page s' (a div BLKSIZE) = Some pg"
    by (rule bc_touch_ok [OF assms(1-3)])
  then show ?thesis using assms(4) frame_inv [OF _ assms(1)]
    by (auto simp: bc_touch_def va_is_mapped_def same_store_def)
qed

theorem bc_pgfault_returns_witness:
  "\<exists>s'. bc_pgfault 12300 small_cache = Some s' \<and> va_is_mapped 12300 s' \<and> content s' 12300 = 7"
proof -
  have d: "(12300::nat) div BLKSIZE = 3" by (simp add: BLKSIZE_def)
  have "usable (content small_cache) 12300" by (simp add: small_content usable_def d)
  moreover have "\<not> va_is_mapped 12300 small_cache" by (simp add: d va_is_mapped_def small_cache_def)
  ultimately show ?thesis
    using bc_pgfault_returns [OF small_inv small_valid, of 12300] by (auto simp: small_content small_disk_def)
qed

text \<open>
  C26 Starting the file server on a well-formed disk succeeds: \<open>fs_init\<close> selects drive 1 when the
  probe finds it and drive 0 otherwise, the self test that overwrites the super block puts it
  back, the checks of super block and bitmap pass, and the server ends in a state that satisfies
  the invariant of the cache with the disk byte for byte as it was.
\<close>

theorem fs_init_correct:
  assumes "\<not> ide_err (bc_ide s)" and "bc_page s = (\<lambda>_. None)" and "\<not> super_ptr s" "\<not> bitmap_ptr s" "mem_ok s"
    and "good_disk (ide_data (bc_ide s) (if ide_probe_disk1 st then 1 else 0))"
  shows "\<exists>s'. fs_init st s = Some s' \<and> bc_inv s' \<and> fs_valid (content s') \<and>
    content s' = ide_data (bc_ide s) (if ide_probe_disk1 st then 1 else 0) \<and>
    dsk s' = ide_data (bc_ide s) (if ide_probe_disk1 st then 1 else 0)"
proof -
  obtain s' where s': "fs_init st s = Some s'" "bc_inv s'"
      "content s' = ide_data (bc_ide s) (if ide_probe_disk1 st then 1 else 0)"
      "dsk s' = ide_data (bc_ide s) (if ide_probe_disk1 st then 1 else 0)"
    using fs_init_ok [OF assms] by blast
  moreover have "fs_valid (content s')" using assms(6) s'(3) by (simp add: good_disk_def)
  ultimately show ?thesis by blast
qed

theorem fs_init_correct_witness:
  "\<exists>s'. fs_init (\<lambda>_. 0x50) boot_cache = Some s' \<and> bc_inv s' \<and> dsk s' = small_disk"
  using fs_init_correct [of boot_cache "\<lambda>_. 0x50"] small_good by (auto simp: boot_cache_def)

end
