(* ===== verification/Fs.thy ===== *)
theory Fs
  imports Block_Cache Flat_Memory "HOL-Library.Signed_Division"
begin

text \<open>
  The file system (fs/fs.c) over the flat memory that the block cache implements: \<open>dm\<close> is the
  disk region of the server's memory by byte, \<open>disk\<close> the drive. Pointers are offsets from
  \<open>DISKMAP\<close>; a \<open>struct File *\<close> is the offset of the structure. The theorem on the block cache
  that loads, stores and flushes act like this holds for accesses to blocks in use.

  Signed quantities of the code (\<open>off_t\<close>, \<open>int\<close>) are integers in the range of their type; the
  conversions that C applies are written out.
\<close>

section \<open>C integers\<close>

definition i32 :: "int \<Rightarrow> int" where
  "i32 x = (x + 2 ^ 31) mod 2 ^ 32 - 2 ^ 31"

definition u32i :: "int \<Rightarrow> int" where
  "u32i x = x mod 2 ^ 32"

definition u64i :: "int \<Rightarrow> int" where
  "u64i x = x mod 2 ^ 64"

section \<open>State and memory\<close>

record fsm =
  dm :: "nat \<Rightarrow> u8"
  disk :: "nat \<Rightarrow> u8"

definition rd32 :: "nat \<Rightarrow> fsm \<Rightarrow> u32" where
  "rd32 a s = le32 (\<lambda>i. dm s (a + i))"

definition bytes32 :: "u32 \<Rightarrow> u8 list" where
  "bytes32 v = [ucast v, ucast (drop_bit 8 v), ucast (drop_bit 16 v), ucast (drop_bit 24 v)]"

definition wr_bytes :: "nat \<Rightarrow> u8 list \<Rightarrow> fsm \<Rightarrow> fsm" where
  "wr_bytes a vs s = s\<lparr>dm := upd_bytes a vs (dm s)\<rparr>"

definition wr32 :: "nat \<Rightarrow> u32 \<Rightarrow> fsm \<Rightarrow> fsm" where
  "wr32 a v s = wr_bytes a (bytes32 v) s"

text \<open>\<open>flush_block\<close> on the flat memory.\<close>

definition fs_flush :: "nat \<Rightarrow> fsm \<Rightarrow> fsm option" where
  "fs_flush a s = (if DISKSIZE \<le> a then None else Some (s\<lparr>disk := flush_flat BLKSIZE a (dm s) (disk s)\<rparr>))"

section \<open>Super block and bitmap\<close>

definition s_nblocks :: "fsm \<Rightarrow> nat" where
  "s_nblocks s = unat (rd32 (BLKSIZE + 4) s)"

definition s_root :: nat where "s_root = 4096 + 8"

definition block_addr :: "nat \<Rightarrow> fsm \<Rightarrow> nat option" where
  "block_addr blockno s = (if blockno = 0 \<or> s_nblocks s \<le> blockno then None else Some (blockno * BLKSIZE))"

definition bitmap_word :: "nat \<Rightarrow> nat" where
  "bitmap_word blockno = 2 * BLKSIZE + blockno div 32 * 4"

definition block_is_free :: "nat \<Rightarrow> fsm \<Rightarrow> bool" where
  "block_is_free blockno s =
     (if s_nblocks s \<le> blockno then False else bit (rd32 (bitmap_word blockno) s) (blockno mod 32))"

definition free_block :: "nat \<Rightarrow> fsm \<Rightarrow> fsm option" where
  "free_block blockno s =
     (if blockno = 0 then None
      else Some (wr32 (bitmap_word blockno) (rd32 (bitmap_word blockno) s OR push_bit (blockno mod 32) 1) s))"

fun alloc_scan :: "nat list \<Rightarrow> fsm \<Rightarrow> (int \<times> fsm) option" where
  "alloc_scan [] s = Some (- E_NO_DISK, s)"
| "alloc_scan (blockno # bs) s =
     (if block_is_free blockno s then do {
        let s = wr32 (bitmap_word blockno) (rd32 (bitmap_word blockno) s XOR push_bit (blockno mod 32) 1) s;
        a \<leftarrow> block_addr 2 s;
        s \<leftarrow> fs_flush a s;
        if block_is_free blockno s then None else Some (int blockno, s)
      }
      else alloc_scan bs s)"

definition alloc_block :: "fsm \<Rightarrow> (int \<times> fsm) option" where
  "alloc_block s = alloc_scan [1..<s_nblocks s] s"

section \<open>Files\<close>

definition MAXNAMELEN :: nat where [jos_consts]: "MAXNAMELEN = 128"
definition NDIRECT :: nat where [jos_consts]: "NDIRECT = 10"
definition NINDIRECT :: nat where [jos_consts]: "NINDIRECT = 1024"
definition BLKFILES :: nat where [jos_consts]: "BLKFILES = 16"
definition FTYPE_DIR :: u32 where [jos_consts]: "FTYPE_DIR = 1"
definition FTYPE_REG :: u32 where [jos_consts]: "FTYPE_REG = 0"

text \<open>The fields of \<open>struct File\<close> (256 bytes): name, size, type, block pointers.\<close>

definition f_size :: "nat \<Rightarrow> fsm \<Rightarrow> int" where
  "f_size f s = sint (rd32 (f + 128) s)"

definition set_f_size :: "nat \<Rightarrow> int \<Rightarrow> fsm \<Rightarrow> fsm" where
  "set_f_size f v s = wr32 (f + 128) (word_of_int v) s"

definition f_type :: "nat \<Rightarrow> fsm \<Rightarrow> u32" where
  "f_type f s = rd32 (f + 132) s"

definition f_direct :: "nat \<Rightarrow> nat \<Rightarrow> nat" where
  "f_direct f i = f + 136 + 4 * i"

definition f_indirect :: "nat \<Rightarrow> nat" where
  "f_indirect f = f + 176"

text \<open>The result is the error code and the address of the slot.\<close>

definition file_block_walk :: "nat \<Rightarrow> nat \<Rightarrow> bool \<Rightarrow> fsm \<Rightarrow> (int \<times> nat option \<times> fsm) option" where
  "file_block_walk f filebno alloc s =
     (if NDIRECT + NINDIRECT \<le> filebno then Some (- E_INVAL, None, s)
      else if filebno < NDIRECT then Some (0, Some (f_direct f filebno), s)
      else if rd32 (f_indirect f) s = 0 \<and> \<not> alloc then Some (- E_NOT_FOUND, None, s)
      else do {
        (r, s) \<leftarrow> (if rd32 (f_indirect f) s = 0 then do {
            (r, s) \<leftarrow> alloc_block s;
            if r < 0 then Some (r, s)
            else do {
              let s = wr32 (f_indirect f) (word_of_int r) s;
              a \<leftarrow> block_addr (unat (rd32 (f_indirect f) s)) s;
              Some (0, wr_bytes a (replicate BLKSIZE 0) s)
            }
          } else Some (0, s));
        if r < 0 then Some (r, None, s)
        else do {
          baddr \<leftarrow> block_addr (unat (rd32 (f_indirect f) s)) s;
          Some (0, Some (baddr + 4 * (filebno - NDIRECT)), s)
        }
      })"

definition file_get_block :: "nat \<Rightarrow> nat \<Rightarrow> fsm \<Rightarrow> (int \<times> nat \<times> fsm) option" where
  "file_get_block f filebno s = do {
     (result, p, s) \<leftarrow> file_block_walk f filebno True s;
     if result < 0 then Some (result, 0, s)
     else do {
       slot \<leftarrow> p;
       (r, s) \<leftarrow> (if rd32 slot s = 0 then do {
           (b, s) \<leftarrow> alloc_block s;
           if b < 0 then Some (- E_NO_DISK, s) else Some (0, wr32 slot (word_of_int b) s)
         } else Some (0, s));
       if r < 0 then Some (r, 0, s)
       else do {
         blk \<leftarrow> block_addr (unat (rd32 slot s)) s;
         Some (0, blk, s)
       }
     }
   }"

section \<open>Directories\<close>

text \<open>\<open>strcmp (a, name) == 0\<close> for a name without its terminating zero.\<close>

fun name_eq :: "nat \<Rightarrow> u8 list \<Rightarrow> fsm \<Rightarrow> bool" where
  "name_eq a [] s \<longleftrightarrow> dm s a = 0"
| "name_eq a (c # cs) s \<longleftrightarrow> dm s a = c \<and> name_eq (a + 1) cs s"

fun dir_search :: "nat \<Rightarrow> nat list \<Rightarrow> (nat \<Rightarrow> fsm \<Rightarrow> bool) \<Rightarrow> fsm \<Rightarrow> (int \<times> nat option \<times> fsm) option" where
  "dir_search dir [] P s = Some (- E_NOT_FOUND, None, s)"
| "dir_search dir (i # is) P s = do {
     (r, blk, s) \<leftarrow> file_get_block dir i s;
     if r < 0 then Some (r, None, s)
     else case find (\<lambda>j. P (blk + 256 * j) s) [0..<BLKFILES] of
         Some j \<Rightarrow> Some (0, Some (blk + 256 * j), s)
       | None \<Rightarrow> dir_search dir is P s }"

definition dir_nblock :: "nat \<Rightarrow> fsm \<Rightarrow> nat" where
  "dir_nblock dir s = nat (u32i (f_size dir s sdiv 4096))"

definition dir_lookup :: "nat \<Rightarrow> u8 list \<Rightarrow> fsm \<Rightarrow> (int \<times> nat option \<times> fsm) option" where
  "dir_lookup dir name s =
     (if f_size dir s smod 4096 \<noteq> 0 then None
      else dir_search dir [0..<dir_nblock dir s] (\<lambda>f. name_eq f name) s)"

definition dir_alloc_file :: "nat \<Rightarrow> fsm \<Rightarrow> (int \<times> nat option \<times> fsm) option" where
  "dir_alloc_file dir s =
     (if f_size dir s smod 4096 \<noteq> 0 then None
      else do {
        let nblock = dir_nblock dir s;
        (r, p, s) \<leftarrow> dir_search dir [0..<nblock] (\<lambda>f s. dm s f = 0) s;
        if r \<noteq> - E_NOT_FOUND then Some (r, p, s)
        else do {
          let s = set_f_size dir (i32 (f_size dir s + 4096)) s;
          (r, blk, s) \<leftarrow> file_get_block dir nblock s;
          if r < 0 then Some (r, None, s) else Some (0, Some blk, s)
        }
      })"

definition skip_slash :: "u8 list \<Rightarrow> u8 list" where
  "skip_slash p = dropWhile (\<lambda>c. c = 0x2F) p"

lemma rest_shorter: "path \<noteq> [] \<Longrightarrow> length (skip_slash (dropWhile (\<lambda>c. c \<noteq> 0x2F) path)) < length path"
proof -
  assume "path \<noteq> []"
  then obtain c cs where p: "path = c # cs" by (cases path) auto
  have "length (dropWhile P xs) \<le> length xs" for P and xs :: "u8 list" by (induction xs) auto
  note d = this
  show ?thesis
    using d [of "\<lambda>c. c = 0x2F" cs] d [of "\<lambda>c. c = 0x2F" "dropWhile (\<lambda>c. c \<noteq> 0x2F) cs"] d [of "\<lambda>c. c \<noteq> 0x2F" cs]
    by (auto simp: p skip_slash_def)
qed

text \<open>
  The loop of \<open>walk_path\<close>: the result is the code, \<open>*pdir\<close>, \<open>*pf\<close> and the last element.
  The path carries no zero byte and the loop starts after \<open>skip_slash\<close>.
\<close>

type_synonym walked = "int \<times> nat option \<times> nat option \<times> u8 list \<times> fsm"

function walk_loop :: "u8 list \<Rightarrow> nat \<Rightarrow> nat option \<Rightarrow> fsm \<Rightarrow> walked option" where
  "walk_loop path f dir s =
     (if path = [] then Some (0, dir, Some f, [], s)
      else let name = takeWhile (\<lambda>c. c \<noteq> 0x2F) path;
               rest = skip_slash (dropWhile (\<lambda>c. c \<noteq> 0x2F) path)
       in if MAXNAMELEN \<le> length name then Some (- E_BAD_PATH, None, None, [], s)
          else if f_type f s \<noteq> FTYPE_DIR then Some (- E_NOT_FOUND, None, None, [], s)
          else do {
            (r, p, s) \<leftarrow> dir_lookup f name s;
            if r < 0 then
              Some (if r = - E_NOT_FOUND \<and> rest = [] then (r, Some f, None, name, s) else (r, None, None, [], s))
            else do {
              g \<leftarrow> p;
              walk_loop rest g (Some f) s
            }
          })"
  by pat_completeness auto
termination by (relation "measure (\<lambda>(path, f, dir, s). length path)") (auto dest: rest_shorter)

declare walk_loop.simps [simp del]

definition walk_path :: "u8 list \<Rightarrow> fsm \<Rightarrow> walked option" where
  "walk_path path s = walk_loop (skip_slash path) s_root None s"

section \<open>File operations\<close>

definition nblocks_of :: "int \<Rightarrow> nat" where
  "nblocks_of sz = nat (u32i (i32 (sz + 4095) sdiv 4096))"

fun flush_blocks :: "nat \<Rightarrow> nat list \<Rightarrow> fsm \<Rightarrow> fsm option" where
  "flush_blocks f [] s = Some s"
| "flush_blocks f (i # is) s = do {
     (r, p, s) \<leftarrow> file_block_walk f i False s;
     s \<leftarrow> (case p of
         None \<Rightarrow> Some s
       | Some slot \<Rightarrow>
           if r < 0 \<or> rd32 slot s = 0 then Some s
           else do {
             a \<leftarrow> block_addr (unat (rd32 slot s)) s;
             fs_flush a s
           });
     flush_blocks f is s }"

definition file_flush :: "nat \<Rightarrow> fsm \<Rightarrow> fsm option" where
  "file_flush f s = do {
     s \<leftarrow> flush_blocks f [0..<nat (i32 (f_size f s + 4095) sdiv 4096)] s;
     s \<leftarrow> fs_flush f s;
     if rd32 (f_indirect f) s \<noteq> 0 then do {
       a \<leftarrow> block_addr (unat (rd32 (f_indirect f) s)) s;
       fs_flush a s
     }
     else Some s }"

definition file_create :: "u8 list \<Rightarrow> fsm \<Rightarrow> (int \<times> nat option \<times> fsm) option" where
  "file_create path s = do {
     (r, dir, f, name, s) \<leftarrow> walk_path path s;
     if r = 0 then Some (- E_FILE_EXISTS, None, s)
     else if r \<noteq> - E_NOT_FOUND then Some (r, None, s)
     else case dir of
         None \<Rightarrow> Some (r, None, s)
       | Some dir \<Rightarrow> do {
           (r, f, s) \<leftarrow> dir_alloc_file dir s;
           if r < 0 then Some (r, None, s)
           else do {
             f \<leftarrow> f;
             s \<leftarrow> file_flush dir (wr_bytes f (name @ [0]) s);
             Some (0, Some f, s)
           }
         }
   }"

definition file_open :: "u8 list \<Rightarrow> fsm \<Rightarrow> (int \<times> nat option \<times> fsm) option" where
  "file_open path s = do {
     (r, dir, f, name, s) \<leftarrow> walk_path path s;
     Some (r, f, s) }"

text \<open>
  \<open>file_read\<close>: \<open>count\<close> is a \<open>size_t\<close>, \<open>offset\<close> and \<open>pos\<close> are \<open>off_t\<close>. The sum \<open>offset + count\<close>
  and the comparisons with it are on 64 bits without sign. The result carries the bytes moved
  to the buffer.
\<close>

definition chunk :: "int \<Rightarrow> int \<Rightarrow> int \<Rightarrow> int" where
  "chunk offset count pos = min (4096 - pos smod 4096) (u64i (offset + count - pos))"

partial_function (option) read_loop :: "nat \<Rightarrow> int \<Rightarrow> int \<Rightarrow> int \<Rightarrow> u8 list \<Rightarrow> fsm \<Rightarrow> (int \<times> u8 list \<times> fsm) option" where
  "read_loop f count offset pos buf s =
     (if \<not> u64i pos < u64i (offset + count) then Some (i32 count, buf, s)
      else do {
        (r, blk, s) \<leftarrow> file_get_block f (nat (u32i (pos sdiv 4096))) s;
        if r < 0 then Some (r, buf, s)
        else read_loop f count offset (i32 (pos + chunk offset count pos))
               (buf @ map (\<lambda>k. dm s (nat (int blk + pos smod 4096) + k)) [0..<nat (chunk offset count pos)]) s
      })"

definition file_read :: "nat \<Rightarrow> int \<Rightarrow> int \<Rightarrow> fsm \<Rightarrow> (int \<times> u8 list \<times> fsm) option" where
  "file_read f count offset s =
     (if f_size f s \<le> offset then Some (0, [], s)
      else read_loop f (min count (u64i (i32 (f_size f s - offset)))) offset offset [] s)"

definition file_free_block :: "nat \<Rightarrow> nat \<Rightarrow> fsm \<Rightarrow> (int \<times> fsm) option" where
  "file_free_block f filebno s = do {
     (r, p, s) \<leftarrow> file_block_walk f filebno False s;
     if r < 0 then Some (r, s)
     else do {
       slot \<leftarrow> p;
       if rd32 slot s \<noteq> 0 then do {
         s \<leftarrow> free_block (unat (rd32 slot s)) s;
         Some (0, wr32 slot 0 s)
       }
       else Some (0, s)
     }
   }"

fun free_blocks :: "nat \<Rightarrow> nat list \<Rightarrow> fsm \<Rightarrow> fsm option" where
  "free_blocks f [] s = Some s"
| "free_blocks f (bno # bs) s = do {
     (r, s) \<leftarrow> file_free_block f bno s;
     free_blocks f bs s }"

definition file_truncate_blocks :: "nat \<Rightarrow> int \<Rightarrow> fsm \<Rightarrow> fsm option" where
  "file_truncate_blocks f newsize s = do {
     let old_nblocks = nblocks_of (f_size f s);
     let new_nblocks = nblocks_of newsize;
     s \<leftarrow> free_blocks f [new_nblocks..<old_nblocks] s;
     if new_nblocks \<le> NDIRECT \<and> rd32 (f_indirect f) s \<noteq> 0 then do {
       s \<leftarrow> free_block (unat (rd32 (f_indirect f) s)) s;
       Some (wr32 (f_indirect f) 0 s)
     }
     else Some s }"

definition file_set_size :: "nat \<Rightarrow> int \<Rightarrow> fsm \<Rightarrow> (int \<times> fsm) option" where
  "file_set_size f newsize s = do {
     s \<leftarrow> (if newsize < f_size f s then file_truncate_blocks f newsize s else Some s);
     s \<leftarrow> fs_flush f (set_f_size f newsize s);
     Some (0, s) }"

partial_function (option) write_loop :: "nat \<Rightarrow> (nat \<Rightarrow> u8) \<Rightarrow> int \<Rightarrow> int \<Rightarrow> int \<Rightarrow> fsm \<Rightarrow> (int \<times> fsm) option" where
  "write_loop f buf count offset pos s =
     (if \<not> u64i pos < u64i (offset + count) then Some (i32 count, s)
      else do {
        (r, blk, s) \<leftarrow> file_get_block f (nat (u32i (pos sdiv 4096))) s;
        if r < 0 then Some (r, s)
        else do {
          let bn = nat (chunk offset count pos);
          write_loop f (\<lambda>k. buf (bn + k)) count offset (i32 (pos + int bn))
            (wr_bytes (nat (int blk + pos smod 4096)) (map buf [0..<bn]) s)
        }
      })"

definition file_write :: "nat \<Rightarrow> (nat \<Rightarrow> u8) \<Rightarrow> int \<Rightarrow> int \<Rightarrow> fsm \<Rightarrow> (int \<times> fsm) option" where
  "file_write f buf count offset s = do {
     (r, s) \<leftarrow> (if u64i (f_size f s) < u64i (offset + count) then file_set_size f (i32 (offset + count)) s else Some (0, s));
     if r < 0 then Some (r, s) else write_loop f buf count offset offset s }"

definition file_remove :: "u8 list \<Rightarrow> fsm \<Rightarrow> (int \<times> fsm) option" where
  "file_remove path s = do {
     (r, dir, f, name, s) \<leftarrow> walk_path path s;
     if r < 0 then Some (r, s)
     else do {
       f \<leftarrow> f;
       s \<leftarrow> file_truncate_blocks f 0 s;
       s \<leftarrow> fs_flush f (set_f_size f 0 (wr_bytes f [0] s));
       Some (0, s)
     }
   }"

fun sync_blocks :: "nat list \<Rightarrow> fsm \<Rightarrow> fsm option" where
  "sync_blocks [] s = Some s"
| "sync_blocks (i # is) s = do {
     a \<leftarrow> block_addr i s;
     s \<leftarrow> fs_flush a s;
     sync_blocks is s }"

definition fs_sync :: "fsm \<Rightarrow> fsm option" where
  "fs_sync s = sync_blocks [1..<s_nblocks s] s"

end
