(* ===== verification/Serv.thy ===== *)
theory Serv
  imports Fs
begin

text \<open>
  The file server's request loop (fs/serv.c): the table of open files and one handler per
  request. The request page \<open>fsreq\<close> is mapped directly below the disk region, so a byte past its
  end is a byte of block 0.
\<close>

section \<open>State\<close>

record Fd =
  fd_dev_id :: int
  fd_offset :: int
  fd_omode :: u32
  fd_file_id :: u32

record OpenFile =
  o_fileid :: u32
  o_file :: "nat option"
  o_mode :: u32
  o_fd :: nat

text \<open>
  A \<open>struct Fd *\<close> of the server is the number of its page above \<open>FILEVA\<close>; \<open>fdref\<close> is what
  \<open>pageref\<close> reports for it.
\<close>

record srv =
  sfs :: fsm
  opentab :: "OpenFile list"
  fdpage :: "nat \<Rightarrow> Fd"
  fdref :: "nat \<Rightarrow> nat"
  req_page :: "nat \<Rightarrow> u8"
  srv_mem :: bool

definition MAXOPEN :: nat where [jos_consts]: "MAXOPEN = 1024"
definition MAXPATHLEN :: nat where [jos_consts]: "MAXPATHLEN = 1024"
definition O_ACCMODE :: u32 where [jos_consts]: "O_ACCMODE = 3"
definition O_RDONLY :: u32 where [jos_consts]: "O_RDONLY = 0"
definition O_WRONLY :: u32 where [jos_consts]: "O_WRONLY = 1"
definition O_CREAT :: u32 where [jos_consts]: "O_CREAT = 0x100"
definition O_TRUNC :: u32 where [jos_consts]: "O_TRUNC = 0x200"
definition O_EXCL :: u32 where [jos_consts]: "O_EXCL = 0x400"
definition PTE_SHARE :: nat where [jos_consts]: "PTE_SHARE = 0x400"

definition zero_fd :: Fd where
  "zero_fd = \<lparr>fd_dev_id = 0, fd_offset = 0, fd_omode = 0, fd_file_id = 0\<rparr>"

section \<open>The request page\<close>

definition rq_byte :: "srv \<Rightarrow> nat \<Rightarrow> u8" where
  "rq_byte s k = (if k < 4096 then req_page s k else dm (sfs s) (k - 4096))"

definition rq32 :: "srv \<Rightarrow> nat \<Rightarrow> u32" where
  "rq32 s k = le32 (\<lambda>i. rq_byte s (k + i))"

text \<open>A \<open>size_t\<close> of a request.\<close>

definition rq64 :: "srv \<Rightarrow> nat \<Rightarrow> int" where
  "rq64 s k = int (unat (rq32 s k)) + 2 ^ 32 * int (unat (rq32 s (k + 4)))"

definition rq_store :: "nat \<Rightarrow> u8 list \<Rightarrow> srv \<Rightarrow> srv" where
  "rq_store k vs s = s\<lparr>req_page := upd_bytes k (take (4096 - k) vs) (req_page s),
     sfs := wr_bytes (k - 4096) (drop (4096 - k) vs) (sfs s)\<rparr>"

text \<open>The path of a request: the first 1023 bytes up to a zero.\<close>

definition rq_path :: "srv \<Rightarrow> u8 list" where
  "rq_path s = takeWhile (\<lambda>c. c \<noteq> 0) (map (rq_byte s) [0..<MAXPATHLEN - 1])"

section \<open>Open files\<close>

definition serve_init :: "srv \<Rightarrow> srv" where
  "serve_init s = s\<lparr>opentab := map (\<lambda>i. \<lparr>o_fileid = of_nat i, o_file = None, o_mode = (if i = 0 then 1 else 0), o_fd = i\<rparr>) [0..<MAXOPEN]\<rparr>"

fun open_scan :: "nat list \<Rightarrow> srv \<Rightarrow> (int \<times> nat option \<times> srv)" where
  "open_scan [] s = (- E_MAX_OPEN, None, s)"
| "open_scan (i # is) s =
     (let fd = o_fd (opentab s ! i) in
      if fdref s fd = 0 \<and> \<not> srv_mem s then (- E_NO_MEM, None, s)
      else if fdref s fd = 0 \<or> fdref s fd = 1 then
        let s = s\<lparr>opentab := (opentab s)[i := (opentab s ! i)\<lparr>o_fileid := o_fileid (opentab s ! i) + of_nat MAXOPEN\<rparr>],
               fdref := (fdref s)(fd := 1), fdpage := (fdpage s)(fd := zero_fd)\<rparr>
        in (sint (o_fileid (opentab s ! i)), Some i, s)
      else open_scan is s)"

definition openfile_alloc :: "srv \<Rightarrow> (int \<times> nat option \<times> srv)" where
  "openfile_alloc s = open_scan [0..<MAXOPEN] s"

definition openfile_lookup :: "u32 \<Rightarrow> srv \<Rightarrow> int \<times> nat option" where
  "openfile_lookup fileid s =
     (let i = unat fileid mod MAXOPEN; ent = opentab s ! i in
      if fdref s (o_fd ent) = 1 \<or> o_fileid ent \<noteq> fileid then (- E_INVAL, None) else (0, Some i))"

section \<open>Handlers\<close>

text \<open>The number \<open>f\<close> of the device \<open>devfile\<close> is the letter f.\<close>

definition open_file :: "u8 list \<Rightarrow> u32 \<Rightarrow> fsm \<Rightarrow> (int \<times> nat option \<times> fsm) option" where
  "open_file path omode s =
     (if omode AND O_CREAT \<noteq> 0 then do {
        (r, f, s) \<leftarrow> file_create path s;
        if r < 0 \<and> omode AND O_EXCL = 0 \<and> r = - E_FILE_EXISTS then file_open path s else Some (r, f, s)
      }
      else file_open path s)"

definition serve_open :: "srv \<Rightarrow> (int \<times> (nat \<times> nat) option \<times> srv) option" where
  "serve_open s = do {
     let path = rq_path s;
     let omode = rq32 s 1024;
     let (r, i, s) = openfile_alloc s;
     if r < 0 then Some (r, None, s)
     else do {
       i \<leftarrow> i;
       (r, f, t) \<leftarrow> open_file path omode (sfs s);
       let s = s\<lparr>sfs := t\<rparr>;
       if r < 0 then Some (r, None, s)
       else do {
         f \<leftarrow> f;
         (r, t) \<leftarrow> (if omode AND O_TRUNC \<noteq> 0 then file_set_size f 0 (sfs s) else Some (0, sfs s));
         let s = s\<lparr>sfs := t\<rparr>;
         if r < 0 then Some (r, None, s)
         else do {
           let ent = (opentab s ! i)\<lparr>o_file := Some f, o_mode := omode\<rparr>;
           let fd = (fdpage s (o_fd ent))\<lparr>fd_file_id := o_fileid ent, fd_omode := omode AND O_ACCMODE, fd_dev_id := 102\<rparr>;
           Some (0, Some (o_fd ent, PTE_SHARE + 7),
             s\<lparr>opentab := (opentab s)[i := ent], fdpage := (fdpage s)(o_fd ent := fd)\<rparr>)
         }
       }
     }
   }"

text \<open>A handler that looks the file up first; the open file's structure must be set.\<close>

definition with_open :: "(nat \<Rightarrow> nat \<Rightarrow> srv \<Rightarrow> (int \<times> srv) option) \<Rightarrow> srv \<Rightarrow> (int \<times> srv) option" where
  "with_open h s =
     (case openfile_lookup (rq32 s 0) s of
        (r, None) \<Rightarrow> Some (r, s)
      | (r, Some i) \<Rightarrow> do {
          f \<leftarrow> o_file (opentab s ! i);
          h (o_fd (opentab s ! i)) f s
        })"

definition serve_set_size :: "srv \<Rightarrow> (int \<times> srv) option" where
  "serve_set_size = with_open (\<lambda>fd f s. do {
     (r, t) \<leftarrow> file_set_size f (sint (rq32 s 4)) (sfs s);
     Some (r, s\<lparr>sfs := t\<rparr>) })"

definition serve_read :: "srv \<Rightarrow> (int \<times> srv) option" where
  "serve_read = with_open (\<lambda>fd f s. do {
     (r, bs, t) \<leftarrow> file_read f (min (rq64 s 8) 4096) (fd_offset (fdpage s fd)) (sfs s);
     let s = rq_store 0 bs (s\<lparr>sfs := t\<rparr>);
     if r < 0 then Some (r, s)
     else Some (r, s\<lparr>fdpage := (fdpage s)(fd := (fdpage s fd)\<lparr>fd_offset := i32 (fd_offset (fdpage s fd) + r)\<rparr>)\<rparr>) })"

text \<open>\<open>req_buf\<close> starts at byte 16 of the request and has 4084 bytes.\<close>

definition serve_write :: "srv \<Rightarrow> (int \<times> srv) option" where
  "serve_write = with_open (\<lambda>fd f s. do {
     (r, t) \<leftarrow> file_write f (\<lambda>k. rq_byte s (16 + k)) (min (rq64 s 8) 4084) (fd_offset (fdpage s fd)) (sfs s);
     Some (r, s\<lparr>sfs := t, fdpage := (fdpage s)(fd := (fdpage s fd)\<lparr>fd_offset := i32 (fd_offset (fdpage s fd) + r)\<rparr>)\<rparr>) })"

text \<open>The name of a file with its terminating zero, as \<open>strcpy\<close> copies it.\<close>

partial_function (option) str_at :: "nat \<Rightarrow> fsm \<Rightarrow> u8 list option" where
  "str_at a s = (if dm s a = 0 then Some [0] else do { cs \<leftarrow> str_at (a + 1) s; Some (dm s a # cs) })"

definition serve_stat :: "srv \<Rightarrow> (int \<times> srv) option" where
  "serve_stat = with_open (\<lambda>fd f s. do {
     name \<leftarrow> str_at f (sfs s);
     let s = rq_store 0 name s;
     let s = rq_store 128 (bytes32 (word_of_int (f_size f (sfs s)))) s;
     Some (0, rq_store 132 (bytes32 (if f_type f (sfs s) = FTYPE_DIR then 1 else 0)) s) })"

definition serve_flush :: "srv \<Rightarrow> (int \<times> srv) option" where
  "serve_flush = with_open (\<lambda>fd f s. do {
     t \<leftarrow> file_flush f (sfs s);
     Some (0, s\<lparr>sfs := t\<rparr>) })"

definition serve_remove :: "srv \<Rightarrow> (int \<times> srv) option" where
  "serve_remove s = do {
     (r, t) \<leftarrow> file_remove (rq_path s) (sfs s);
     Some (r, s\<lparr>sfs := t\<rparr>) }"

definition serve_sync :: "srv \<Rightarrow> (int \<times> srv) option" where
  "serve_sync s = do {
     t \<leftarrow> fs_sync (sfs s);
     Some (0, s\<lparr>sfs := t\<rparr>) }"

section \<open>The loop\<close>

definition handlers :: "nat \<Rightarrow> (srv \<Rightarrow> (int \<times> srv) option) option" where
  "handlers = [2 \<mapsto> serve_set_size, 3 \<mapsto> serve_read, 4 \<mapsto> serve_write, 5 \<mapsto> serve_stat, 6 \<mapsto> serve_flush,
     7 \<mapsto> serve_remove, 8 \<mapsto> serve_sync]"

text \<open>
  One turn of the loop after a request has been received with its page and permissions: the
  answer sent back, none when there is no argument page.
\<close>

definition serve :: "nat \<Rightarrow> nat \<Rightarrow> srv \<Rightarrow> ((int \<times> nat option \<times> nat) option \<times> srv) option" where
  "serve req perm s =
     (if perm mod 2 = 0 then Some (None, s)
      else if req = 1 then do {
        (r, pg, s) \<leftarrow> serve_open s;
        Some (case pg of None \<Rightarrow> (Some (r, None, perm), s) | Some (fd, perm) \<Rightarrow> (Some (r, Some fd, perm), s))
      }
      else case handlers req of
          Some h \<Rightarrow> do { (r, s) \<leftarrow> h s; Some (Some (r, None, perm), s) }
        | None \<Rightarrow> Some (Some (- E_INVAL, None, perm), s))"

end
