(* ===== verification/Fd_Lib.thy ===== *)
theory Fd_Lib
  imports Serv
begin

text \<open>
  The user library's file descriptors (lib/fd.c) and its file device (lib/file.c), composed with
  the file server: a request is one turn of the server's loop. The page of \<open>fsipcbuf\<close> is the page
  the server sees as its request page; what the client stores past its end stays with the client.
\<close>

section \<open>State\<close>

text \<open>\<open>fdtab\<close> maps a descriptor number to the Fd page mapped there, by the server's number.\<close>

record world =
  wsrv :: srv
  fdtab :: "nat \<Rightarrow> nat option"

definition MAXFD :: nat where [jos_consts]: "MAXFD = 32"

definition fd_of :: "nat \<Rightarrow> world \<Rightarrow> Fd" where
  "fd_of p w = fdpage (wsrv w) p"

definition set_fd :: "nat \<Rightarrow> Fd \<Rightarrow> world \<Rightarrow> world" where
  "set_fd p d w = w\<lparr>wsrv := (wsrv w)\<lparr>fdpage := (fdpage (wsrv w))(p := d)\<rparr>\<rparr>"

definition add_ref :: "nat \<Rightarrow> world \<Rightarrow> world" where
  "add_ref p w = w\<lparr>wsrv := (wsrv w)\<lparr>fdref := (fdref (wsrv w))(p := fdref (wsrv w) p + 1)\<rparr>\<rparr>"

definition drop_ref :: "nat \<Rightarrow> world \<Rightarrow> world" where
  "drop_ref p w = w\<lparr>wsrv := (wsrv w)\<lparr>fdref := (fdref (wsrv w))(p := fdref (wsrv w) p - 1)\<rparr>\<rparr>"

text \<open>\<open>sys_page_unmap\<close> and \<open>sys_page_map\<close> of a descriptor page.\<close>

definition unmap_fd :: "nat \<Rightarrow> world \<Rightarrow> world" where
  "unmap_fd n w = (case fdtab w n of None \<Rightarrow> w | Some p \<Rightarrow> (drop_ref p w)\<lparr>fdtab := (fdtab w)(n := None)\<rparr>)"

definition map_fd :: "nat \<Rightarrow> nat \<Rightarrow> world \<Rightarrow> world" where
  "map_fd n p w = (let w = unmap_fd n (add_ref p w) in w\<lparr>fdtab := (fdtab w)(n := Some p)\<rparr>)"

section \<open>Requests (lib/file.c)\<close>

definition buf_store :: "nat \<Rightarrow> u8 list \<Rightarrow> world \<Rightarrow> world" where
  "buf_store k vs w = w\<lparr>wsrv := (wsrv w)\<lparr>req_page := upd_bytes k (take (4096 - k) vs) (req_page (wsrv w))\<rparr>\<rparr>"

definition bytes64 :: "int \<Rightarrow> u8 list" where
  "bytes64 x = bytes32 (word_of_int x) @ bytes32 (word_of_int (x div 2 ^ 32))"

text \<open>The reply page, if any, is mapped at the descriptor \<open>dst\<close>.\<close>

definition fsipc :: "nat \<Rightarrow> nat option \<Rightarrow> world \<Rightarrow> (int \<times> world) option" where
  "fsipc ty dst w = do {
     (rep, s) \<leftarrow> serve ty 7 (wsrv w);
     let w = w\<lparr>wsrv := s\<rparr>;
     (r, pg, perm) \<leftarrow> rep;
     Some (r, case (dst, pg) of (Some n, Some p) \<Rightarrow> map_fd n p w | _ \<Rightarrow> w) }"

definition devfile_flush :: "nat \<Rightarrow> world \<Rightarrow> (int \<times> world) option" where
  "devfile_flush p w = fsipc 6 None (buf_store 0 (bytes32 (fd_file_id (fd_of p w))) w)"

definition devfile_read :: "nat \<Rightarrow> int \<Rightarrow> world \<Rightarrow> (int \<times> u8 list \<times> world) option" where
  "devfile_read p n w = do {
     (r, w) \<leftarrow> fsipc 3 None (buf_store 8 (bytes64 n) (buf_store 0 (bytes32 (fd_file_id (fd_of p w))) w));
     if r < 0 then Some (r, [], w)
     else Some (r, map (req_page (wsrv w)) [0..<nat r], w) }"

text \<open>\<open>sizeof (struct Fsreq_write)\<close> is 4104, so the bound on the copy is 4092 bytes.\<close>

definition devfile_write :: "nat \<Rightarrow> (nat \<Rightarrow> u8) \<Rightarrow> int \<Rightarrow> world \<Rightarrow> (int \<times> world) option" where
  "devfile_write p buf n w =
     fsipc 4 None (buf_store 16 (map buf [0..<nat (min n 4092)])
       (buf_store 8 (bytes64 n) (buf_store 0 (bytes32 (fd_file_id (fd_of p w))) w)))"

record Stat =
  st_name :: "u8 list"
  st_size :: int
  st_isdir :: bool

definition devfile_stat :: "nat \<Rightarrow> world \<Rightarrow> (int \<times> Stat option \<times> world) option" where
  "devfile_stat p w = do {
     (r, w) \<leftarrow> fsipc 5 None (buf_store 0 (bytes32 (fd_file_id (fd_of p w))) w);
     if r < 0 then Some (r, None, w)
     else Some (0, Some \<lparr>st_name = takeWhile (\<lambda>c. c \<noteq> 0) (map (req_page (wsrv w)) [0..<4096]),
       st_size = sint (le32 (\<lambda>i. req_page (wsrv w) (128 + i))),
       st_isdir = (le32 (\<lambda>i. req_page (wsrv w) (132 + i)) \<noteq> 0)\<rparr>, w) }"

definition devfile_trunc :: "nat \<Rightarrow> int \<Rightarrow> world \<Rightarrow> (int \<times> world) option" where
  "devfile_trunc p newsize w =
     fsipc 2 None (buf_store 4 (bytes32 (word_of_int newsize)) (buf_store 0 (bytes32 (fd_file_id (fd_of p w))) w))"

definition lib_remove :: "u8 list \<Rightarrow> world \<Rightarrow> (int \<times> world) option" where
  "lib_remove path w =
     (if MAXPATHLEN \<le> length path then Some (- E_BAD_PATH, w) else fsipc 7 None (buf_store 0 (path @ [0]) w))"

definition lib_sync :: "world \<Rightarrow> (int \<times> world) option" where
  "lib_sync w = fsipc 8 None w"

section \<open>Descriptors (lib/fd.c)\<close>

text \<open>The devices other than files are a parameter, by their number.\<close>

record dev =
  dev_read :: "(nat \<Rightarrow> int \<Rightarrow> world \<Rightarrow> (int \<times> u8 list \<times> world) option) option"
  dev_write :: "(nat \<Rightarrow> (nat \<Rightarrow> u8) \<Rightarrow> int \<Rightarrow> world \<Rightarrow> (int \<times> world) option) option"
  dev_close :: "(nat \<Rightarrow> world \<Rightarrow> (int \<times> world) option) option"
  dev_stat :: "(nat \<Rightarrow> world \<Rightarrow> (int \<times> Stat option \<times> world) option) option"
  dev_trunc :: "(nat \<Rightarrow> int \<Rightarrow> world \<Rightarrow> (int \<times> world) option) option"

definition devfile :: dev where
  "devfile = \<lparr>dev_read = Some devfile_read, dev_write = Some devfile_write, dev_close = Some devfile_flush,
     dev_stat = Some devfile_stat, dev_trunc = Some devfile_trunc\<rparr>"

definition dev_lookup :: "(int \<Rightarrow> dev option) \<Rightarrow> int \<Rightarrow> dev option" where
  "dev_lookup oth i = (if i = 102 then Some devfile else oth i)"

definition fd_alloc :: "world \<Rightarrow> int \<times> nat option" where
  "fd_alloc w = (case find (\<lambda>i. fdtab w i = None) [0..<MAXFD] of Some i \<Rightarrow> (0, Some i) | None \<Rightarrow> (- E_MAX_OPEN, None))"

definition fd_lookup :: "int \<Rightarrow> world \<Rightarrow> int \<times> nat option" where
  "fd_lookup fdnum w =
     (if fdnum < 0 \<or> int MAXFD \<le> fdnum then (- E_INVAL, None)
      else case fdtab w (nat fdnum) of None \<Rightarrow> (- E_INVAL, None) | Some p \<Rightarrow> (0, Some p))"

definition fd_close :: "(int \<Rightarrow> dev option) \<Rightarrow> nat \<Rightarrow> bool \<Rightarrow> world \<Rightarrow> (int \<times> world) option" where
  "fd_close oth n must_exist w =
     (case fd_lookup (int n) w of
        (r, None) \<Rightarrow> Some (if must_exist then r else 0, w)
      | (_, Some p) \<Rightarrow> do {
          (r, w) \<leftarrow> (case dev_lookup oth (fd_dev_id (fd_of p w)) of
              None \<Rightarrow> Some (- E_INVAL, w)
            | Some d \<Rightarrow> (case dev_close d of Some h \<Rightarrow> h p w | None \<Rightarrow> Some (0, w)));
          Some (r, unmap_fd n w)
        })"

definition lib_open :: "(int \<Rightarrow> dev option) \<Rightarrow> u8 list \<Rightarrow> u32 \<Rightarrow> world \<Rightarrow> (int \<times> world) option" where
  "lib_open oth path mode w =
     (if MAXPATHLEN \<le> length path then Some (- E_BAD_PATH, w)
      else case fd_alloc w of
          (r, None) \<Rightarrow> Some (r, w)
        | (_, Some n) \<Rightarrow> do {
            (r, w) \<leftarrow> fsipc 1 (Some n) (buf_store 0 (path @ [0]) (buf_store 1024 (bytes32 mode) w));
            if r < 0 then do {
              (_, w) \<leftarrow> fd_close oth n True w;
              Some (r, w)
            }
            else Some (int n, w)
          })"

definition lib_close :: "(int \<Rightarrow> dev option) \<Rightarrow> int \<Rightarrow> world \<Rightarrow> (int \<times> world) option" where
  "lib_close oth fdnum w =
     (case fd_lookup fdnum w of (r, None) \<Rightarrow> Some (r, w) | (_, Some p) \<Rightarrow> fd_close oth (nat fdnum) True w)"

fun close_list :: "(int \<Rightarrow> dev option) \<Rightarrow> nat list \<Rightarrow> world \<Rightarrow> world option" where
  "close_list oth [] w = Some w"
| "close_list oth (i # is) w = do {
     (_, w) \<leftarrow> lib_close oth (int i) w;
     close_list oth is w }"

definition close_all :: "(int \<Rightarrow> dev option) \<Rightarrow> world \<Rightarrow> world option" where
  "close_all oth w = close_list oth [0..<MAXFD] w"

text \<open>
  \<open>dup\<close> for devices that keep no data page; \<open>newfdnum\<close> is not checked by the code, so a number
  out of range maps the page at an address outside the descriptor area.
\<close>

definition lib_dup :: "(int \<Rightarrow> dev option) \<Rightarrow> int \<Rightarrow> nat \<Rightarrow> world \<Rightarrow> (int \<times> world) option" where
  "lib_dup oth oldfdnum newfdnum w =
     (case fd_lookup oldfdnum w of
        (r, None) \<Rightarrow> Some (r, w)
      | (_, Some p) \<Rightarrow> do {
          (_, w) \<leftarrow> lib_close oth (int newfdnum) w;
          if fdtab w (nat oldfdnum) = None then Some (- E_INVAL, unmap_fd newfdnum w)
          else Some (int newfdnum, map_fd newfdnum p w)
        })"

definition lib_read :: "(int \<Rightarrow> dev option) \<Rightarrow> int \<Rightarrow> int \<Rightarrow> world \<Rightarrow> (int \<times> u8 list \<times> world) option" where
  "lib_read oth fdnum n w =
     (case fd_lookup fdnum w of
        (r, None) \<Rightarrow> Some (r, [], w)
      | (_, Some p) \<Rightarrow>
          (case dev_lookup oth (fd_dev_id (fd_of p w)) of
             None \<Rightarrow> Some (- E_INVAL, [], w)
           | Some d \<Rightarrow>
               if fd_omode (fd_of p w) AND O_ACCMODE = O_WRONLY then Some (- E_INVAL, [], w)
               else case dev_read d of None \<Rightarrow> Some (- E_NOT_SUPP, [], w) | Some h \<Rightarrow> h p n w))"

text \<open>\<open>readn\<close>: \<open>tot\<close> and \<open>m\<close> are ints, \<open>n\<close> is a \<open>size_t\<close>.\<close>

partial_function (option) readn_loop :: "(int \<Rightarrow> dev option) \<Rightarrow> int \<Rightarrow> int \<Rightarrow> int \<Rightarrow> u8 list \<Rightarrow> world \<Rightarrow> (int \<times> u8 list \<times> world) option" where
  "readn_loop oth fdnum n tot buf w =
     (if \<not> u64i tot < n then Some (tot, buf, w)
      else do {
        (m, bs, w) \<leftarrow> lib_read oth fdnum (u64i (n - tot)) w;
        if m < 0 then Some (m, buf @ bs, w)
        else if m = 0 then Some (tot, buf @ bs, w)
        else readn_loop oth fdnum n (i32 (tot + m)) (buf @ bs) w
      })"

definition lib_readn :: "(int \<Rightarrow> dev option) \<Rightarrow> int \<Rightarrow> int \<Rightarrow> world \<Rightarrow> (int \<times> u8 list \<times> world) option" where
  "lib_readn oth fdnum n w = readn_loop oth fdnum n 0 [] w"

definition lib_write :: "(int \<Rightarrow> dev option) \<Rightarrow> int \<Rightarrow> (nat \<Rightarrow> u8) \<Rightarrow> int \<Rightarrow> world \<Rightarrow> (int \<times> world) option" where
  "lib_write oth fdnum buf n w =
     (case fd_lookup fdnum w of
        (r, None) \<Rightarrow> Some (r, w)
      | (_, Some p) \<Rightarrow>
          (case dev_lookup oth (fd_dev_id (fd_of p w)) of
             None \<Rightarrow> Some (- E_INVAL, w)
           | Some d \<Rightarrow>
               if fd_omode (fd_of p w) AND O_ACCMODE = O_RDONLY then Some (- E_INVAL, w)
               else case dev_write d of None \<Rightarrow> Some (- E_NOT_SUPP, w) | Some h \<Rightarrow> h p buf n w))"

definition lib_seek :: "int \<Rightarrow> int \<Rightarrow> world \<Rightarrow> int \<times> world" where
  "lib_seek fdnum offset w =
     (case fd_lookup fdnum w of
        (r, None) \<Rightarrow> (r, w)
      | (_, Some p) \<Rightarrow> (0, set_fd p ((fd_of p w)\<lparr>fd_offset := offset\<rparr>) w))"

definition lib_ftruncate :: "(int \<Rightarrow> dev option) \<Rightarrow> int \<Rightarrow> int \<Rightarrow> world \<Rightarrow> (int \<times> world) option" where
  "lib_ftruncate oth fdnum newsize w =
     (case fd_lookup fdnum w of
        (r, None) \<Rightarrow> Some (r, w)
      | (_, Some p) \<Rightarrow>
          (case dev_lookup oth (fd_dev_id (fd_of p w)) of
             None \<Rightarrow> Some (- E_INVAL, w)
           | Some d \<Rightarrow>
               if fd_omode (fd_of p w) AND O_ACCMODE = O_RDONLY then Some (- E_INVAL, w)
               else case dev_trunc d of None \<Rightarrow> Some (- E_NOT_SUPP, w) | Some h \<Rightarrow> h p newsize w))"

definition lib_fstat :: "(int \<Rightarrow> dev option) \<Rightarrow> int \<Rightarrow> world \<Rightarrow> (int \<times> Stat option \<times> world) option" where
  "lib_fstat oth fdnum w =
     (case fd_lookup fdnum w of
        (r, None) \<Rightarrow> Some (r, None, w)
      | (_, Some p) \<Rightarrow>
          (case dev_lookup oth (fd_dev_id (fd_of p w)) of
             None \<Rightarrow> Some (- E_INVAL, None, w)
           | Some d \<Rightarrow> (case dev_stat d of None \<Rightarrow> Some (- E_NOT_SUPP, None, w) | Some h \<Rightarrow> h p w)))"

definition lib_stat :: "(int \<Rightarrow> dev option) \<Rightarrow> u8 list \<Rightarrow> world \<Rightarrow> (int \<times> Stat option \<times> world) option" where
  "lib_stat oth path w = do {
     (fd, w) \<leftarrow> lib_open oth path O_RDONLY w;
     if fd < 0 then Some (fd, None, w)
     else do {
       (r, st, w) \<leftarrow> lib_fstat oth fd w;
       (_, w) \<leftarrow> lib_close oth fd w;
       Some (r, st, w)
     }
   }"

end
