(* ===== verification/Fs_Spec.thy ===== *)
theory Fs_Spec
  imports Fs Pool
begin

text \<open>
  The invariants of the file system: the bitmap, the block map of a file, and what the
  operations that allocate, look up and free blocks do to them.
\<close>

section \<open>Memory\<close>

lemma length_bytes32 [simp]: "length (bytes32 v) = 4"
  by (simp add: bytes32_def)

lemma le32_bytes32: "le32 (\<lambda>i. bytes32 v ! i) = v"
proof (rule bit_eqI)
  fix n
  assume "possible_bit TYPE(u32) n"
  then have n: "n < 32" by (simp add: possible_bit_word)
  consider "n < 8" | "8 \<le> n" "n < 16" | "16 \<le> n" "n < 24" | "24 \<le> n" using n by linarith
  then show "bit (le32 (\<lambda>i. bytes32 v ! i)) n = bit v n"
    using n by cases (auto simp: le32_def bytes32_def bit_simps)
qed

lemma rd32_cong: "(\<And>i. i < 4 \<Longrightarrow> dm s (a + i) = dm s' (a + i)) \<Longrightarrow> rd32 a s = rd32 a s'"
  unfolding rd32_def by (rule le32_cong)

lemma dm_wr_bytes: "dm (wr_bytes a vs s) x = (if a \<le> x \<and> x < a + length vs then vs ! (x - a) else dm s x)"
  by (simp add: wr_bytes_def upd_bytes_def)

lemma disk_wr [simp]: "disk (wr_bytes a vs s) = disk s" "disk (wr32 a v s) = disk s"
  by (simp_all add: wr_bytes_def wr32_def)

lemma dm_wr32: "\<not> (a \<le> x \<and> x < a + 4) \<Longrightarrow> dm (wr32 a v s) x = dm s x"
  by (auto simp: wr32_def dm_wr_bytes)

lemma rd32_wr32 [simp]: "rd32 a (wr32 a v s) = v"
proof -
  have "rd32 a (wr32 a v s) = le32 (\<lambda>i. bytes32 v ! i)"
    by (simp add: rd32_def wr32_def dm_wr_bytes le32_def)
  then show ?thesis by (simp add: le32_bytes32)
qed

lemma rd32_wr_bytes_other: "b + 4 \<le> a \<or> a + length vs \<le> b \<Longrightarrow> rd32 b (wr_bytes a vs s) = rd32 b s"
  by (rule rd32_cong) (auto simp: dm_wr_bytes)

lemma rd32_wr32_other: "b + 4 \<le> a \<or> a + 4 \<le> b \<Longrightarrow> rd32 b (wr32 a v s) = rd32 b s"
  unfolding wr32_def by (rule rd32_wr_bytes_other) simp

lemma fs_flush_dm: "fs_flush a s = Some s' \<Longrightarrow> dm s' = dm s"
  by (auto simp: fs_flush_def split: if_splits)

lemma fs_flush_rd32: "fs_flush a s = Some s' \<Longrightarrow> rd32 b s' = rd32 b s"
  by (auto dest: fs_flush_dm simp: rd32_def)

section \<open>The bitmap\<close>

definition is_free :: "fsm \<Rightarrow> nat \<Rightarrow> bool" where
  "is_free s b \<longleftrightarrow> bit (rd32 (bitmap_word b) s) (b mod 32)"

text \<open>The first block after the bitmap; the blocks before it are reserved.\<close>

definition first_data :: "fsm \<Rightarrow> nat" where
  "first_data s = 2 + (s_nblocks s + 32767) div 32768"

definition fs_ok :: "fsm \<Rightarrow> bool" where
  "fs_ok s \<longleftrightarrow> s_nblocks s * BLKSIZE \<le> DISKSIZE \<and> first_data s \<le> s_nblocks s \<and> (\<forall>b < first_data s. \<not> is_free s b)"

definition data_block :: "fsm \<Rightarrow> nat \<Rightarrow> bool" where
  "data_block s b \<longleftrightarrow> first_data s \<le> b \<and> b < s_nblocks s \<and> \<not> is_free s b"

definition free_set :: "fsm \<Rightarrow> nat set" where
  "free_set s = {b. b < s_nblocks s \<and> is_free s b}"

text \<open>Only the bitmap differs.\<close>

definition bitmap_only :: "fsm \<Rightarrow> fsm \<Rightarrow> bool" where
  "bitmap_only s s' \<longleftrightarrow> (\<forall>a. a < 2 * BLKSIZE \<or> first_data s * BLKSIZE \<le> a \<longrightarrow> dm s' a = dm s a)"

lemma bitmap_only_refl [simp]: "bitmap_only s s"
  by (simp add: bitmap_only_def)

lemma bitmap_only_rd32:
  "bitmap_only s s' \<Longrightarrow> a + 4 \<le> 2 * BLKSIZE \<or> first_data s * BLKSIZE \<le> a \<Longrightarrow> rd32 a s' = rd32 a s"
  by (rule rd32_cong) (auto simp: bitmap_only_def)

lemma bitmap_only_nblocks: "bitmap_only s s' \<Longrightarrow> s_nblocks s' = s_nblocks s"
  using bitmap_only_rd32 [of s s' "BLKSIZE + 4"] by (simp add: s_nblocks_def BLKSIZE_def)

lemma bitmap_only_first: "bitmap_only s s' \<Longrightarrow> first_data s' = first_data s"
  by (simp add: first_data_def bitmap_only_nblocks)

lemma bitmap_word_range:
  assumes "b < s_nblocks s"
  shows "2 * BLKSIZE \<le> bitmap_word b" and "bitmap_word b + 4 \<le> first_data s * BLKSIZE"
proof -
  define q where "q = b div 32"
  define n where "n = (s_nblocks s + 32767) div 32768"
  have "b div 32768 < n" unfolding n_def using assms by simp
  then have "q div 1024 < n" by (simp add: q_def div_mult2_eq [symmetric])
  then have "q < n * 1024" by (simp add: div_less_iff_less_mult)
  then show "bitmap_word b + 4 \<le> first_data s * BLKSIZE"
    by (simp add: bitmap_word_def first_data_def q_def [symmetric] n_def [symmetric] BLKSIZE_def)
  show "2 * BLKSIZE \<le> bitmap_word b" by (simp add: bitmap_word_def)
qed

lemma bitmap_word_other: "b div 32 \<noteq> c div 32 \<Longrightarrow> bitmap_word c + 4 \<le> bitmap_word b \<or> bitmap_word b + 4 \<le> bitmap_word c"
  by (auto simp: bitmap_word_def)

lemma div_mod_32: "b div 32 = c div 32 \<Longrightarrow> b mod 32 = c mod 32 \<Longrightarrow> b = (c::nat)"
  by (metis div_mult_mod_eq)

text \<open>Changing the bit of one block: toggled by the allocator, set by the release.\<close>

lemma is_free_toggle:
  "is_free (wr32 (bitmap_word b) (rd32 (bitmap_word b) s XOR push_bit (b mod 32) 1) s) c = (is_free s c \<noteq> (c = b))"
proof (cases "b div 32 = c div 32")
  case True
  then have w: "bitmap_word c = bitmap_word b" by (simp add: bitmap_word_def)
  show ?thesis using div_mod_32 [OF True]
    by (auto simp: is_free_def w bit_xor_iff bit_push_bit_iff bit_1_iff bit_exp_iff possible_bit_word)
next
  case False
  then show ?thesis using rd32_wr32_other [OF bitmap_word_other [OF False]] by (auto simp: is_free_def)
qed

lemma is_free_set:
  "is_free (wr32 (bitmap_word b) (rd32 (bitmap_word b) s OR push_bit (b mod 32) 1) s) c = (is_free s c \<or> c = b)"
proof (cases "b div 32 = c div 32")
  case True
  then have w: "bitmap_word c = bitmap_word b" by (simp add: bitmap_word_def)
  show ?thesis using div_mod_32 [OF True]
    by (auto simp: is_free_def w bit_or_iff bit_push_bit_iff bit_1_iff bit_exp_iff possible_bit_word)
next
  case False
  then show ?thesis using rd32_wr32_other [OF bitmap_word_other [OF False]] by (auto simp: is_free_def)
qed

lemma wr_bitmap_only: "b < s_nblocks s \<Longrightarrow> bitmap_only s (wr32 (bitmap_word b) v s)"
  using bitmap_word_range [of b s] by (auto simp: bitmap_only_def intro!: dm_wr32)

definition allocated :: "fsm \<Rightarrow> nat \<Rightarrow> fsm \<Rightarrow> bool" where
  "allocated s b s' \<longleftrightarrow> b < s_nblocks s \<and> is_free s b \<and> bitmap_only s s' \<and> (\<forall>c. is_free s' c \<longleftrightarrow> is_free s c \<and> c \<noteq> b)"

lemma allocated_bitmap: "allocated s b s' \<Longrightarrow> bitmap_only s s'"
  by (simp add: allocated_def)

lemma allocated_ok: "fs_ok s \<Longrightarrow> allocated s b s' \<Longrightarrow> fs_ok s'"
  by (auto simp: fs_ok_def allocated_def bitmap_only_nblocks bitmap_only_first)

lemma allocated_data: "fs_ok s \<Longrightarrow> allocated s b s' \<Longrightarrow> data_block s' c \<longleftrightarrow> data_block s c \<or> c = b"
  by (auto simp: fs_ok_def allocated_def data_block_def bitmap_only_nblocks bitmap_only_first not_less)

lemma fs_ok_two: "fs_ok s \<Longrightarrow> 2 < s_nblocks s"
  by (cases "s_nblocks s = 0") (auto simp: fs_ok_def first_data_def)

lemma alloc_step:
  assumes ok: "fs_ok s" and b: "b < s_nblocks s" "is_free s b"
  shows "\<exists>s'. alloc_scan (b # bs) s = Some (int b, s') \<and> allocated s b s' \<and>
    disk s' = flush_flat BLKSIZE (2 * BLKSIZE) (dm s') (disk s)"
proof -
  define s1 where "s1 = wr32 (bitmap_word b) (rd32 (bitmap_word b) s XOR push_bit (b mod 32) 1) s"
  have m: "bitmap_only s s1" unfolding s1_def by (rule wr_bitmap_only [OF b(1)])
  have n: "s_nblocks s1 = s_nblocks s" by (rule bitmap_only_nblocks [OF m])
  have a: "block_addr 2 s1 = Some (2 * BLKSIZE)" using fs_ok_two [OF ok] by (simp add: block_addr_def n)
  define s2 where "s2 = s1\<lparr>disk := flush_flat BLKSIZE (2 * BLKSIZE) (dm s1) (disk s1)\<rparr>"
  have fl: "fs_flush (2 * BLKSIZE) s1 = Some s2" by (simp add: fs_flush_def s2_def jos_consts)
  have r: "rd32 a s2 = rd32 a s1" for a by (rule fs_flush_rd32 [OF fl])
  have f: "is_free s2 c = (is_free s c \<noteq> (c = b))" for c
    using is_free_toggle [of b s c] r by (simp add: is_free_def s1_def)
  have "block_is_free b s" "\<not> block_is_free b s2"
    using b f [of b] n by (simp_all add: block_is_free_def is_free_def s_nblocks_def r)
  then have "alloc_scan (b # bs) s = Some (int b, s2)" using a fl by (simp add: s1_def [symmetric] Let_def del: push_bit_of_1)
  moreover have "allocated s b s2" using b f m by (auto simp: allocated_def bitmap_only_def s2_def)
  moreover have "disk s2 = flush_flat BLKSIZE (2 * BLKSIZE) (dm s2) (disk s)" by (simp add: s2_def s1_def)
  ultimately show ?thesis by blast
qed

lemma alloc_scan_spec:
  assumes ok: "fs_ok s" and k: "1 \<le> k" "\<forall>b < k. \<not> is_free s b"
  shows "(free_set s = {} \<longrightarrow> alloc_scan [k..<s_nblocks s] s = Some (- E_NO_DISK, s)) \<and>
    (free_set s \<noteq> {} \<longrightarrow> (\<exists>s'. alloc_scan [k..<s_nblocks s] s = Some (int (Min (free_set s)), s') \<and>
      allocated s (Min (free_set s)) s' \<and> disk s' = flush_flat BLKSIZE (2 * BLKSIZE) (dm s') (disk s)))"
  using k
proof (induction "s_nblocks s - k" arbitrary: k)
  case 0
  then have "free_set s = {}" by (auto simp: free_set_def)
  then show ?case using 0 by simp
next
  case (Suc m)
  then have u: "[k..<s_nblocks s] = k # [Suc k..<s_nblocks s]" and kn: "k < s_nblocks s" by (simp_all add: upt_rec)
  show ?case
  proof (cases "is_free s k")
    case True
    have "Min (free_set s) = k"
      using True kn Suc.prems(2) by (intro Min_eqI) (auto simp: free_set_def not_less [symmetric])
    moreover have "free_set s \<noteq> {}" using True kn by (auto simp: free_set_def)
    ultimately show ?thesis using alloc_step [OF ok kn True] u by simp
  next
    case False
    then have "alloc_scan [k..<s_nblocks s] s = alloc_scan [Suc k..<s_nblocks s] s"
      using kn u by (simp add: block_is_free_def is_free_def)
    moreover have "\<forall>b < Suc k. \<not> is_free s b" using False Suc.prems(2) by (auto simp: less_Suc_eq)
    ultimately show ?thesis using Suc.hyps(1) [of "Suc k"] Suc.hyps(2) Suc.prems(1) by simp
  qed
qed

lemma alloc_block_spec:
  assumes ok: "fs_ok s"
  shows "free_set s = {} \<Longrightarrow> alloc_block s = Some (- E_NO_DISK, s)"
    and "free_set s \<noteq> {} \<Longrightarrow> \<exists>s'. alloc_block s = Some (int (Min (free_set s)), s') \<and>
      allocated s (Min (free_set s)) s' \<and> disk s' = flush_flat BLKSIZE (2 * BLKSIZE) (dm s') (disk s)"
proof -
  have "\<forall>b < 1. \<not> is_free s b" using ok by (simp add: fs_ok_def first_data_def)
  from alloc_scan_spec [OF ok _ this]
  show "free_set s = {} \<Longrightarrow> alloc_block s = Some (- E_NO_DISK, s)"
    and "free_set s \<noteq> {} \<Longrightarrow> \<exists>s'. alloc_block s = Some (int (Min (free_set s)), s') \<and>
      allocated s (Min (free_set s)) s' \<and> disk s' = flush_flat BLKSIZE (2 * BLKSIZE) (dm s') (disk s)"
    by (simp_all add: alloc_block_def)
qed

text \<open>The two outcomes for a caller.\<close>

lemma alloc_block_cases:
  assumes ok: "fs_ok s"
  obtains (full) "alloc_block s = Some (- E_NO_DISK, s)" "free_set s = {}"
  | (new) b s' where "alloc_block s = Some (int b, s')" "allocated s b s'" "first_data s \<le> b"
proof (cases "free_set s = {}")
  case False
  with alloc_block_spec(2) [OF ok] obtain s' where
    s': "alloc_block s = Some (int (Min (free_set s)), s')" "allocated s (Min (free_set s)) s'" by blast
  have "first_data s \<le> Min (free_set s)"
    using s'(2) ok by (auto simp: allocated_def fs_ok_def not_less [symmetric])
  then show ?thesis using new [OF s'] by simp
qed (use full alloc_block_spec(1) [OF ok] in blast)

text \<open>The block allocator is a pool in the sense of the contract of numbered resources.\<close>

definition block_pool :: "fsm \<Rightarrow> nat set \<Rightarrow> bool" where
  "block_pool s F \<longleftrightarrow> fs_ok s \<and> F = free_set s"

definition alloc_opt :: "fsm \<Rightarrow> (nat option \<times> fsm) option" where
  "alloc_opt s = map_option (\<lambda>(r, s). (if r < 0 then None else Some (nat r), s)) (alloc_block s)"

lemma free_block_spec:
  assumes ok: "fs_ok s" and b: "data_block s b"
  shows "\<exists>s'. free_block b s = Some s' \<and> fs_ok s' \<and> bitmap_only s s' \<and> (\<forall>c. is_free s' c \<longleftrightarrow> is_free s c \<or> c = b) \<and> disk s' = disk s"
proof -
  have bn: "b < s_nblocks s" "b \<noteq> 0" "first_data s \<le> b" using b by (auto simp: data_block_def first_data_def)
  define s' where "s' = wr32 (bitmap_word b) (rd32 (bitmap_word b) s OR push_bit (b mod 32) 1) s"
  have m: "bitmap_only s s'" unfolding s'_def by (rule wr_bitmap_only [OF bn(1)])
  have f: "is_free s' c \<longleftrightarrow> is_free s c \<or> c = b" for c unfolding s'_def by (rule is_free_set)
  have "fs_ok s'" using ok f bn(3) by (auto simp: fs_ok_def bitmap_only_nblocks [OF m] bitmap_only_first [OF m])
  moreover have "free_block b s = Some s'" "disk s' = disk s" using bn(2) by (simp_all add: free_block_def s'_def)
  ultimately show ?thesis using m f by blast
qed

interpretation block_pool: pool block_pool alloc_opt free_block data_block
proof
  fix s F
  assume p: "block_pool s F"
  then show "finite F" by (auto simp: block_pool_def free_set_def)
  show "\<exists>x s'. alloc_opt s = Some (Some x, s') \<and> x \<in> F \<and> block_pool s' (F - {x})" if "F \<noteq> {}"
  proof -
    have ok: "fs_ok s" using p by (simp add: block_pool_def)
    from ok show ?thesis
    proof (cases rule: alloc_block_cases)
      case (new b s')
      have n: "s_nblocks s' = s_nblocks s" using new(2) by (simp add: allocated_def bitmap_only_nblocks)
      have "free_set s' = free_set s - {b}" "b \<in> free_set s" using new(2) n by (auto simp: allocated_def free_set_def)
      then show ?thesis using new(1) allocated_ok [OF ok new(2)] p by (auto simp: alloc_opt_def block_pool_def)
    qed (use p that in \<open>simp add: block_pool_def\<close>)
  qed
  show "\<exists>s'. free_block x s = Some s' \<and> block_pool s' (insert x F)" if d: "data_block s x" for x
  proof -
    obtain s' where s': "free_block x s = Some s'" "fs_ok s'" "bitmap_only s s'" "\<forall>c. is_free s' c \<longleftrightarrow> is_free s c \<or> c = x"
      using free_block_spec [of s x] d p by (auto simp: block_pool_def)
    have "free_set s' = insert x (free_set s)"
      using s'(4) d by (auto simp: free_set_def bitmap_only_nblocks [OF s'(3)] data_block_def)
    then show ?thesis using s' p by (simp add: block_pool_def)
  qed
next
  fix s
  assume "block_pool s {}"
  then show "\<exists>s'. alloc_opt s = Some (None, s') \<and> block_pool s' {}"
    using alloc_block_spec(1) [of s] by (simp add: block_pool_def alloc_opt_def E_NO_DISK_def)
qed

end
