(* ===== verification/Fs_File.thy ===== *)
theory Fs_File
  imports Fs_Spec
begin

text \<open>
  The block map of a file: its slots, the invariant that its blocks are distinct blocks in use,
  and the specification of \<open>file_block_walk\<close> and \<open>file_get_block\<close>.
\<close>

section \<open>The block map\<close>

definition find_ind :: "fsm \<Rightarrow> nat \<Rightarrow> nat" where
  "find_ind s f = unat (rd32 (f_indirect f) s)"

definition slot :: "fsm \<Rightarrow> nat \<Rightarrow> nat \<Rightarrow> nat" where
  "slot s f j = (if j < NDIRECT then f_direct f j else find_ind s f * BLKSIZE + 4 * (j - NDIRECT))"

definition MAXBLOCKS :: nat where "MAXBLOCKS = 1034"

definition fblk :: "fsm \<Rightarrow> nat \<Rightarrow> nat \<Rightarrow> nat" where
  "fblk s f j = (if NDIRECT \<le> j \<and> find_ind s f = 0 then 0 else unat (rd32 (slot s f j) s))"

text \<open>Where the structure of a file may lie: in the super block or in a block in use.\<close>

definition place_ok :: "fsm \<Rightarrow> nat \<Rightarrow> bool" where
  "place_ok s f \<longleftrightarrow> f mod BLKSIZE + 256 \<le> BLKSIZE \<and>
     (f div BLKSIZE = 1 \<and> 8 \<le> f mod BLKSIZE \<or> data_block s (f div BLKSIZE))"

definition file_ok :: "fsm \<Rightarrow> nat \<Rightarrow> bool" where
  "file_ok s f \<longleftrightarrow> fs_ok s \<and> place_ok s f \<and>
     (find_ind s f \<noteq> 0 \<longrightarrow> data_block s (find_ind s f) \<and> find_ind s f \<noteq> f div BLKSIZE) \<and>
     (\<forall>j < MAXBLOCKS. fblk s f j \<noteq> 0 \<longrightarrow>
        data_block s (fblk s f j) \<and> fblk s f j \<noteq> f div BLKSIZE \<and> fblk s f j \<noteq> find_ind s f) \<and>
     (\<forall>j < MAXBLOCKS. \<forall>k < MAXBLOCKS. fblk s f j = fblk s f k \<longrightarrow> fblk s f j \<noteq> 0 \<longrightarrow> j = k)"

lemma file_ok_inj:
  "file_ok s f \<Longrightarrow> j < MAXBLOCKS \<Longrightarrow> k < MAXBLOCKS \<Longrightarrow> fblk s f j = fblk s f k \<Longrightarrow> fblk s f j \<noteq> 0 \<Longrightarrow> j = k"
  by (simp add: file_ok_def)

lemma data_block_range: "data_block s b \<Longrightarrow> 2 < b \<and> first_data s \<le> b \<and> b < s_nblocks s"
  using gr_zeroI [of "(s_nblocks s + 32767) div 32768"] by (auto simp: data_block_def first_data_def)

text \<open>The bytes that no allocation for the file touches.\<close>

definition keep :: "fsm \<Rightarrow> nat \<Rightarrow> nat \<Rightarrow> bool" where
  "keep s f a \<longleftrightarrow> \<not> (f + 136 \<le> a \<and> a < f + 180) \<and>
     (a div BLKSIZE < 2 \<or> data_block s (a div BLKSIZE) \<and> a div BLKSIZE \<noteq> find_ind s f)"

definition kept :: "nat \<Rightarrow> fsm \<Rightarrow> fsm \<Rightarrow> bool" where
  "kept f s s' \<longleftrightarrow> file_ok s' f \<and> s_nblocks s' = s_nblocks s \<and> (\<forall>c. data_block s c \<longrightarrow> data_block s' c) \<and>
     (find_ind s f \<noteq> 0 \<longrightarrow> find_ind s' f = find_ind s f) \<and>
     (find_ind s' f \<noteq> find_ind s f \<longrightarrow> \<not> data_block s (find_ind s' f)) \<and>
     (\<forall>j < MAXBLOCKS. (fblk s f j \<noteq> 0 \<longrightarrow> fblk s' f j = fblk s f j) \<and>
        (fblk s' f j \<noteq> fblk s f j \<longrightarrow> \<not> data_block s (fblk s' f j))) \<and>
     (\<forall>a. keep s f a \<longrightarrow> dm s' a = dm s a)"

lemma kept_refl: "file_ok s f \<Longrightarrow> kept f s s"
  by (simp add: kept_def)

lemma keep_step: "kept f s s' \<Longrightarrow> keep s f a \<Longrightarrow> keep s' f a"
  by (auto simp: kept_def keep_def)

lemma kept_trans:
  assumes "kept f s s'" and "kept f s' s''"
  shows "kept f s s''"
proof -
  have "dm s'' a = dm s a" if "keep s f a" for a
    using assms keep_step [OF assms(1) that] that by (auto simp: kept_def)
  moreover have "(fblk s f j \<noteq> 0 \<longrightarrow> fblk s'' f j = fblk s f j) \<and>
      (fblk s'' f j \<noteq> fblk s f j \<longrightarrow> \<not> data_block s (fblk s'' f j))" if "j < MAXBLOCKS" for j
    using assms that unfolding kept_def by metis
  ultimately show ?thesis using assms by (auto simp: kept_def)
qed

section \<open>Blocks and words\<close>

lemma div_block: "b * BLKSIZE \<le> a \<Longrightarrow> a < b * BLKSIZE + BLKSIZE \<Longrightarrow> a div BLKSIZE = b"
  by (simp add: BLKSIZE_def)

lemma struct_range:
  assumes "place_ok s f" and "f \<le> a" and "a < f + 256"
  shows "a div BLKSIZE = f div BLKSIZE"
proof -
  have "f div BLKSIZE * BLKSIZE + f mod BLKSIZE = f" by simp
  moreover have "f mod BLKSIZE + 256 \<le> BLKSIZE" using assms(1) by (simp add: place_ok_def)
  ultimately show ?thesis using assms(2,3) by (intro div_block) linarith+
qed

lemma slot_range:
  assumes "j < MAXBLOCKS"
  shows "j < NDIRECT \<Longrightarrow> f + 136 \<le> slot s f j \<and> slot s f j + 4 \<le> f + 176"
    and "NDIRECT \<le> j \<Longrightarrow> i < 4 \<Longrightarrow> (slot s f j + i) div BLKSIZE = find_ind s f"
proof -
  show "j < NDIRECT \<Longrightarrow> f + 136 \<le> slot s f j \<and> slot s f j + 4 \<le> f + 176"
    by (simp add: slot_def f_direct_def NDIRECT_def)
  show "NDIRECT \<le> j \<Longrightarrow> i < 4 \<Longrightarrow> (slot s f j + i) div BLKSIZE = find_ind s f"
    using assms by (intro div_block) (auto simp: slot_def NDIRECT_def MAXBLOCKS_def BLKSIZE_def)
qed

text \<open>The block map depends on the pointers of the structure and on the indirect block.\<close>

lemma find_ind_cong:
  assumes "\<And>a. f + 136 \<le> a \<Longrightarrow> a < f + 180 \<Longrightarrow> dm s' a = dm s a"
  shows "find_ind s' f = find_ind s f"
  using rd32_cong [of s' "f_indirect f" s] assms by (simp add: find_ind_def f_indirect_def)

lemma fblk_cong:
  assumes a: "\<And>a. f + 136 \<le> a \<Longrightarrow> a < f + 180 \<Longrightarrow> dm s' a = dm s a"
    and i: "\<And>a. find_ind s f \<noteq> 0 \<Longrightarrow> a div BLKSIZE = find_ind s f \<Longrightarrow> dm s' a = dm s a"
    and j: "j < MAXBLOCKS"
  shows "fblk s' f j = fblk s f j"
proof -
  have e: "find_ind s' f = find_ind s f" by (rule find_ind_cong [OF a])
  then have sl: "slot s' f j = slot s f j" by (simp add: slot_def)
  show ?thesis
  proof (cases "j < NDIRECT")
    case True
    then have "rd32 (slot s f j) s' = rd32 (slot s f j) s"
      using slot_range(1) [OF j True, of f s] by (intro rd32_cong a) auto
    then show ?thesis using True by (simp add: fblk_def sl)
  next
    case False
    then have "rd32 (slot s f j) s' = rd32 (slot s f j) s" if "find_ind s f \<noteq> 0"
      using slot_range(2) [OF j, of _ s f] that by (intro rd32_cong i) auto
    then show ?thesis using False by (simp add: fblk_def sl e)
  qed
qed

section \<open>Filling a slot\<close>

text \<open>Taking a block from the bitmap leaves every file as it is.\<close>

lemma outside_bitmap:
  "bitmap_only s s' \<Longrightarrow> a div BLKSIZE < 2 \<or> data_block s (a div BLKSIZE) \<Longrightarrow> dm s' a = dm s a"
proof -
  assume m: "bitmap_only s s'" and "a div BLKSIZE < 2 \<or> data_block s (a div BLKSIZE)"
  then consider "a div BLKSIZE < 2" | "first_data s \<le> a div BLKSIZE" by (auto simp: data_block_def)
  then have "a < 2 * BLKSIZE \<or> first_data s * BLKSIZE \<le> a"
    by cases (simp_all add: BLKSIZE_def less_eq_div_iff_mult_less_eq div_less_iff_less_mult)
  then show ?thesis using m by (auto simp: bitmap_only_def)
qed

lemma struct_block: "place_ok s f \<Longrightarrow> f div BLKSIZE < 2 \<or> data_block s (f div BLKSIZE)"
  by (auto simp: place_ok_def)

lemma bitmap_only_map:
  assumes f: "file_ok s f" and m: "bitmap_only s s'"
  shows "find_ind s' f = find_ind s f" and "j < MAXBLOCKS \<Longrightarrow> fblk s' f j = fblk s f j"
proof -
  have p: "place_ok s f" using f by (simp add: file_ok_def)
  have a: "dm s' a = dm s a" if "f + 136 \<le> a" "a < f + 180" for a
    using struct_range [OF p, of a] struct_block [OF p] that by (intro outside_bitmap [OF m]) auto
  then show "find_ind s' f = find_ind s f" by (rule find_ind_cong)
  have i: "dm s' a = dm s a" if "find_ind s f \<noteq> 0" "a div BLKSIZE = find_ind s f" for a
    using f that by (intro outside_bitmap [OF m]) (simp add: file_ok_def)
  show "j < MAXBLOCKS \<Longrightarrow> fblk s' f j = fblk s f j" using fblk_cong [OF a i] by blast
qed

lemmas allocated_map = bitmap_only_map [OF _ allocated_bitmap]

lemma allocated_kept:
  assumes f: "file_ok s f" and al: "allocated s b s'"
  shows "kept f s s'"
proof -
  have ok: "fs_ok s" using f by (simp add: file_ok_def)
  note m = allocated_map [OF f al] and d = allocated_data [OF ok al]
  have "file_ok s' f" using f m d allocated_ok [OF ok al] by (auto simp: file_ok_def place_ok_def)
  moreover have "s_nblocks s' = s_nblocks s" using al by (simp add: allocated_def bitmap_only_nblocks)
  moreover have "dm s' a = dm s a" if "keep s f a" for a
    using that by (intro outside_bitmap [OF allocated_bitmap [OF al]]) (auto simp: keep_def)
  ultimately show ?thesis using m d by (simp add: kept_def)
qed

text \<open>A block that the file does not use.\<close>

definition unused :: "fsm \<Rightarrow> nat \<Rightarrow> nat \<Rightarrow> bool" where
  "unused s f b \<longleftrightarrow> data_block s b \<and> b \<noteq> f div BLKSIZE \<and> b \<noteq> find_ind s f \<and> (\<forall>j < MAXBLOCKS. fblk s f j \<noteq> b)"

lemma allocated_unused:
  assumes f: "file_ok s f" and al: "allocated s b s'" and b: "first_data s \<le> b"
  shows "unused s' f b"
proof -
  have ok: "fs_ok s" using f by (simp add: file_ok_def)
  have nd: "\<not> data_block s b" using al by (simp add: allocated_def data_block_def)
  have b2: "2 < b" using b ok fs_ok_two [OF ok] by (simp add: first_data_def)
  have "data_block s' b" using allocated_data [OF ok al] by simp
  then show ?thesis
    using f nd b2 allocated_map [OF f al] unfolding unused_def file_ok_def place_ok_def by auto
qed

text \<open>Storing in a slot changes that entry of the block map and no other.\<close>

lemma slot_block:
  assumes "file_ok s f" and "j < MAXBLOCKS" and "i < 4"
  shows "(slot s f j + i) div BLKSIZE = (if j < NDIRECT then f div BLKSIZE else find_ind s f)"
proof (cases "j < NDIRECT")
  case True
  have "place_ok s f" using assms(1) by (simp add: file_ok_def)
  then show ?thesis using struct_range [of s f "slot s f j + i"] slot_range(1) [OF assms(2) True, of f s] assms(3) True
    by simp
qed (simp add: slot_range(2) [OF assms(2) _ assms(3)])

lemma slot_disjoint:
  assumes f: "file_ok s f" and jk: "j < MAXBLOCKS" "k < MAXBLOCKS" "j \<noteq> k"
    and d: "j < NDIRECT \<or> find_ind s f \<noteq> 0" "k < NDIRECT \<or> find_ind s f \<noteq> 0"
  shows "slot s f k + 4 \<le> slot s f j \<or> slot s f j + 4 \<le> slot s f k"
proof (cases "(j < NDIRECT) = (k < NDIRECT)")
  case True
  then show ?thesis using jk by (auto simp: slot_def f_direct_def)
next
  case False
  have "find_ind s f \<noteq> f div BLKSIZE" using f False d by (auto simp: file_ok_def)
  then have "(slot s f j + i) div BLKSIZE \<noteq> (slot s f k + l) div BLKSIZE" if "i < 4" "l < 4" for i l
    using slot_block [OF f jk(1) that(1)] slot_block [OF f jk(2) that(2)] False by auto
  then have "slot s f j + i \<noteq> slot s f k + l" if "i < 4" "l < 4" for i l using that by metis
  from this [of 0 "slot s f j - slot s f k"] this [of "slot s f k - slot s f j" 0] show ?thesis by arith
qed

lemma slot_indirect:
  assumes f: "file_ok s f" and j: "j < MAXBLOCKS" "j < NDIRECT \<or> find_ind s f \<noteq> 0"
    and a: "f_indirect f \<le> a" "a < f_indirect f + 4"
  shows "\<not> (slot s f j \<le> a \<and> a < slot s f j + 4)"
proof (cases "j < NDIRECT")
  case True
  then show ?thesis using slot_range(1) [OF j(1) True, of f s] a by (simp add: f_indirect_def)
next
  case False
  have "a div BLKSIZE = f div BLKSIZE" using f a struct_range [of s f a] by (simp add: file_ok_def f_indirect_def)
  moreover have "find_ind s f \<noteq> f div BLKSIZE" using f False j by (simp add: file_ok_def)
  ultimately have "(slot s f j + i) \<noteq> a" if "i < 4" for i
    using slot_block [OF f j(1) that] False by auto
  from this [of "a - slot s f j"] show ?thesis by (cases "a - slot s f j < 4") auto
qed

lemma set_slot:
  fixes v :: u32
  assumes f: "file_ok s f" and j: "j < MAXBLOCKS" "j < NDIRECT \<or> find_ind s f \<noteq> 0"
  defines "s' \<equiv> wr32 (slot s f j) v s"
  shows "find_ind s' f = find_ind s f" and "k < MAXBLOCKS \<Longrightarrow> fblk s' f k = (if k = j then unat v else fblk s f k)"
    and "keep s f a \<Longrightarrow> dm s' a = dm s a"
proof -
  have "rd32 (f_indirect f) s' = rd32 (f_indirect f) s"
    using slot_indirect [OF f j] unfolding s'_def by (intro rd32_cong dm_wr32) auto
  then show i: "find_ind s' f = find_ind s f" by (simp add: find_ind_def)
  then have sl: "slot s' f k = slot s f k" for k by (simp add: slot_def)
  show "fblk s' f k = (if k = j then unat v else fblk s f k)" if k: "k < MAXBLOCKS"
  proof (cases "k = j \<or> NDIRECT \<le> k \<and> find_ind s f = 0")
    case True
    then show ?thesis using j i sl by (auto simp: fblk_def s'_def)
  next
    case False
    then have "rd32 (slot s f k) s' = rd32 (slot s f k) s"
      unfolding s'_def using slot_disjoint [OF f j(1) k _ j(2)] by (intro rd32_wr32_other) auto
    then show ?thesis using False i sl by (auto simp: fblk_def)
  qed
  show "dm s' a = dm s a" if ka: "keep s f a"
  proof -
    have "\<not> (slot s f j \<le> a \<and> a < slot s f j + 4)"
    proof (cases "j < NDIRECT")
      case True
      then show ?thesis using slot_range(1) [OF j(1) True, of f s] ka by (auto simp: keep_def)
    next
      case False
      have "a div BLKSIZE \<noteq> find_ind s f" using ka f False j data_block_range [of s "find_ind s f"]
        by (auto simp: keep_def file_ok_def)
      then have "slot s f j + i \<noteq> a" if "i < 4" for i using slot_block [OF f j(1) that] False by auto
      from this [of "a - slot s f j"] show ?thesis by (cases "a - slot s f j < 4") auto
    qed
    then show ?thesis unfolding s'_def by (rule dm_wr32)
  qed
qed

text \<open>Storing in a slot or in the indirect pointer leaves bitmap and super block alone.\<close>

definition same_meta :: "fsm \<Rightarrow> fsm \<Rightarrow> bool" where
  "same_meta s s' \<longleftrightarrow> s_nblocks s' = s_nblocks s \<and> (\<forall>b < s_nblocks s. is_free s' b = is_free s b)"

lemma same_metaI:
  assumes ok: "fs_ok s"
    and a: "\<And>a. a div BLKSIZE < first_data s \<Longrightarrow> \<not> (a div BLKSIZE = 1 \<and> 8 \<le> a mod BLKSIZE) \<Longrightarrow> dm s' a = dm s a"
  shows "same_meta s s'"
proof -
  have fd: "2 < first_data s" using fs_ok_two [OF ok] by (simp add: first_data_def)
  have "dm s' (BLKSIZE + 4 + i) = dm s (BLKSIZE + 4 + i)" if "i < 4" for i
  proof -
    have "i = 0 \<or> i = 1 \<or> i = 2 \<or> i = 3" using that by arith
    then show ?thesis using fd by (elim disjE) (intro a; simp add: BLKSIZE_def)+
  qed
  then have "rd32 (BLKSIZE + 4) s' = rd32 (BLKSIZE + 4) s" by (rule rd32_cong)
  then have n: "s_nblocks s' = s_nblocks s" by (simp add: s_nblocks_def)
  have "rd32 (bitmap_word b) s' = rd32 (bitmap_word b) s" if "b < s_nblocks s" for b
  proof (rule rd32_cong)
    fix i :: nat
    assume "i < 4"
    then have "2 * BLKSIZE \<le> bitmap_word b + i" "bitmap_word b + i < first_data s * BLKSIZE"
      using bitmap_word_range [OF that] by simp_all
    then have "2 \<le> (bitmap_word b + i) div BLKSIZE" "(bitmap_word b + i) div BLKSIZE < first_data s"
      by (simp_all add: BLKSIZE_def less_eq_div_iff_mult_less_eq div_less_iff_less_mult)
    then show "dm s' (bitmap_word b + i) = dm s (bitmap_word b + i)" by (intro a) auto
  qed
  then show ?thesis using n by (simp add: same_meta_def is_free_def)
qed

lemma same_meta_first: "same_meta s s' \<Longrightarrow> first_data s' = first_data s"
  by (simp add: same_meta_def first_data_def)

lemma same_meta_data: "same_meta s s' \<Longrightarrow> data_block s' b = data_block s b"
  using same_meta_first [of s s'] by (auto simp: same_meta_def data_block_def)

lemma same_meta_ok: "same_meta s s' \<Longrightarrow> fs_ok s \<Longrightarrow> fs_ok s'"
  using same_meta_first [of s s'] by (auto simp: same_meta_def fs_ok_def)

lemma set_slot_meta:
  fixes v :: u32
  assumes f: "file_ok s f" and j: "j < MAXBLOCKS" "j < NDIRECT \<or> find_ind s f \<noteq> 0"
  shows "same_meta s (wr32 (slot s f j) v s)"
proof (rule same_metaI)
  show "fs_ok s" using f by (simp add: file_ok_def)
  fix a
  assume a: "a div BLKSIZE < first_data s" "\<not> (a div BLKSIZE = 1 \<and> 8 \<le> a mod BLKSIZE)"
  have "slot s f j + i \<noteq> a" if i: "i < 4" for i
  proof (cases "j < NDIRECT")
    case True
    have p: "place_ok s f" using f by (simp add: file_ok_def)
    have "8 \<le> a mod BLKSIZE" if e: "slot s f j + i = a" "f div BLKSIZE = 1" "8 \<le> f mod BLKSIZE"
    proof -
      have "a div BLKSIZE = 1" using slot_block [OF f j(1) i] True e by simp
      then have "BLKSIZE + a mod BLKSIZE = a" "BLKSIZE + f mod BLKSIZE = f"
        using div_mult_mod_eq [of f BLKSIZE] div_mult_mod_eq [of a BLKSIZE] e(2) by simp_all
      then show ?thesis using slot_range(1) [OF j(1) True, of f s] e by linarith
    qed
    then show ?thesis using slot_block [OF f j(1) i] True a p by (auto simp: place_ok_def data_block_def)
  next
    case False
    then show ?thesis using slot_block [OF f j(1) i] a f j(2) by (auto simp: file_ok_def data_block_def)
  qed
  from this [of "a - slot s f j"] have "\<not> (slot s f j \<le> a \<and> a < slot s f j + 4)"
    by (cases "a - slot s f j < 4") auto
  then show "dm (wr32 (slot s f j) v s) a = dm s a" by (rule dm_wr32)
qed

text \<open>An unused block goes into an empty slot.\<close>

lemma fill_slot:
  assumes f: "file_ok s f" and j: "j < MAXBLOCKS" "j < NDIRECT \<or> find_ind s f \<noteq> 0" and e: "fblk s f j = 0"
    and b: "unused s f b"
  defines "s' \<equiv> wr32 (slot s f j) (of_nat b) s"
  shows "file_ok s' f" and "fblk s' f j = b" and "find_ind s' f = find_ind s f"
    and "k < MAXBLOCKS \<Longrightarrow> k \<noteq> j \<Longrightarrow> fblk s' f k = fblk s f k"
    and "keep s f a \<Longrightarrow> dm s' a = dm s a" and "same_meta s s'"
proof -
  have ok: "fs_ok s" using f by (simp add: file_ok_def)
  have "b < s_nblocks s" using b by (simp add: unused_def data_block_def)
  moreover have "s_nblocks s \<le> 786432" using ok by (simp add: fs_ok_def BLKSIZE_def DISKSIZE_def)
  ultimately have u: "unat (of_nat b :: u32) = b" by (simp add: unat_of_nat)
  note ss = set_slot [OF f j, where v = "of_nat b", folded s'_def]
  show sm: "same_meta s s'" unfolding s'_def by (rule set_slot_meta [OF f j])
  show fb: "fblk s' f j = b" using ss(2) [OF j(1)] u by simp
  show fk: "k < MAXBLOCKS \<Longrightarrow> k \<noteq> j \<Longrightarrow> fblk s' f k = fblk s f k" for k using ss(2) by simp
  show fi: "find_ind s' f = find_ind s f" by (rule ss(1))
  show "keep s f a \<Longrightarrow> dm s' a = dm s a" by (rule ss(3))
  have "place_ok s' f" using f same_meta_data [OF sm] by (simp add: file_ok_def place_ok_def)
  moreover have "fs_ok s'" by (rule same_meta_ok [OF sm ok])
  moreover have all: "fblk s' f k = (if k = j then b else fblk s f k)" if "k < MAXBLOCKS" for k
    using fb fk that by simp
  ultimately show "file_ok s' f"
    using f b fi same_meta_data [OF sm] unfolding file_ok_def unused_def by (simp, metis)
qed

text \<open>The first use of the indirect block: allocated, recorded in the structure and cleared.\<close>

definition with_indirect :: "nat \<Rightarrow> nat \<Rightarrow> fsm \<Rightarrow> fsm" where
  "with_indirect f b s = wr_bytes (b * BLKSIZE) (replicate BLKSIZE 0) (wr32 (f_indirect f) (of_nat b) s)"

lemma dm_with_indirect:
  "dm (with_indirect f b s) a = (if a div BLKSIZE = b then 0 else dm (wr32 (f_indirect f) (of_nat b) s) a)"
proof -
  have "b * BLKSIZE \<le> a \<and> a < b * BLKSIZE + BLKSIZE \<longleftrightarrow> a div BLKSIZE = b" by (auto simp: BLKSIZE_def)
  moreover have "a - b * BLKSIZE < BLKSIZE" if "a div BLKSIZE = b" using that by (auto simp: BLKSIZE_def)
  ultimately show ?thesis by (simp add: with_indirect_def dm_wr_bytes)
qed

lemma place_ge: "place_ok s f \<Longrightarrow> BLKSIZE + 8 \<le> f"
proof -
  assume p: "place_ok s f"
  define q r where "q = f div BLKSIZE" and "r = f mod BLKSIZE"
  have "f = q * BLKSIZE + r" by (simp add: q_def r_def)
  moreover have "q = 1 \<and> 8 \<le> r \<or> 2 < q"
    using p data_block_range [of s q] by (auto simp: place_ok_def q_def [symmetric] r_def [symmetric])
  ultimately show ?thesis by (auto simp: BLKSIZE_def)
qed

lemma struct_meta:
  assumes p: "place_ok s f" and a: "f \<le> a" "a < f + 256" "a div BLKSIZE < first_data s"
  shows "a div BLKSIZE = 1 \<and> 8 \<le> a mod BLKSIZE"
proof -
  have d: "a div BLKSIZE = f div BLKSIZE" by (rule struct_range [OF p a(1,2)])
  then have b: "f div BLKSIZE = 1" "8 \<le> f mod BLKSIZE" using p a(3) by (auto simp: place_ok_def data_block_def)
  then have "BLKSIZE + a mod BLKSIZE = a" "BLKSIZE + f mod BLKSIZE = f"
    using div_mult_mod_eq [of f BLKSIZE] div_mult_mod_eq [of a BLKSIZE] d by simp_all
  then show ?thesis using d b a(1) by linarith
qed

lemma with_indirect_meta:
  assumes f: "file_ok s f" and b: "unused s f b"
  shows "same_meta s (with_indirect f b s)"
proof (rule same_metaI)
  show "fs_ok s" using f by (simp add: file_ok_def)
  fix a
  assume a: "a div BLKSIZE < first_data s" "\<not> (a div BLKSIZE = 1 \<and> 8 \<le> a mod BLKSIZE)"
  have "a div BLKSIZE \<noteq> b" using a(1) b by (auto simp: unused_def data_block_def)
  moreover have "\<not> (f_indirect f \<le> a \<and> a < f_indirect f + 4)"
    using struct_meta [of s f a] a f by (auto simp: file_ok_def f_indirect_def)
  ultimately show "dm (with_indirect f b s) a = dm s a" by (simp add: dm_with_indirect dm_wr32)
qed

lemma new_indirect_map:
  assumes f: "file_ok s f" and z: "find_ind s f = 0" and b: "unused s f b"
  defines "s' \<equiv> with_indirect f b s"
  shows "find_ind s' f = b" and "k < MAXBLOCKS \<Longrightarrow> fblk s' f k = fblk s f k"
    and "keep s f a \<Longrightarrow> a div BLKSIZE \<noteq> b \<Longrightarrow> dm s' a = dm s a"
proof -
  have p: "place_ok s f" and ok: "fs_ok s" using f by (simp_all add: file_ok_def)
  have nb: "b \<noteq> f div BLKSIZE" "b \<noteq> 0" using b data_block_range [of s b] by (auto simp: unused_def)
  have "b < s_nblocks s" using b by (simp add: unused_def data_block_def)
  moreover have "s_nblocks s \<le> 786432" using ok by (simp add: fs_ok_def BLKSIZE_def DISKSIZE_def)
  ultimately have u: "unat (of_nat b :: u32) = b" by (simp add: unat_of_nat)
  have st: "dm s' a = dm (wr32 (f_indirect f) (of_nat b) s) a" if "f \<le> a" "a < f + 256" for a
    using struct_range [OF p that] nb by (simp add: s'_def dm_with_indirect)
  have "rd32 (f_indirect f) s' = rd32 (f_indirect f) (wr32 (f_indirect f) (of_nat b) s)"
    by (intro rd32_cong st) (simp_all add: f_indirect_def)
  then show i: "find_ind s' f = b" by (simp add: find_ind_def u)
  show "fblk s' f k = fblk s f k" if k: "k < MAXBLOCKS"
  proof (cases "k < NDIRECT")
    case True
    have "slot s' f k = slot s f k" using True by (simp add: slot_def)
    moreover have "rd32 (slot s f k) s' = rd32 (slot s f k) s"
      using slot_range(1) [OF k True, of f s] by (intro rd32_cong) (simp add: st dm_wr32 f_indirect_def)
    ultimately show ?thesis using True by (simp add: fblk_def)
  next
    case False
    have "dm s' (slot s' f k + l) = 0" if "l < 4" for l
      using slot_range(2) [OF k, of l s' f] False that i by (simp add: s'_def dm_with_indirect)
    then have "rd32 (slot s' f k) s' = le32 (\<lambda>_. 0)" unfolding rd32_def by (rule le32_cong)
    then have "rd32 (slot s' f k) s' = 0" by (simp add: le32_def)
    then show ?thesis using False z by (simp add: fblk_def)
  qed
  show "keep s f a \<Longrightarrow> a div BLKSIZE \<noteq> b \<Longrightarrow> dm s' a = dm s a"
    by (auto simp: s'_def dm_with_indirect keep_def f_indirect_def intro: dm_wr32)
qed

lemma new_indirect_ok:
  assumes f: "file_ok s f" and z: "find_ind s f = 0" and b: "unused s f b"
  shows "file_ok (with_indirect f b s) f"
proof -
  let ?s = "with_indirect f b s"
  note m = new_indirect_map [OF f z b] and sm = with_indirect_meta [OF f b]
  have "fs_ok ?s" using f same_meta_ok [OF sm] by (simp add: file_ok_def)
  moreover have "place_ok ?s f" using f same_meta_data [OF sm] by (simp add: file_ok_def place_ok_def)
  ultimately show ?thesis
    using f b m(1,2) same_meta_data [OF sm] unfolding file_ok_def unused_def by simp
qed

section \<open>Looking up and allocating blocks of a file\<close>

text \<open>Allocating a block and storing it in an empty slot.\<close>

lemma alloc_fill_kept:
  assumes f: "file_ok s f" and j: "j < MAXBLOCKS" "j < NDIRECT \<or> find_ind s f \<noteq> 0" and e: "fblk s f j = 0"
    and al: "allocated s b s1" "first_data s \<le> b"
  defines "s' \<equiv> wr32 (slot s f j) (of_nat b) s1"
  shows "kept f s s'" and "fblk s' f j = b"
proof -
  have k1: "kept f s s1" by (rule allocated_kept [OF f al(1)])
  have m: "find_ind s1 f = find_ind s f" "\<And>k. k < MAXBLOCKS \<Longrightarrow> fblk s1 f k = fblk s f k"
    by (rule allocated_map [OF f al(1)])+
  have f1: "file_ok s1 f" using k1 by (simp add: kept_def)
  have u: "unused s1 f b" by (rule allocated_unused [OF f al])
  have sl: "slot s1 f j = slot s f j" using m(1) by (simp add: slot_def)
  have j1: "j < NDIRECT \<or> find_ind s1 f \<noteq> 0" and e1: "fblk s1 f j = 0" using j e m by simp_all
  note fs = fill_slot [OF f1 j(1) j1 e1 u, unfolded sl, folded s'_def]
  show "fblk s' f j = b" by (rule fs(2))
  have nd: "\<not> data_block s b" using al(1) by (simp add: allocated_def data_block_def)
  have map: "fblk s' f k = (if k = j then b else fblk s f k)" if "k < MAXBLOCKS" for k using fs(2,4) m(2) that by auto
  have "dm s' a = dm s a" if "keep s f a" for a
    using fs(5) keep_step [OF k1 that] that k1 by (simp add: kept_def)
  moreover have "s_nblocks s' = s_nblocks s" "\<forall>c. data_block s c \<longrightarrow> data_block s' c"
    using fs(6) same_meta_data [OF fs(6)] k1 by (simp_all add: same_meta_def kept_def)
  ultimately show "kept f s s'" using fs(1,3) m(1) map nd e by (simp add: kept_def)
qed

lemma alloc_indirect_kept:
  assumes f: "file_ok s f" and z: "find_ind s f = 0" and al: "allocated s b s1" "first_data s \<le> b"
  shows "kept f s (with_indirect f b s1)" and "find_ind (with_indirect f b s1) f = b" and "b \<noteq> 0"
    and "unat (of_nat b :: u32) = b" and "b < s_nblocks s"
proof -
  let ?s = "with_indirect f b s1"
  have k1: "kept f s s1" by (rule allocated_kept [OF f al(1)])
  have m: "find_ind s1 f = find_ind s f" "\<And>k. k < MAXBLOCKS \<Longrightarrow> fblk s1 f k = fblk s f k"
    by (rule allocated_map [OF f al(1)])+
  have f1: "file_ok s1 f" using k1 by (simp add: kept_def)
  have u: "unused s1 f b" by (rule allocated_unused [OF f al])
  have z1: "find_ind s1 f = 0" using z m by simp
  note ni = new_indirect_map [OF f1 z1 u] and sm = with_indirect_meta [OF f1 u]
  show "find_ind ?s f = b" by (rule ni(1))
  show "b \<noteq> 0" using u data_block_range [of s1 b] by (auto simp: unused_def)
  show bn: "b < s_nblocks s" using al by (simp add: allocated_def)
  moreover have "s_nblocks s \<le> 786432" using f by (simp add: file_ok_def fs_ok_def BLKSIZE_def DISKSIZE_def)
  ultimately show "unat (of_nat b :: u32) = b" by (simp add: unat_of_nat)
  have nd: "\<not> data_block s b" using al(1) by (simp add: allocated_def data_block_def)
  have b2: "2 < b" using u data_block_range [of s1 b] by (simp add: unused_def)
  have "dm ?s a = dm s a" if ka: "keep s f a" for a
  proof -
    have "a div BLKSIZE \<noteq> b" using ka nd b2 by (auto simp: keep_def)
    then show ?thesis using ni(3) [OF keep_step [OF k1 ka]] ka k1 by (simp add: kept_def)
  qed
  moreover have "s_nblocks ?s = s_nblocks s" "\<forall>c. data_block s c \<longrightarrow> data_block ?s c"
    using sm same_meta_data [OF sm] k1 by (simp_all add: same_meta_def kept_def)
  ultimately show "kept f s ?s" using new_indirect_ok [OF f1 z1 u] ni(1,2) m z nd by (simp add: kept_def)
qed

lemma block_addr_data: "data_block s b \<Longrightarrow> block_addr b s = Some (b * BLKSIZE)"
  using data_block_range [of s b] by (auto simp: block_addr_def)

lemma file_block_walk_spec:
  assumes f: "file_ok s f" and j: "j < MAXBLOCKS"
  shows "\<exists>s'. file_block_walk f j True s = Some (- E_NO_DISK, None, s') \<and> kept f s s' \<or>
    file_block_walk f j True s = Some (0, Some (slot s' f j), s') \<and> kept f s s' \<and> (j < NDIRECT \<or> find_ind s' f \<noteq> 0)"
proof (cases "j < NDIRECT \<or> find_ind s f \<noteq> 0")
  case True
  have "file_block_walk f j True s = Some (0, Some (slot s f j), s)"
  proof (cases "j < NDIRECT")
    case False
    then have i: "find_ind s f \<noteq> 0" using True by simp
    then have "block_addr (find_ind s f) s = Some (find_ind s f * BLKSIZE)"
      using f by (intro block_addr_data) (simp add: file_ok_def)
    then show ?thesis using False i j
      by (auto simp: file_block_walk_def slot_def find_ind_def MAXBLOCKS_def NDIRECT_def NINDIRECT_def)
  qed (use j in \<open>simp add: file_block_walk_def slot_def MAXBLOCKS_def NDIRECT_def NINDIRECT_def\<close>)
  then show ?thesis using kept_refl [OF f] True by blast
next
  case False
  then have z: "find_ind s f = 0" and jd: "\<not> j < NDIRECT" by auto
  then have zw: "rd32 (f_indirect f) s = 0" by (simp add: find_ind_def unat_eq_0)
  have jm: "\<not> NDIRECT + NINDIRECT \<le> j" using j by (simp add: MAXBLOCKS_def NDIRECT_def NINDIRECT_def)
  have ok: "fs_ok s" using f by (simp add: file_ok_def)
  from ok show ?thesis
  proof (cases rule: alloc_block_cases)
    case full
    then have "file_block_walk f j True s = Some (- E_NO_DISK, None, s)"
      using zw jd jm by (simp add: file_block_walk_def E_NO_DISK_def)
    then show ?thesis using kept_refl [OF f] by blast
  next
    case (new b s1)
    let ?s = "with_indirect f b s1"
    note a = alloc_indirect_kept [OF f z new(2,3)]
    have "BLKSIZE + 8 \<le> f" using f place_ge [of s f] by (simp add: file_ok_def)
    then have "s_nblocks (wr32 (f_indirect f) (of_nat b) s1) = s_nblocks s1"
      by (simp add: s_nblocks_def f_indirect_def rd32_wr32_other)
    then have "s_nblocks (wr32 (f_indirect f) (of_nat b) s1) = s_nblocks s"
      using new(2) by (simp add: allocated_def bitmap_only_nblocks)
    then have "block_addr b (wr32 (f_indirect f) (of_nat b) s1) = Some (b * BLKSIZE)"
      using a(3,5) by (simp add: block_addr_def)
    moreover have "block_addr b ?s = Some (b * BLKSIZE)" using a(1,3,5) by (simp add: block_addr_def kept_def)
    ultimately have "file_block_walk f j True s = Some (0, Some (b * BLKSIZE + 4 * (j - NDIRECT)), ?s)"
      using zw jd jm new(1) a(2,4) by (simp add: file_block_walk_def with_indirect_def find_ind_def)
    then show ?thesis using a jd by (auto simp: slot_def)
  qed
qed

lemma fblk_slot: "j < NDIRECT \<or> find_ind s f \<noteq> 0 \<Longrightarrow> fblk s f j = unat (rd32 (slot s f j) s)"
  by (auto simp: fblk_def)

lemma file_get_block_mapped:
  assumes f: "file_ok s f" and j: "j < MAXBLOCKS" and m: "fblk s f j \<noteq> 0"
  shows "file_get_block f j s = Some (0, fblk s f j * BLKSIZE, s)"
proof -
  have d: "j < NDIRECT \<or> find_ind s f \<noteq> 0" using m by (auto simp: fblk_def split: if_splits)
  have jm: "\<not> NDIRECT + NINDIRECT \<le> j" using j by (simp add: MAXBLOCKS_def NDIRECT_def NINDIRECT_def)
  have "block_addr (find_ind s f) s = Some (find_ind s f * BLKSIZE)" if "find_ind s f \<noteq> 0"
    using f that by (intro block_addr_data) (simp add: file_ok_def)
  then have w: "file_block_walk f j True s = Some (0, Some (slot s f j), s)"
    using d jm by (auto simp: file_block_walk_def slot_def find_ind_def)
  have "block_addr (fblk s f j) s = Some (fblk s f j * BLKSIZE)"
    using f j m by (intro block_addr_data) (simp add: file_ok_def)
  then show ?thesis using w m fblk_slot [OF d] by (auto simp: file_get_block_def)
qed

lemma file_get_block_spec:
  assumes f: "file_ok s f" and j: "j < MAXBLOCKS"
  shows "\<exists>s'. kept f s s' \<and> (file_get_block f j s = Some (- E_NO_DISK, 0, s') \<or>
    file_get_block f j s = Some (0, fblk s' f j * BLKSIZE, s') \<and> fblk s' f j \<noteq> 0)"
proof -
  obtain s1 where k1: "kept f s s1" and w: "file_block_walk f j True s = Some (- E_NO_DISK, None, s1) \<or>
      file_block_walk f j True s = Some (0, Some (slot s1 f j), s1) \<and> (j < NDIRECT \<or> find_ind s1 f \<noteq> 0)"
    using file_block_walk_spec [OF f j] by blast
  have f1: "file_ok s1 f" using k1 by (simp add: kept_def)
  then have ok1: "fs_ok s1" by (simp add: file_ok_def)
  consider (err) "file_block_walk f j True s = Some (- E_NO_DISK, None, s1)"
    | (slot) "file_block_walk f j True s = Some (0, Some (slot s1 f j), s1)" "j < NDIRECT \<or> find_ind s1 f \<noteq> 0"
    using w by blast
  then show ?thesis
  proof cases
    case err
    then show ?thesis using k1 by (auto simp: file_get_block_def E_NO_DISK_def)
  next
    case slot
    note fs = fblk_slot [OF slot(2)]
    show ?thesis
    proof (cases "fblk s1 f j = 0")
      case False
      then have "file_get_block f j s = file_get_block f j s1"
        using slot file_get_block_mapped [OF f1 j False] block_addr_data [of s1 "fblk s1 f j"] f1 j fs
        by (auto simp: file_get_block_def file_ok_def)
      then show ?thesis using k1 file_get_block_mapped [OF f1 j False] False by auto
    next
      case True
      then have z: "rd32 (slot s1 f j) s1 = 0" using fs by (simp add: unat_eq_0)
      from ok1 show ?thesis
      proof (cases rule: alloc_block_cases)
        case full
        then show ?thesis using slot z k1 by (auto simp: file_get_block_def E_NO_DISK_def)
      next
        case (new b s2)
        let ?s = "wr32 (slot s1 f j) (of_nat b) s2"
        note a = alloc_fill_kept [OF f1 j slot(2) True new(2,3)]
        have "b \<noteq> 0" using new(3) by (simp add: first_data_def)
        moreover have "file_ok ?s f" using a(1) by (simp add: kept_def)
        ultimately have ba: "block_addr b ?s = Some (b * BLKSIZE)"
          using a(2) j by (intro block_addr_data) (auto simp: file_ok_def)
        have "b < s_nblocks s1" using new(2) by (simp add: allocated_def)
        moreover have "s_nblocks s1 \<le> 786432" using ok1 by (simp add: fs_ok_def BLKSIZE_def DISKSIZE_def)
        ultimately have u: "unat (of_nat b :: u32) = b" by (simp add: unat_of_nat)
        have "file_get_block f j s = Some (0, b * BLKSIZE, ?s)"
          using slot(1) z new(1) ba u by (simp add: file_get_block_def)
        then show ?thesis using kept_trans [OF k1 a(1)] a(2) \<open>b \<noteq> 0\<close> by auto
      qed
    qed
  qed
qed

end
