(* ===== verification/Fs_RW.thy ===== *)
theory Fs_RW
  imports Fs_File
begin

text \<open>Reading and writing the bytes of a file.\<close>

section \<open>Integers\<close>

lemma i32_small: "- (2 ^ 31) \<le> x \<Longrightarrow> x < 2 ^ 31 \<Longrightarrow> i32 x = x"
  by (simp add: i32_def)

lemma u64i_small: "0 \<le> x \<Longrightarrow> x < 2 ^ 64 \<Longrightarrow> u64i x = x"
  by (simp add: u64i_def)

lemma sdiv_nat: "int p sdiv 4096 = int (p div BLKSIZE)" "int p smod 4096 = int (p mod BLKSIZE)"
  by (simp_all add: signed_divide_int_def signed_modulo_int_def BLKSIZE_def zdiv_int zmod_int sgn_if)

section \<open>The bytes of a file\<close>

definition fbyte :: "fsm \<Rightarrow> nat \<Rightarrow> nat \<Rightarrow> u8" where
  "fbyte s f p = dm s (fblk s f (p div BLKSIZE) * BLKSIZE + p mod BLKSIZE)"

definition fmapped :: "fsm \<Rightarrow> nat \<Rightarrow> nat \<Rightarrow> bool" where
  "fmapped s f p \<longleftrightarrow> p < MAXBLOCKS * BLKSIZE \<and> fblk s f (p div BLKSIZE) \<noteq> 0"

text \<open>
  What an operation that stores in the bytes \<open>lo\<close> to \<open>hi\<close> of a file may change: the bitmap and the
  block map as allocations do, and those bytes.
\<close>

definition wrote :: "nat \<Rightarrow> nat \<Rightarrow> nat \<Rightarrow> fsm \<Rightarrow> fsm \<Rightarrow> bool" where
  "wrote f lo hi s s' \<longleftrightarrow> file_ok s' f \<and> s_nblocks s' = s_nblocks s \<and> (\<forall>c. data_block s c \<longrightarrow> data_block s' c) \<and>
     (find_ind s f \<noteq> 0 \<longrightarrow> find_ind s' f = find_ind s f) \<and>
     (find_ind s' f \<noteq> find_ind s f \<longrightarrow> \<not> data_block s (find_ind s' f)) \<and>
     (\<forall>j < MAXBLOCKS. (fblk s f j \<noteq> 0 \<longrightarrow> fblk s' f j = fblk s f j) \<and>
        (fblk s' f j \<noteq> fblk s f j \<longrightarrow> \<not> data_block s (fblk s' f j))) \<and>
     (\<forall>a. keep s f a \<longrightarrow> (\<forall>j < MAXBLOCKS. fblk s f j \<noteq> 0 \<longrightarrow> a div BLKSIZE \<noteq> fblk s f j) \<longrightarrow> dm s' a = dm s a) \<and>
     (\<forall>p. fmapped s f p \<longrightarrow> \<not> (lo \<le> p \<and> p < hi) \<longrightarrow> fbyte s' f p = fbyte s f p)"

lemma fblk_addr: "(fblk s f j * BLKSIZE + p mod BLKSIZE) div BLKSIZE = fblk s f j"
  by (rule div_block) (simp_all add: BLKSIZE_def)

lemma div_lt_MAX: "p < MAXBLOCKS * BLKSIZE \<Longrightarrow> p div BLKSIZE < MAXBLOCKS"
  by (simp add: MAXBLOCKS_def BLKSIZE_def)

lemma keep_own:
  assumes f: "file_ok s f" and j: "j < MAXBLOCKS" "fblk s f j \<noteq> 0" and a: "a div BLKSIZE = fblk s f j"
  shows "keep s f a"
proof -
  have d: "data_block s (fblk s f j)" "fblk s f j \<noteq> f div BLKSIZE" "fblk s f j \<noteq> find_ind s f"
    using f j by (auto simp: file_ok_def)
  have "\<not> (f + 136 \<le> a \<and> a < f + 180)"
    using struct_range [of s f a] d(2) a f by (auto simp: file_ok_def)
  then show ?thesis using d a by (simp add: keep_def)
qed

lemma kept_wrote:
  assumes f: "file_ok s f" and k: "kept f s s'"
  shows "wrote f lo hi s s'"
proof -
  have "fbyte s' f p = fbyte s f p" if "fmapped s f p" for p
  proof -
    let ?j = "p div BLKSIZE"
    have j: "?j < MAXBLOCKS" "fblk s f ?j \<noteq> 0" using that div_lt_MAX by (auto simp: fmapped_def)
    have "keep s f (fblk s f ?j * BLKSIZE + p mod BLKSIZE)" by (rule keep_own [OF f j fblk_addr])
    then show ?thesis using k j by (simp add: fbyte_def kept_def)
  qed
  then show ?thesis using k unfolding wrote_def kept_def by blast
qed

lemma wrote_keep:
  assumes w: "wrote f lo hi s s'" and k: "keep s f a"
    and n: "\<forall>j < MAXBLOCKS. fblk s f j \<noteq> 0 \<longrightarrow> a div BLKSIZE \<noteq> fblk s f j"
  shows "keep s' f a" and "\<forall>j < MAXBLOCKS. fblk s' f j \<noteq> 0 \<longrightarrow> a div BLKSIZE \<noteq> fblk s' f j"
proof -
  show "keep s' f a" using w k by (auto simp: wrote_def keep_def)
  show "\<forall>j < MAXBLOCKS. fblk s' f j \<noteq> 0 \<longrightarrow> a div BLKSIZE \<noteq> fblk s' f j"
  proof (intro allI impI)
    fix j
    assume j: "j < MAXBLOCKS" "fblk s' f j \<noteq> 0"
    then have "2 < fblk s' f j" using w data_block_range [of s' "fblk s' f j"] by (auto simp: wrote_def file_ok_def)
    moreover have "fblk s' f j \<noteq> fblk s f j \<longrightarrow> \<not> data_block s (fblk s' f j)" using w j(1) by (simp add: wrote_def)
    ultimately show "a div BLKSIZE \<noteq> fblk s' f j" using k n j by (auto simp: keep_def)
  qed
qed

lemma wrote_trans:
  assumes w: "wrote f lo hi s s'" "wrote f lo hi s' s''"
  shows "wrote f lo hi s s''"
proof -
  have "dm s'' a = dm s a" if "keep s f a" "\<forall>j < MAXBLOCKS. fblk s f j \<noteq> 0 \<longrightarrow> a div BLKSIZE \<noteq> fblk s f j" for a
    using w wrote_keep [OF w(1) that] that by (simp add: wrote_def)
  moreover have "fbyte s'' f p = fbyte s f p" if "fmapped s f p" "\<not> (lo \<le> p \<and> p < hi)" for p
  proof -
    have "fmapped s' f p" using w(1) that(1) div_lt_MAX by (auto simp: wrote_def fmapped_def)
    then show ?thesis using w that by (simp add: wrote_def)
  qed
  moreover have "(fblk s f j \<noteq> 0 \<longrightarrow> fblk s'' f j = fblk s f j) \<and>
      (fblk s'' f j \<noteq> fblk s f j \<longrightarrow> \<not> data_block s (fblk s'' f j))" if "j < MAXBLOCKS" for j
    using w that unfolding wrote_def by metis
  moreover have "(find_ind s f \<noteq> 0 \<longrightarrow> find_ind s'' f = find_ind s f) \<and>
      (find_ind s'' f \<noteq> find_ind s f \<longrightarrow> \<not> data_block s (find_ind s'' f))"
    using w unfolding wrote_def by metis
  ultimately show ?thesis using w by (simp add: wrote_def)
qed

section \<open>Storing inside a block\<close>

lemma store_chunk:
  assumes f: "file_ok s f" and j: "j < MAXBLOCKS" "fblk s f j \<noteq> 0" and o: "q + length vs \<le> BLKSIZE"
    and r: "lo \<le> j * BLKSIZE + q" "j * BLKSIZE + q + length vs \<le> hi"
  defines "s' \<equiv> wr_bytes (fblk s f j * BLKSIZE + q) vs s"
  shows "wrote f lo hi s s'" and "k < MAXBLOCKS \<Longrightarrow> fblk s' f k = fblk s f k"
    and "i < length vs \<Longrightarrow> fbyte s' f (j * BLKSIZE + q + i) = vs ! i"
    and "f_size f s' = f_size f s"
proof -
  let ?b = "fblk s f j"
  have d: "data_block s ?b" "?b \<noteq> f div BLKSIZE" "?b \<noteq> find_ind s f" using f j by (auto simp: file_ok_def)
  have p: "place_ok s f" and ok: "fs_ok s" using f by (simp_all add: file_ok_def)
  have dms: "dm s' a = (if ?b * BLKSIZE + q \<le> a \<and> a < ?b * BLKSIZE + q + length vs then vs ! (a - (?b * BLKSIZE + q)) else dm s a)" for a
    by (simp add: s'_def dm_wr_bytes)
  have out: "dm s' a = dm s a" if "a div BLKSIZE \<noteq> ?b" for a
  proof -
    have "\<not> (?b * BLKSIZE + q \<le> a \<and> a < ?b * BLKSIZE + q + length vs)"
      using that div_block [of ?b a] o by auto
    then show ?thesis by (auto simp: dms)
  qed
  have st: "dm s' a = dm s a" if "f \<le> a" "a < f + 256" for a using struct_range [OF p that] d(2) by (intro out) simp
  have sm: "same_meta s s'" using d(1) by (intro same_metaI [OF ok] out) (auto simp: data_block_def)
  have i: "find_ind s' f = find_ind s f" by (rule find_ind_cong) (rule st; simp)
  show fb: "fblk s' f k = fblk s f k" if "k < MAXBLOCKS" for k
    by (rule fblk_cong [OF _ _ that]) (use st out d(3) in auto)
  show "f_size f s' = f_size f s"
    using rd32_cong [of s' "f + 128" s] st by (simp add: f_size_def)
  show "fbyte s' f (j * BLKSIZE + q + i) = vs ! i" if "i < length vs"
  proof -
    have "(j * BLKSIZE + (q + i)) div BLKSIZE = j" "(j * BLKSIZE + (q + i)) mod BLKSIZE = q + i"
      using that o by (simp_all add: BLKSIZE_def)
    then show ?thesis using that fb [OF j(1)] by (simp add: fbyte_def dms add.assoc)
  qed
  have "file_ok s' f"
    using f i fb same_meta_data [OF sm] same_meta_ok [OF sm ok] by (simp add: file_ok_def place_ok_def)
  moreover have "fbyte s' f x = fbyte s f x" if x: "fmapped s f x" "\<not> (lo \<le> x \<and> x < hi)" for x
  proof -
    let ?k = "x div BLKSIZE"
    have k: "?k < MAXBLOCKS" using x(1) div_lt_MAX by (simp add: fmapped_def)
    show ?thesis
    proof (cases "fblk s f ?k = ?b")
      case False
      then show ?thesis using out [of "fblk s f ?k * BLKSIZE + x mod BLKSIZE"] fblk_addr [of s f ?k x]
        by (simp add: fbyte_def fb [OF k])
    next
      case True
      then have "?k = j" using f j k by (simp add: file_ok_def)
      then have "j * BLKSIZE + x mod BLKSIZE = x" using div_mult_mod_eq [of x BLKSIZE] by simp
      then have "\<not> (q \<le> x mod BLKSIZE \<and> x mod BLKSIZE < q + length vs)" using x(2) r by linarith
      then show ?thesis using True by (auto simp: fbyte_def fb [OF k] dms)
    qed
  qed
  moreover have "s_nblocks s' = s_nblocks s" using sm by (simp add: same_meta_def)
  ultimately show "wrote f lo hi s s'"
    using i fb out j same_meta_data [OF sm] by (simp add: wrote_def)
qed

section \<open>The write loop\<close>

definition MAXFILESIZE :: nat where [jos_consts]: "MAXFILESIZE = 4235264"

lemma MAXFILESIZE_eq: "MAXFILESIZE = MAXBLOCKS * BLKSIZE"
  by (simp add: MAXFILESIZE_def MAXBLOCKS_def BLKSIZE_def)

lemma chunk_nat:
  assumes "n + c \<le> MAXFILESIZE" and "n \<le> p" and "p < n + c"
  shows "chunk (int n) (int c) (int p) = int (min (BLKSIZE - p mod BLKSIZE) (n + c - p))"
proof -
  have "u64i (int n + int c - int p) = int (n + c - p)" using assms by (subst u64i_small) (auto simp: MAXFILESIZE_def)
  moreover have "4096 - int (p mod BLKSIZE) = int (BLKSIZE - p mod BLKSIZE)" by (simp add: BLKSIZE_def)
  ultimately show ?thesis by (simp add: chunk_def sdiv_nat del: of_nat_diff)
qed

lemma write_loop_nat:
  fixes n c p :: nat
  assumes "n + c \<le> MAXFILESIZE" and "n \<le> p" and "p \<le> n + c"
  defines "bn \<equiv> min (BLKSIZE - p mod BLKSIZE) (n + c - p)"
  shows "write_loop f buf (int c) (int n) (int p) s =
    (if n + c \<le> p then Some (int c, s)
     else do {
       (r, blk, s) \<leftarrow> file_get_block f (p div BLKSIZE) s;
       if r < 0 then Some (r, s)
       else write_loop f (\<lambda>k. buf (bn + k)) (int c) (int n) (int (p + bn))
              (wr_bytes (blk + p mod BLKSIZE) (map buf [0..<bn]) s) })"
proof (cases "n + c \<le> p")
  case True
  have "\<not> u64i (int p) < u64i (int n + int c)" using assms True by (simp add: u64i_def MAXFILESIZE_def)
  moreover have "i32 (int c) = int c" using assms by (intro i32_small) (simp_all add: MAXFILESIZE_def)
  ultimately show ?thesis using True by (subst write_loop.simps) simp
next
  case False
  then have ch: "chunk (int n) (int c) (int p) = int bn" unfolding bn_def using assms by (intro chunk_nat) auto
  have u: "u64i (int p) < u64i (int n + int c)" using assms False by (simp add: u64i_def MAXFILESIZE_def)
  have d: "nat (u32i (int p sdiv 4096)) = p div BLKSIZE" using assms False
    by (simp add: sdiv_nat u32i_def MAXFILESIZE_def BLKSIZE_def)
  have i: "i32 (int p + int bn) = int (p + bn)" using assms False by (intro i32_small [THEN trans]) (auto simp: MAXFILESIZE_def)
  have a: "nat (int blk + int p smod 4096) = blk + p mod BLKSIZE" for blk by (simp add: sdiv_nat nat_add_distrib)
  show ?thesis using False by (subst write_loop.simps) (simp add: u d ch i a Let_def cong: if_cong)
qed

definition written :: "nat \<Rightarrow> nat \<Rightarrow> nat \<Rightarrow> (nat \<Rightarrow> u8) \<Rightarrow> fsm \<Rightarrow> bool" where
  "written f lo hi buf s \<longleftrightarrow> (\<forall>p. lo \<le> p \<longrightarrow> p < hi \<longrightarrow> fmapped s f p \<and> fbyte s f p = buf (p - lo))"

lemma wrote_size:
  assumes f: "file_ok s f" and w: "wrote f lo hi s s'"
  shows "f_size f s' = f_size f s"
proof -
  have p: "place_ok s f" using f by (simp add: file_ok_def)
  have "dm s' a = dm s a" if a: "f + 128 \<le> a" "a < f + 132" for a
  proof -
    have b: "a div BLKSIZE = f div BLKSIZE" using a by (intro struct_range [OF p]) auto
    have "keep s f a" using a b p f by (auto simp: keep_def place_ok_def file_ok_def)
    moreover have "\<forall>j < MAXBLOCKS. fblk s f j \<noteq> 0 \<longrightarrow> a div BLKSIZE \<noteq> fblk s f j" using f b by (auto simp: file_ok_def)
    ultimately show ?thesis using w by (simp add: wrote_def)
  qed
  then show ?thesis using rd32_cong [of s' "f + 128" s] by (simp add: f_size_def)
qed

lemma write_chunk:
  fixes n c p :: nat
  assumes f: "file_ok s f" and r: "n + c \<le> MAXFILESIZE" "n \<le> p" "p < n + c"
  defines "bn \<equiv> min (BLKSIZE - p mod BLKSIZE) (n + c - p)"
  shows "(\<exists>s'. write_loop f buf (int c) (int n) (int p) s = Some (- E_NO_DISK, s') \<and> wrote f p (n + c) s s') \<or>
    (\<exists>s'. write_loop f buf (int c) (int n) (int p) s = write_loop f (\<lambda>k. buf (bn + k)) (int c) (int n) (int (p + bn)) s' \<and>
      wrote f p (n + c) s s' \<and> written f p (p + bn) buf s')"
proof -
  let ?j = "p div BLKSIZE"
  have j: "?j < MAXBLOCKS" using r by (intro div_lt_MAX) (simp add: MAXFILESIZE_eq)
  have bn: "bn \<le> BLKSIZE - p mod BLKSIZE" "p + bn \<le> n + c" "p mod BLKSIZE < BLKSIZE"
    using r by (auto simp: bn_def BLKSIZE_def)
  have e: "?j * BLKSIZE + p mod BLKSIZE = p" by simp
  note l = write_loop_nat [OF r(1,2) less_imp_le [OF r(3)], folded bn_def, of f buf s]
  obtain s1 where k: "kept f s s1" and g: "file_get_block f ?j s = Some (- E_NO_DISK, 0, s1) \<or>
      file_get_block f ?j s = Some (0, fblk s1 f ?j * BLKSIZE, s1) \<and> fblk s1 f ?j \<noteq> 0"
    using file_get_block_spec [OF f j] by blast
  have w1: "wrote f p (n + c) s s1" by (rule kept_wrote [OF f k])
  from g show ?thesis
  proof
    assume "file_get_block f ?j s = Some (- E_NO_DISK, 0, s1)"
    then show ?thesis using l r(3) w1 by (auto simp: E_NO_DISK_def)
  next
    assume g: "file_get_block f ?j s = Some (0, fblk s1 f ?j * BLKSIZE, s1) \<and> fblk s1 f ?j \<noteq> 0"
    let ?s = "wr_bytes (fblk s1 f ?j * BLKSIZE + p mod BLKSIZE) (map buf [0..<bn]) s1"
    have f1: "file_ok s1 f" using k by (simp add: kept_def)
    have q: "p mod BLKSIZE + length (map buf [0..<bn]) \<le> BLKSIZE" using bn by simp
    have lh: "p \<le> ?j * BLKSIZE + p mod BLKSIZE" "?j * BLKSIZE + p mod BLKSIZE + length (map buf [0..<bn]) \<le> n + c"
      unfolding e using r bn by simp_all
    note sc = store_chunk [OF f1 j _ q lh]
    have "fmapped ?s f x \<and> fbyte ?s f x = buf (x - p)" if x: "p \<le> x" "x < p + bn" for x
    proof -
      have "x div BLKSIZE = ?j" using x bn e by (intro div_block) linarith+
      then show ?thesis
        using sc(2) [OF conjunct2 [OF g] j] sc(3) [OF conjunct2 [OF g], of "x - p"] g x r bn unfolding e
        by (simp add: fmapped_def MAXFILESIZE_eq)
    qed
    then have "written f p (p + bn) buf ?s" by (simp add: written_def)
    moreover have "wrote f p (n + c) s ?s" by (rule wrote_trans [OF w1 sc(1)]) (use g in simp)
    ultimately show ?thesis using l r(3) g by auto
  qed
qed

lemma wrote_weaken: "wrote f lo' hi s s' \<Longrightarrow> lo \<le> lo' \<Longrightarrow> wrote f lo hi s s'"
  by (auto simp: wrote_def)

lemma wrote_refl: "file_ok s f \<Longrightarrow> wrote f lo hi s s"
  by (simp add: wrote_def)

lemma write_loop_spec:
  fixes n c p :: nat
  assumes f: "file_ok s f" and r: "n + c \<le> MAXFILESIZE" "n \<le> p" "p \<le> n + c"
  shows "\<exists>res s'. write_loop f buf (int c) (int n) (int p) s = Some (res, s') \<and> wrote f p (n + c) s s' \<and>
    (res = - E_NO_DISK \<or> res = int c \<and> written f p (n + c) buf s')"
  using f r(2,3)
proof (induction "n + c - p" arbitrary: p buf s rule: less_induct)
  case less
  show ?case
  proof (cases "n + c \<le> p")
    case True
    then show ?thesis
      using write_loop_nat [OF r(1) less.prems(2,3), of f buf s] wrote_refl [OF less.prems(1)] less.prems(3)
      by (simp add: written_def)
  next
    case False
    then have pl: "p < n + c" by simp
    define bn where "bn = min (BLKSIZE - p mod BLKSIZE) (n + c - p)"
    have bn: "0 < bn" "p + bn \<le> n + c" using False by (auto simp: bn_def BLKSIZE_def)
    from write_chunk [OF less.prems(1) r(1) less.prems(2) pl, folded bn_def]
    consider (err) s' where "write_loop f buf (int c) (int n) (int p) s = Some (- E_NO_DISK, s')" "wrote f p (n + c) s s'"
      | (ok) s1 where "write_loop f buf (int c) (int n) (int p) s =
            write_loop f (\<lambda>k. buf (bn + k)) (int c) (int n) (int (p + bn)) s1"
          "wrote f p (n + c) s s1" "written f p (p + bn) buf s1"
      by blast
    then show ?thesis
    proof cases
      case ok
      have f1: "file_ok s1 f" using ok(2) by (simp add: wrote_def)
      have dec: "n + c - (p + bn) < n + c - p" "n \<le> p + bn" using bn pl less.prems(2) by linarith+
      obtain res s2 where s2: "write_loop f (\<lambda>k. buf (bn + k)) (int c) (int n) (int (p + bn)) s1 = Some (res, s2)"
          "wrote f (p + bn) (n + c) s1 s2"
          "res = - E_NO_DISK \<or> res = int c \<and> written f (p + bn) (n + c) (\<lambda>k. buf (bn + k)) s2"
        using less.hyps [OF dec(1) f1 dec(2) bn(2), of "\<lambda>k. buf (bn + k)"] by blast
      have "wrote f p (n + c) s s2" using wrote_trans [OF ok(2) wrote_weaken [OF s2(2)]] by simp
      moreover have "written f p (n + c) buf s2" if "written f (p + bn) (n + c) (\<lambda>k. buf (bn + k)) s2"
        unfolding written_def
      proof (intro allI impI)
        fix x
        assume x: "p \<le> x" "x < n + c"
        show "fmapped s2 f x \<and> fbyte s2 f x = buf (x - p)"
        proof (cases "x < p + bn")
          case True
          then have m: "fmapped s1 f x" "fbyte s1 f x = buf (x - p)" using ok(3) x by (auto simp: written_def)
          then show ?thesis using s2(2) True div_lt_MAX by (auto simp: wrote_def fmapped_def)
        next
          case False
          then show ?thesis using that x by (auto simp: written_def)
        qed
      qed
      ultimately show ?thesis using ok(1) s2 by auto
    qed auto
  qed
qed

section \<open>The read loop\<close>

lemma read_loop_nat:
  fixes n c p :: nat
  assumes "n + c \<le> MAXFILESIZE" and "n \<le> p" and "p \<le> n + c"
  defines "bn \<equiv> min (BLKSIZE - p mod BLKSIZE) (n + c - p)"
  shows "read_loop f (int c) (int n) (int p) buf s =
    (if n + c \<le> p then Some (int c, buf, s)
     else do {
       (r, blk, s) \<leftarrow> file_get_block f (p div BLKSIZE) s;
       if r < 0 then Some (r, buf, s)
       else read_loop f (int c) (int n) (int (p + bn)) (buf @ map (\<lambda>k. dm s (blk + p mod BLKSIZE + k)) [0..<bn]) s })"
proof (cases "n + c \<le> p")
  case True
  have "\<not> u64i (int p) < u64i (int n + int c)" using assms True by (simp add: u64i_def MAXFILESIZE_def)
  moreover have "i32 (int c) = int c" using assms by (intro i32_small) (simp_all add: MAXFILESIZE_def)
  ultimately show ?thesis using True by (subst read_loop.simps) simp
next
  case False
  then have ch: "chunk (int n) (int c) (int p) = int bn" unfolding bn_def using assms by (intro chunk_nat) auto
  have u: "u64i (int p) < u64i (int n + int c)" using assms False by (simp add: u64i_def MAXFILESIZE_def)
  have d: "nat (u32i (int p sdiv 4096)) = p div BLKSIZE" using assms False
    by (simp add: sdiv_nat u32i_def MAXFILESIZE_def BLKSIZE_def)
  have i: "i32 (int p + int bn) = int (p + bn)" using assms False by (intro i32_small [THEN trans]) (auto simp: MAXFILESIZE_def)
  have a: "nat (int blk + int p smod 4096) = blk + p mod BLKSIZE" for blk by (simp add: sdiv_nat nat_add_distrib)
  show ?thesis using False by (subst read_loop.simps) (simp add: u d ch i a Let_def cong: if_cong)
qed

lemma read_loop_spec:
  fixes n c p :: nat
  assumes f: "file_ok s f" and r: "n + c \<le> MAXFILESIZE" "n \<le> p" "p \<le> n + c"
    and m: "\<And>x. p \<le> x \<Longrightarrow> x < n + c \<Longrightarrow> fmapped s f x"
  shows "read_loop f (int c) (int n) (int p) buf s = Some (int c, buf @ map (fbyte s f) [p..<n + c], s)"
  using r(2,3) m
proof (induction "n + c - p" arbitrary: p buf rule: less_induct)
  case less
  note l = read_loop_nat [OF r(1) less.prems(1,2), of f buf s]
  show ?case
  proof (cases "n + c \<le> p")
    case True
    then show ?thesis using l by simp
  next
    case False
    then have pl: "p < n + c" by simp
    let ?j = "p div BLKSIZE"
    define bn where "bn = min (BLKSIZE - p mod BLKSIZE) (n + c - p)"
    have bn: "0 < bn" "p + bn \<le> n + c" "bn \<le> BLKSIZE - p mod BLKSIZE" using False by (auto simp: bn_def BLKSIZE_def)
    have j: "?j < MAXBLOCKS" "fblk s f ?j \<noteq> 0" using less.prems(3) [of p] pl div_lt_MAX by (auto simp: fmapped_def)
    have e: "?j * BLKSIZE + p mod BLKSIZE = p" by simp
    have "dm s (fblk s f ?j * BLKSIZE + p mod BLKSIZE + k) = fbyte s f (p + k)" if "k < bn" for k
    proof -
      have "(p + k) div BLKSIZE = ?j" using that bn e by (intro div_block) linarith+
      moreover have "(p + k) mod BLKSIZE = p mod BLKSIZE + k"
        using that bn(3) mod_less [of "p mod BLKSIZE + k" BLKSIZE] mod_add_left_eq [of p BLKSIZE k] by simp
      ultimately show ?thesis by (simp add: fbyte_def add.assoc)
    qed
    then have "map (\<lambda>k. dm s (fblk s f ?j * BLKSIZE + p mod BLKSIZE + k)) [0..<bn] = map (fbyte s f) [p..<p + bn]"
      by (intro nth_equalityI) simp_all
    then have "read_loop f (int c) (int n) (int p) buf s =
        read_loop f (int c) (int n) (int (p + bn)) (buf @ map (fbyte s f) [p..<p + bn]) s"
      using l False file_get_block_mapped [OF f j] by (simp add: bn_def [symmetric])
    also have "\<dots> = Some (int c, (buf @ map (fbyte s f) [p..<p + bn]) @ map (fbyte s f) [p + bn..<n + c], s)"
      by (rule less.hyps) (use bn less.prems pl in auto)
    finally have "read_loop f (int c) (int n) (int p) buf s = \<dots>" .
    moreover have "[p..<p + bn] @ [p + bn..<n + c] = [p..<n + c]"
      using upt_add_eq_append [of p "p + bn" "n + c - (p + bn)"] bn by simp
    then have "map (fbyte s f) [p..<p + bn] @ map (fbyte s f) [p + bn..<n + c] = map (fbyte s f) [p..<n + c]"
      by (metis map_append)
    ultimately show ?thesis by simp
  qed
qed

section \<open>The size field and the disk\<close>

lemma disk_irrelevant [simp]:
  "rd32 a (s\<lparr>disk := d\<rparr>) = rd32 a s" "s_nblocks (s\<lparr>disk := d\<rparr>) = s_nblocks s" "first_data (s\<lparr>disk := d\<rparr>) = first_data s"
  "is_free (s\<lparr>disk := d\<rparr>) b = is_free s b" "data_block (s\<lparr>disk := d\<rparr>) b = data_block s b"
  "find_ind (s\<lparr>disk := d\<rparr>) f = find_ind s f" "fblk (s\<lparr>disk := d\<rparr>) f j = fblk s f j"
  "f_size f (s\<lparr>disk := d\<rparr>) = f_size f s" "fbyte (s\<lparr>disk := d\<rparr>) f p = fbyte s f p"
proof -
  show r: "rd32 a (s\<lparr>disk := d\<rparr>) = rd32 a s" for a by (simp add: rd32_def)
  show n: "s_nblocks (s\<lparr>disk := d\<rparr>) = s_nblocks s" by (simp add: s_nblocks_def r)
  show fd: "first_data (s\<lparr>disk := d\<rparr>) = first_data s" by (simp add: first_data_def n)
  show fr: "is_free (s\<lparr>disk := d\<rparr>) b = is_free s b" by (simp add: is_free_def r)
  show "data_block (s\<lparr>disk := d\<rparr>) b = data_block s b" by (simp add: data_block_def n fd fr)
  show i: "find_ind (s\<lparr>disk := d\<rparr>) f = find_ind s f" by (simp add: find_ind_def r)
  show fb: "fblk (s\<lparr>disk := d\<rparr>) f j = fblk s f j" for j by (simp add: fblk_def slot_def i r)
  show "f_size f (s\<lparr>disk := d\<rparr>) = f_size f s" by (simp add: f_size_def r)
  show "fbyte (s\<lparr>disk := d\<rparr>) f p = fbyte s f p" by (simp add: fbyte_def fb)
qed

lemma disk_irrelevant_ok [simp]: "fs_ok (s\<lparr>disk := d\<rparr>) = fs_ok s" "place_ok (s\<lparr>disk := d\<rparr>) f = place_ok s f" "file_ok (s\<lparr>disk := d\<rparr>) f = file_ok s f"
  by (simp_all add: fs_ok_def place_ok_def file_ok_def)

lemma file_in_disk: "file_ok s f \<Longrightarrow> f < DISKSIZE"
proof -
  assume f: "file_ok s f"
  define q where "q = f div BLKSIZE"
  have "q < s_nblocks s"
    using f data_block_range [of s q] fs_ok_two [of s] by (auto simp: file_ok_def place_ok_def q_def)
  then have "(q + 1) * BLKSIZE \<le> s_nblocks s * BLKSIZE" by (intro mult_right_mono) auto
  moreover have "s_nblocks s * BLKSIZE \<le> DISKSIZE" using f by (simp add: file_ok_def fs_ok_def)
  moreover have "f < (q + 1) * BLKSIZE" by (simp add: q_def BLKSIZE_def)
  ultimately show ?thesis by linarith
qed

lemma fs_flush_file: "file_ok s f \<Longrightarrow> fs_flush f s = Some (s\<lparr>disk := flush_flat BLKSIZE f (dm s) (disk s)\<rparr>)"
  using file_in_disk [of s f] by (simp add: fs_flush_def)

lemma set_f_size_spec:
  assumes f: "file_ok s f"
  shows "file_ok (set_f_size f v s) f" and "- (2 ^ 31) \<le> v \<Longrightarrow> v < 2 ^ 31 \<Longrightarrow> f_size f (set_f_size f v s) = v"
    and "find_ind (set_f_size f v s) f = find_ind s f" and "k < MAXBLOCKS \<Longrightarrow> fblk (set_f_size f v s) f k = fblk s f k"
    and "\<not> (f + 128 \<le> a \<and> a < f + 132) \<Longrightarrow> dm (set_f_size f v s) a = dm s a" and "same_meta s (set_f_size f v s)"
proof -
  let ?s = "set_f_size f v s"
  have p: "place_ok s f" and ok: "fs_ok s" using f by (simp_all add: file_ok_def)
  show "f_size f ?s = v" if "- (2 ^ 31) \<le> v" "v < 2 ^ 31"
    using that signed_take_bit_int_eq_self [of 31 v] by (simp add: f_size_def set_f_size_def sint_sbintrunc')
  show d: "dm ?s a = dm s a" if "\<not> (f + 128 \<le> a \<and> a < f + 132)" for a
    unfolding set_f_size_def by (rule dm_wr32) (use that in auto)
  show sm: "same_meta s ?s" using struct_meta [OF p] by (intro same_metaI [OF ok] d) force
  show i: "find_ind ?s f = find_ind s f" by (rule find_ind_cong) (rule d; simp)
  show b: "fblk ?s f k = fblk s f k" if "k < MAXBLOCKS" for k
  proof (rule fblk_cong [OF _ _ that])
    show "dm ?s a = dm s a" if "find_ind s f \<noteq> 0" "a div BLKSIZE = find_ind s f" for a
      using struct_range [OF p, of a] that f by (intro d) (auto simp: file_ok_def)
  qed (rule d; simp)
  show "file_ok ?s f" using f i b same_meta_data [OF sm] same_meta_ok [OF sm ok] by (simp add: file_ok_def place_ok_def)
qed

section \<open>Whole operations\<close>

lemma file_write_spec:
  fixes n c :: nat
  assumes f: "file_ok s f" and z: "0 \<le> f_size f s" and r: "n + c \<le> MAXFILESIZE"
  shows "\<exists>s1 res s'. file_write f buf (int c) (int n) s = Some (res, s') \<and> wrote f n (n + c) s1 s' \<and>
    (res = - E_NO_DISK \<or> res = int c \<and> written f n (n + c) buf s') \<and>
    f_size f s' = max (f_size f s) (int (n + c)) \<and>
    (s1 = s \<or> (\<exists>d. s1 = (set_f_size f (int (n + c)) s)\<lparr>disk := d\<rparr>))"
proof -
  have zr: "f_size f s < 2 ^ 31" unfolding f_size_def using sint_lt [of "rd32 (f + 128) s"] by simp
  have u: "u64i (f_size f s) = f_size f s" "u64i (int n + int c) = int (n + c)" "i32 (int n + int c) = int (n + c)"
    using z zr r by (simp_all add: u64i_def i32_def MAXFILESIZE_def)
  define s1 where "s1 = (if f_size f s < int (n + c)
     then (let t = set_f_size f (int (n + c)) s in t\<lparr>disk := flush_flat BLKSIZE f (dm t) (disk t)\<rparr>) else s)"
  have f1: "file_ok s1 f" and sz: "f_size f s1 = max (f_size f s) (int (n + c))"
    using set_f_size_spec(1,2) [OF f, of "int (n + c)"] f r by (auto simp: s1_def Let_def MAXFILESIZE_def)
  have w: "file_write f buf (int c) (int n) s = write_loop f buf (int c) (int n) (int n) s1"
    using u fs_flush_file [OF set_f_size_spec(1) [OF f, of "int (n + c)"]]
    by (simp add: file_write_def file_set_size_def s1_def Let_def)
  obtain res s' where s': "write_loop f buf (int c) (int n) (int n) s1 = Some (res, s')" "wrote f n (n + c) s1 s'"
      "res = - E_NO_DISK \<or> res = int c \<and> written f n (n + c) buf s'"
    using write_loop_spec [OF f1 r, of n buf] by auto
  have "s1 = s \<or> (\<exists>d. s1 = (set_f_size f (int (n + c)) s)\<lparr>disk := d\<rparr>)" by (auto simp: s1_def Let_def)
  then show ?thesis using w s' sz wrote_size [OF f1 s'(2)] by metis
qed

lemma file_read_spec:
  fixes n c z :: nat
  assumes f: "file_ok s f" and z: "f_size f s = int z" "z \<le> MAXFILESIZE" and nc: "c < 2 ^ 64"
    and m: "\<And>x. n \<le> x \<Longrightarrow> x < min z (n + c) \<Longrightarrow> fmapped s f x"
  shows "file_read f (int c) (int n) s = Some (int (min z (n + c) - n), map (fbyte s f) [n..<min z (n + c)], s)"
proof (cases "z \<le> n")
  case True
  then show ?thesis using z by (simp add: file_read_def)
next
  case False
  then have zn: "n < z" by simp
  define c' where "c' = min c (z - n)"
  have e: "min z (n + c) = n + c'" using zn by (auto simp: c'_def)
  have "u64i (i32 (int z - int n)) = int (z - n)" using zn z(2) by (simp add: i32_def u64i_def MAXFILESIZE_def)
  then have "min (int c) (u64i (i32 (f_size f s - int n))) = int c'" by (simp add: z(1) c'_def)
  then have "file_read f (int c) (int n) s = read_loop f (int c') (int n) (int n) [] s"
    using zn z by (simp add: file_read_def)
  also have "\<dots> = Some (int c', [] @ map (fbyte s f) [n..<n + c'], s)"
    by (rule read_loop_spec [OF f]) (use zn z(2) m e in \<open>auto simp: c'_def\<close>)
  finally show ?thesis by (simp add: e)
qed

text \<open>Setting the size changes nothing else of the file.\<close>

lemma sized_same:
  assumes f: "file_ok s f" and s1: "s1 = s \<or> (\<exists>v d. s1 = (set_f_size f v s)\<lparr>disk := d\<rparr>)"
  shows "file_ok s1 f" and "find_ind s1 f = find_ind s f" and "j < MAXBLOCKS \<Longrightarrow> fblk s1 f j = fblk s f j"
    and "data_block s1 b = data_block s b" and "s_nblocks s1 = s_nblocks s"
    and "\<not> (f + 128 \<le> a \<and> a < f + 132) \<Longrightarrow> dm s1 a = dm s a"
    and "fmapped s1 f p = fmapped s f p" and "fmapped s f p \<Longrightarrow> fbyte s1 f p = fbyte s f p"
proof -
  note z = set_f_size_spec [OF f]
  show "file_ok s1 f" using s1 f z(1) by auto
  show "find_ind s1 f = find_ind s f" using s1 z(3) by auto
  show b: "j < MAXBLOCKS \<Longrightarrow> fblk s1 f j = fblk s f j" for j using s1 z(4) by auto
  show "data_block s1 b = data_block s b" using s1 same_meta_data [OF z(6)] by auto
  show "s_nblocks s1 = s_nblocks s" using s1 z(6) by (auto simp: same_meta_def)
  show d: "\<not> (f + 128 \<le> a \<and> a < f + 132) \<Longrightarrow> dm s1 a = dm s a" for a using s1 z(5) by auto
  show "fmapped s1 f p = fmapped s f p" using b div_lt_MAX by (auto simp: fmapped_def)
  assume m: "fmapped s f p"
  then have j: "p div BLKSIZE < MAXBLOCKS" "fblk s f (p div BLKSIZE) \<noteq> 0" using div_lt_MAX by (auto simp: fmapped_def)
  let ?a = "fblk s f (p div BLKSIZE) * BLKSIZE + p mod BLKSIZE"
  have "fblk s f (p div BLKSIZE) \<noteq> f div BLKSIZE" "place_ok s f" using f j by (simp_all add: file_ok_def)
  then have "\<not> (f + 128 \<le> ?a \<and> ?a < f + 132)" using fblk_addr [of s f "p div BLKSIZE" p] struct_range [of s f ?a] by auto
  then show "fbyte s1 f p = fbyte s f p" using d b [OF j(1)] by (simp add: fbyte_def)
qed

text \<open>A write that is complete is read back.\<close>

lemma write_read_back:
  fixes n c :: nat
  assumes "file_ok s f" and "0 \<le> f_size f s" and "n + c \<le> MAXFILESIZE" and "f_size f s \<le> int MAXFILESIZE"
  shows "\<exists>res s'. file_write f buf (int c) (int n) s = Some (res, s') \<and> file_ok s' f \<and>
    f_size f s' = max (f_size f s) (int (n + c)) \<and>
    (\<forall>p. fmapped s f p \<longrightarrow> \<not> (n \<le> p \<and> p < n + c) \<longrightarrow> fmapped s' f p \<and> fbyte s' f p = fbyte s f p) \<and>
    (res = - E_NO_DISK \<or>
     res = int c \<and> file_read f (int c) (int n) s' = Some (int c, map buf [0..<c], s'))"
proof -
  obtain s1 res s' where w: "file_write f buf (int c) (int n) s = Some (res, s')" "wrote f n (n + c) s1 s'"
      "res = - E_NO_DISK \<or> res = int c \<and> written f n (n + c) buf s'" "f_size f s' = max (f_size f s) (int (n + c))"
      "s1 = s \<or> (\<exists>d. s1 = (set_f_size f (int (n + c)) s)\<lparr>disk := d\<rparr>)"
    using file_write_spec [OF assms(1-3), of buf] by blast
  have "s1 = s \<or> (\<exists>v d. s1 = (set_f_size f v s)\<lparr>disk := d\<rparr>)" using w(5) by blast
  note z = sized_same [OF assms(1) this]
  have ok: "file_ok s' f" using w(2) by (simp add: wrote_def)
  have keep: "fmapped s' f p \<and> fbyte s' f p = fbyte s f p" if p: "fmapped s f p" "\<not> (n \<le> p \<and> p < n + c)" for p
  proof -
    have "fmapped s1 f p" using z(7) p(1) by simp
    then have "fmapped s' f p \<and> fbyte s' f p = fbyte s1 f p"
      using w(2) p(2) div_lt_MAX by (auto simp: wrote_def fmapped_def)
    then show ?thesis using z(8) p(1) by simp
  qed
  have "file_read f (int c) (int n) s' = Some (int c, map buf [0..<c], s')" if wr: "written f n (n + c) buf s'"
  proof -
    define z where "z = nat (f_size f s')"
    have zz: "f_size f s' = int z" "z \<le> MAXFILESIZE" "n + c \<le> z" using w(4) assms(2-4) by (auto simp: z_def)
    have "min z (n + c) = n + c" "c < 2 ^ 64" using zz(3) assms(3) by (simp_all add: MAXFILESIZE_def)
    moreover have "map (fbyte s' f) [n..<n + c] = map buf [0..<c]"
      by (rule nth_equalityI) (use wr in \<open>auto simp: written_def\<close>)
    ultimately show ?thesis using file_read_spec [OF ok zz(1,2), of c n] wr by (simp add: written_def)
  qed
  then show ?thesis using w(1,3,4) ok keep by auto
qed

end
