(* ===== verification/Fs_Trunc.thy ===== *)
theory Fs_Trunc
  imports Fs_RW
begin

text \<open>Freeing blocks: \<open>file_free_block\<close>, \<open>file_truncate_blocks\<close> and \<open>file_set_size\<close>.\<close>

section \<open>Freeing a block that the file does not use any more\<close>

text \<open>What an operation that frees the blocks \<open>B\<close> of a file keeps.\<close>

definition freed :: "nat \<Rightarrow> nat set \<Rightarrow> fsm \<Rightarrow> fsm \<Rightarrow> bool" where
  "freed f B s s' \<longleftrightarrow> file_ok s' f \<and> s_nblocks s' = s_nblocks s \<and> (\<forall>c < s_nblocks s. is_free s' c \<longleftrightarrow> is_free s c \<or> c \<in> B) \<and>
     (\<forall>a. keep s f a \<longrightarrow> a div BLKSIZE \<notin> B \<longrightarrow> dm s' a = dm s a) \<and> B \<subseteq> Collect (data_block s) \<and>
     (find_ind s' f = find_ind s f \<or> find_ind s' f = 0)"

lemma freed_trans:
  assumes "freed f A s s'" and "freed f B s' s''"
  shows "freed f (A \<union> B) s s''"
proof -
  have fd: "first_data s' = first_data s" using assms by (simp add: freed_def first_data_def)
  have db: "data_block s' c \<longleftrightarrow> data_block s c \<and> c \<notin> A" for c
    using assms(1) fd by (auto simp: freed_def data_block_def)
  have "dm s'' a = dm s a" if a: "keep s f a" "a div BLKSIZE \<notin> A \<union> B" for a
  proof -
    have "keep s' f a" using a assms(1) db data_block_range [of s 0] by (auto simp: keep_def freed_def)
    then show ?thesis using a assms by (simp add: freed_def)
  qed
  moreover have "A \<union> B \<subseteq> Collect (data_block s)" using assms db by (auto simp: freed_def)
  ultimately show ?thesis using assms by (auto simp: freed_def)
qed

lemma same_meta_freed:
  assumes "file_ok s' f" and "same_meta s s'" and "\<And>a. keep s f a \<Longrightarrow> dm s' a = dm s a"
    and "find_ind s' f = find_ind s f \<or> find_ind s' f = 0"
  shows "freed f {} s s'"
  using assms by (simp add: freed_def same_meta_def)

lemma freed_refl: "file_ok s f \<Longrightarrow> freed f {} s s"
  by (simp add: freed_def)

lemma free_unused:
  assumes f: "file_ok s f" and b: "unused s f b"
  shows "\<exists>s'. free_block b s = Some s' \<and> freed f {b} s s' \<and> find_ind s' f = find_ind s f \<and>
    (\<forall>j < MAXBLOCKS. fblk s' f j = fblk s f j)"
proof -
  have ok: "fs_ok s" and d: "data_block s b" using f b by (simp_all add: file_ok_def unused_def)
  obtain s' where s': "free_block b s = Some s'" "fs_ok s'" "bitmap_only s s'" "\<forall>c. is_free s' c \<longleftrightarrow> is_free s c \<or> c = b"
    using free_block_spec [OF ok d] by blast
  note m = bitmap_only_map [OF f s'(3)] outside_bitmap [OF s'(3)]
  have db: "data_block s' c \<longleftrightarrow> data_block s c \<and> c \<noteq> b" for c
    using s'(4) by (auto simp: data_block_def bitmap_only_nblocks [OF s'(3)] bitmap_only_first [OF s'(3)])
  have "place_ok s' f" using f b db by (auto simp: file_ok_def place_ok_def unused_def)
  then have "file_ok s' f" using f b db m(1,2) s'(2) unfolding file_ok_def unused_def by simp
  moreover have "\<forall>a. keep s f a \<longrightarrow> dm s' a = dm s a" using m(3) by (auto simp: keep_def)
  ultimately show ?thesis
    using s' m(1,2) d bitmap_only_nblocks [OF s'(3)] by (auto simp: freed_def)
qed

text \<open>Emptying a slot or the indirect pointer.\<close>

lemma clear_slot:
  assumes f: "file_ok s f" and j: "j < MAXBLOCKS" "j < NDIRECT \<or> find_ind s f \<noteq> 0"
  defines "s' \<equiv> wr32 (slot s f j) 0 s"
  shows "file_ok s' f" and "find_ind s' f = find_ind s f" and "k < MAXBLOCKS \<Longrightarrow> fblk s' f k = (if k = j then 0 else fblk s f k)"
    and "keep s f a \<Longrightarrow> dm s' a = dm s a" and "same_meta s s'"
proof -
  have ok: "fs_ok s" using f by (simp add: file_ok_def)
  note ss = set_slot [OF f j, where v = 0, folded s'_def]
  show sm: "same_meta s s'" unfolding s'_def by (rule set_slot_meta [OF f j])
  show fi: "find_ind s' f = find_ind s f" by (rule ss(1))
  show fb: "k < MAXBLOCKS \<Longrightarrow> fblk s' f k = (if k = j then 0 else fblk s f k)" for k using ss(2) by simp
  show "keep s f a \<Longrightarrow> dm s' a = dm s a" by (rule ss(3))
  have "place_ok s' f" using f same_meta_data [OF sm] by (simp add: file_ok_def place_ok_def)
  then show "file_ok s' f"
    using f fi fb same_meta_data [OF sm] same_meta_ok [OF sm ok] unfolding file_ok_def by simp
qed

lemma clear_indirect:
  assumes f: "file_ok s f"
  defines "s' \<equiv> wr32 (f_indirect f) 0 s"
  shows "file_ok s' f" and "find_ind s' f = 0" and "k < MAXBLOCKS \<Longrightarrow> fblk s' f k = (if k < NDIRECT then fblk s f k else 0)"
    and "keep s f a \<Longrightarrow> dm s' a = dm s a" and "same_meta s s'"
proof -
  have ok: "fs_ok s" and p: "place_ok s f" using f by (simp_all add: file_ok_def)
  have d: "dm s' a = dm s a" if "\<not> (f + 176 \<le> a \<and> a < f + 180)" for a
    unfolding s'_def by (rule dm_wr32) (use that in \<open>auto simp: f_indirect_def\<close>)
  show sm: "same_meta s s'" using struct_meta [OF p] by (intro same_metaI [OF ok] d) force
  show fi: "find_ind s' f = 0" by (simp add: find_ind_def s'_def)
  show fb: "fblk s' f k = (if k < NDIRECT then fblk s f k else 0)" if "k < MAXBLOCKS" for k
  proof (cases "k < NDIRECT")
    case True
    have "rd32 (slot s f k) s' = rd32 (slot s f k) s"
      using slot_range(1) [OF that True, of f s] by (intro rd32_cong d) auto
    then show ?thesis using True by (simp add: fblk_def slot_def)
  qed (simp add: fblk_def fi)
  show "keep s f a \<Longrightarrow> dm s' a = dm s a" by (rule d) (auto simp: keep_def)
  have "place_ok s' f" using f same_meta_data [OF sm] by (simp add: file_ok_def place_ok_def)
  then show "file_ok s' f"
    using f fi fb same_meta_data [OF sm] same_meta_ok [OF sm ok] unfolding file_ok_def by (simp split: if_splits)
qed

section \<open>The order of the two stores\<close>

lemma wr32_commute:
  assumes "a + 4 \<le> c \<or> c + 4 \<le> a"
  shows "wr32 a v (wr32 c w s) = wr32 c w (wr32 a v s)"
proof -
  have "upd_bytes a (bytes32 v) (upd_bytes c (bytes32 w) m) = upd_bytes c (bytes32 w) (upd_bytes a (bytes32 v) m)" for m
    using assms by (auto simp: upd_bytes_def fun_eq_iff)
  then show ?thesis by (simp add: wr32_def wr_bytes_def)
qed

text \<open>The code first sets the bit of the block and then clears the pointer to it; a word outside the bitmap.\<close>

lemma free_then_clear:
  assumes b: "b < s_nblocks s" and x: "x + 4 \<le> 2 * BLKSIZE \<or> first_data s * BLKSIZE \<le> x"
    and t: "free_block b (wr32 x 0 s) = Some t"
  shows "\<exists>s1. free_block b s = Some s1 \<and> wr32 x 0 s1 = t"
proof -
  have d: "x + 4 \<le> bitmap_word b \<or> bitmap_word b + 4 \<le> x" using bitmap_word_range [OF b] x by linarith
  then have "rd32 (bitmap_word b) (wr32 x 0 s) = rd32 (bitmap_word b) s" by (intro rd32_wr32_other) auto
  then show ?thesis using t wr32_commute [OF d] by (auto simp: free_block_def split: if_splits)
qed

lemma struct_word:
  assumes "place_ok s f" and "x + 4 \<le> 256"
  shows "f + x + 4 \<le> 2 * BLKSIZE \<or> first_data s * BLKSIZE \<le> f + x"
proof -
  define q where "q = f div BLKSIZE"
  have r: "q * BLKSIZE \<le> f" "f + 256 \<le> q * BLKSIZE + BLKSIZE"
    using assms(1) div_mult_mod_eq [of f BLKSIZE] unfolding place_ok_def q_def by linarith+
  consider "q = 1" | "first_data s \<le> q" using assms(1) by (auto simp: place_ok_def data_block_def q_def)
  then show ?thesis
  proof cases
    case 2
    then have "first_data s * BLKSIZE \<le> q * BLKSIZE" by (rule mult_right_mono) simp
    then show ?thesis using r by linarith
  qed (use r assms(2) in simp)
qed

lemma slot_word:
  assumes f: "file_ok s f" and j: "j < MAXBLOCKS" "j < NDIRECT \<or> find_ind s f \<noteq> 0"
  shows "slot s f j + 4 \<le> 2 * BLKSIZE \<or> first_data s * BLKSIZE \<le> slot s f j"
proof (cases "j < NDIRECT")
  case True
  then show ?thesis using struct_word [of s f "136 + 4 * j"] f
    by (simp add: slot_def f_direct_def file_ok_def NDIRECT_def add.assoc)
next
  case False
  then have "first_data s \<le> find_ind s f" using f j by (simp add: file_ok_def data_block_def)
  then have "first_data s * BLKSIZE \<le> find_ind s f * BLKSIZE" by (rule mult_right_mono) simp
  moreover have "find_ind s f * BLKSIZE \<le> slot s f j" using False by (simp add: slot_def)
  ultimately show ?thesis by linarith
qed

section \<open>Freeing one block\<close>

lemma file_free_block_spec:
  assumes f: "file_ok s f" and j: "j < MAXBLOCKS"
  shows "\<exists>r s'. file_free_block f j s = Some (r, s') \<and> freed f ({fblk s f j} - {0}) s s' \<and> find_ind s' f = find_ind s f \<and>
    (\<forall>k < MAXBLOCKS. fblk s' f k = (if k = j then 0 else fblk s f k))"
proof (cases "j < NDIRECT \<or> find_ind s f \<noteq> 0")
  case False
  then have "file_free_block f j s = Some (- E_NOT_FOUND, s)" "fblk s f j = 0"
    using j by (simp_all add: file_free_block_def file_block_walk_def find_ind_def unat_eq_0 fblk_def MAXBLOCKS_def
        NDIRECT_def NINDIRECT_def E_NOT_FOUND_def)
  then show ?thesis using freed_refl [OF f] by auto
next
  case True
  have jm: "\<not> NDIRECT + NINDIRECT \<le> j" using j by (simp add: MAXBLOCKS_def NDIRECT_def NINDIRECT_def)
  have "block_addr (find_ind s f) s = Some (find_ind s f * BLKSIZE)" if "find_ind s f \<noteq> 0"
    using f that by (intro block_addr_data) (simp add: file_ok_def)
  then have w: "file_block_walk f j False s = Some (0, Some (slot s f j), s)"
    using True jm by (auto simp: file_block_walk_def slot_def find_ind_def)
  note fb = fblk_slot [OF True]
  show ?thesis
  proof (cases "fblk s f j = 0")
    case z: True
    then have "file_free_block f j s = Some (0, s)" using w fb by (simp add: file_free_block_def unat_eq_0)
    then show ?thesis using freed_refl [OF f] z by auto
  next
    case nz: False
    let ?b = "fblk s f j"
    define t where "t = wr32 (slot s f j) 0 s"
    note c = clear_slot [OF f j True, folded t_def]
    have d: "data_block s ?b" "?b \<noteq> f div BLKSIZE" "?b \<noteq> find_ind s f" using f j nz by (auto simp: file_ok_def)
    have "fblk t f k \<noteq> ?b" if "k < MAXBLOCKS" for k
      using c(3) [OF that] nz f j that by (auto simp: file_ok_def)
    then have "unused t f ?b" using d c(2) same_meta_data [OF c(5)] by (simp add: unused_def)
    then obtain t' where t': "free_block ?b t = Some t'" "freed f {?b} t t'" "find_ind t' f = find_ind t f"
        "\<forall>k < MAXBLOCKS. fblk t' f k = fblk t f k" using free_unused [OF c(1)] by blast
    have "?b < s_nblocks s" using d(1) by (simp add: data_block_def)
    then obtain s1 where s1: "free_block ?b s = Some s1" "wr32 (slot s f j) 0 s1 = t'"
      using free_then_clear [OF _ slot_word [OF f j True]] t'(1) by (auto simp: t_def)
    have "file_free_block f j s = Some (0, t')" using w fb nz s1 by (auto simp: file_free_block_def)
    moreover have "freed f ({} \<union> {?b}) s t'"
    proof (rule freed_trans [OF _ t'(2)])
      show "freed f {} s t" by (rule same_meta_freed) (use c in auto)
    qed
    ultimately show ?thesis using t' c(2,3) nz by auto
  qed
qed

lemma free_blocks_spec:
  assumes "file_ok s f" and "n \<le> MAXBLOCKS"
  shows "\<exists>s'. free_blocks f [m..<n] s = Some s' \<and> freed f ({fblk s f j | j. m \<le> j \<and> j < n} - {0}) s s' \<and>
    find_ind s' f = find_ind s f \<and>
    (\<forall>k < MAXBLOCKS. fblk s' f k = (if m \<le> k \<and> k < n then 0 else fblk s f k))"
  using assms
proof (induction "n - m" arbitrary: m s)
  case 0
  then have e: "{fblk s f j | j. m \<le> j \<and> j < n} = {}" by auto
  show ?case unfolding e using 0 freed_refl [of s f] by auto
next
  case (Suc d)
  then have u: "[m..<n] = m # [Suc m..<n]" and mn: "m < MAXBLOCKS" "m < n" by (simp_all add: upt_rec)
  obtain r s1 where s1: "file_free_block f m s = Some (r, s1)" "freed f ({fblk s f m} - {0}) s s1"
      "find_ind s1 f = find_ind s f" "\<forall>k < MAXBLOCKS. fblk s1 f k = (if k = m then 0 else fblk s f k)"
    using file_free_block_spec [OF Suc.prems(1) mn(1)] by blast
  have "file_ok s1 f" "d = n - Suc m" using s1(2) Suc.hyps(2) by (auto simp: freed_def)
  then obtain s2 where s2: "free_blocks f [Suc m..<n] s1 = Some s2"
      "freed f ({fblk s1 f j | j. Suc m \<le> j \<and> j < n} - {0}) s1 s2" "find_ind s2 f = find_ind s1 f"
      "\<forall>k < MAXBLOCKS. fblk s2 f k = (if Suc m \<le> k \<and> k < n then 0 else fblk s1 f k)"
    using Suc.hyps(1) [of "Suc m" s1] Suc.prems(2) by auto
  have "{fblk s1 f j | j. Suc m \<le> j \<and> j < n} = {fblk s f j | j. Suc m \<le> j \<and> j < n}"
    using s1(4) Suc.prems(2) by (intro Collect_cong) (metis Suc_n_not_le_n less_le_trans)
  moreover have "{fblk s f j | j. m \<le> j \<and> j < n} = insert (fblk s f m) {fblk s f j | j. Suc m \<le> j \<and> j < n}"
    using mn by (auto simp: le_less_Suc_eq Suc_le_eq le_less)
  ultimately have "({fblk s f m} - {0}) \<union> ({fblk s1 f j | j. Suc m \<le> j \<and> j < n} - {0}) = {fblk s f j | j. m \<le> j \<and> j < n} - {0}"
    by auto
  then have "freed f ({fblk s f j | j. m \<le> j \<and> j < n} - {0}) s s2" using freed_trans [OF s1(2) s2(2)] by simp
  then show ?case using u s1(1,3,4) s2(1,3,4) mn by auto
qed

section \<open>Truncation\<close>

text \<open>The blocks that truncation from \<open>n\<close> to \<open>m\<close> blocks gives back, and the block map it leaves.\<close>

definition dropped :: "nat \<Rightarrow> nat \<Rightarrow> nat \<Rightarrow> fsm \<Rightarrow> nat set" where
  "dropped f m n s = ({fblk s f j | j. m \<le> j \<and> j < n} \<union> (if m \<le> NDIRECT then {find_ind s f} else {})) - {0}"

lemma file_truncate_blocks_spec:
  assumes f: "file_ok s f" and n: "nblocks_of (f_size f s) = n" "n \<le> MAXBLOCKS" and m: "nblocks_of newsize = m"
  shows "\<exists>s'. file_truncate_blocks f newsize s = Some s' \<and> freed f (dropped f m n s) s s' \<and>
    find_ind s' f = (if m \<le> NDIRECT then 0 else find_ind s f) \<and>
    (\<forall>k < MAXBLOCKS. fblk s' f k = (if m \<le> k \<and> k < n \<or> m \<le> NDIRECT \<and> NDIRECT \<le> k then 0 else fblk s f k))"
proof -
  obtain s1 where s1: "free_blocks f [m..<n] s = Some s1" "freed f ({fblk s f j | j. m \<le> j \<and> j < n} - {0}) s s1"
      "find_ind s1 f = find_ind s f" "\<forall>k < MAXBLOCKS. fblk s1 f k = (if m \<le> k \<and> k < n then 0 else fblk s f k)"
    using free_blocks_spec [OF f n(2), of m] by blast
  have f1: "file_ok s1 f" using s1(2) by (simp add: freed_def)
  show ?thesis
  proof (cases "m \<le> NDIRECT \<and> find_ind s f \<noteq> 0")
    case False
    then have "rd32 (f_indirect f) s1 = 0 \<or> \<not> m \<le> NDIRECT" using s1(3) by (auto simp: find_ind_def unat_eq_0)
    then have "file_truncate_blocks f newsize s = Some s1" using s1(1) n m by (auto simp: file_truncate_blocks_def)
    moreover have "dropped f m n s = {fblk s f j | j. m \<le> j \<and> j < n} - {0}" using False by (auto simp: dropped_def)
    ultimately show ?thesis using s1 False by (auto simp: fblk_def)
  next
    case True
    let ?b = "find_ind s f"
    define t where "t = wr32 (f_indirect f) 0 s1"
    note c = clear_indirect [OF f1, folded t_def]
    have d: "data_block s1 ?b" "?b \<noteq> f div BLKSIZE" using f1 True s1(3) by (auto simp: file_ok_def)
    have "fblk t f k \<noteq> ?b" if "k < MAXBLOCKS" for k
    proof (cases "fblk s1 f k = 0")
      case False
      then show ?thesis using c(3) [OF that] True f1 that s1(3) by (auto simp: file_ok_def)
    qed (use c(3) [OF that] True in auto)
    then have "unused t f ?b" using d c(2) True same_meta_data [OF c(5)] by (simp add: unused_def)
    then obtain t' where t': "free_block ?b t = Some t'" "freed f {?b} t t'" "find_ind t' f = find_ind t f"
        "\<forall>k < MAXBLOCKS. fblk t' f k = fblk t f k" using free_unused [OF c(1)] by blast
    have "?b < s_nblocks s1" using d(1) by (simp add: data_block_def)
    moreover have "f_indirect f + 4 \<le> 2 * BLKSIZE \<or> first_data s1 * BLKSIZE \<le> f_indirect f"
      using struct_word [of s1 f 176] f1 by (simp add: file_ok_def f_indirect_def)
    ultimately obtain s2 where s2: "free_block ?b s1 = Some s2" "wr32 (f_indirect f) 0 s2 = t'"
      using free_then_clear [of ?b s1 "f_indirect f"] t'(1) by (auto simp: t_def)
    have "file_truncate_blocks f newsize s = Some t'"
      using s1(1,3) n m True s2 by (auto simp: file_truncate_blocks_def find_ind_def unat_eq_0)
    moreover have "freed f (dropped f m n s) s t'"
    proof -
      have "freed f {} s1 t" by (rule same_meta_freed) (use c in auto)
      from freed_trans [OF s1(2) freed_trans [OF this t'(2)]] show ?thesis
        using True by (simp add: dropped_def insert_Diff_if)
    qed
    ultimately show ?thesis using t'(3,4) c(2,3) s1(4) True by auto
  qed
qed

end
