(* ===== verification/Fs_Dir.thy ===== *)
theory Fs_Dir
  imports Fs_RW
begin

text \<open>Directories: the search for an entry, creation and opening of a file, and the sync.\<close>

section \<open>The entries of a directory\<close>

definition dir_ok :: "fsm \<Rightarrow> nat \<Rightarrow> nat \<Rightarrow> bool" where
  "dir_ok s d k \<longleftrightarrow> file_ok s d \<and> f_size d s = int (k * BLKSIZE) \<and> k \<le> MAXBLOCKS \<and> (\<forall>j < k. fblk s d j \<noteq> 0)"

definition entries :: "fsm \<Rightarrow> nat \<Rightarrow> nat list \<Rightarrow> nat list" where
  "entries s d js = concat (map (\<lambda>j. map (\<lambda>e. fblk s d j * BLKSIZE + 256 * e) [0..<BLKFILES]) js)"

lemma find_append: "find P (xs @ ys) = (case find P xs of None \<Rightarrow> find P ys | Some x \<Rightarrow> Some x)"
  by (induction xs) auto

lemma find_map: "find P (map g xs) = map_option g (find (\<lambda>x. P (g x)) xs)"
  by (induction xs) auto

lemma dir_search_spec:
  assumes "file_ok s d" and "\<forall>j \<in> set js. j < MAXBLOCKS \<and> fblk s d j \<noteq> 0"
  shows "dir_search d js P s = (case find (\<lambda>a. P a s) (entries s d js) of
     Some a \<Rightarrow> Some (0, Some a, s) | None \<Rightarrow> Some (- E_NOT_FOUND, None, s))"
  using assms(2)
proof (induction js)
  case Nil
  then show ?case by (simp add: entries_def)
next
  case (Cons j js)
  have e: "entries s d (j # js) = map (\<lambda>e. fblk s d j * BLKSIZE + 256 * e) [0..<BLKFILES] @ entries s d js"
    by (simp add: entries_def)
  show ?case
    using Cons file_get_block_mapped [OF assms(1), of j]
    by (simp add: e find_append find_map split: option.split)
qed

lemma dir_nblock_ok: "dir_ok s d k \<Longrightarrow> dir_nblock d s = k \<and> f_size d s smod 4096 = 0"
  using sdiv_nat [of "k * BLKSIZE"] by (simp add: dir_ok_def dir_nblock_def u32i_def MAXBLOCKS_def BLKSIZE_def)

lemma dir_lookup_spec:
  assumes d: "dir_ok s d k"
  shows "dir_lookup d name s = (case find (\<lambda>a. name_eq a name s) (entries s d [0..<k]) of
     Some a \<Rightarrow> Some (0, Some a, s) | None \<Rightarrow> Some (- E_NOT_FOUND, None, s))"
proof -
  have "\<forall>j \<in> set [0..<k]. j < MAXBLOCKS \<and> fblk s d j \<noteq> 0" using d by (auto simp: dir_ok_def)
  from dir_search_spec [OF _ this] show ?thesis using d dir_nblock_ok [OF d] by (simp add: dir_lookup_def dir_ok_def)
qed

lemma dir_alloc_file_spec:
  assumes d: "dir_ok s d k" and e: "find (\<lambda>a. dm s a = 0) (entries s d [0..<k]) = Some e"
  shows "dir_alloc_file d s = Some (0, Some e, s)"
proof -
  have "\<forall>j \<in> set [0..<k]. j < MAXBLOCKS \<and> fblk s d j \<noteq> 0" using d by (auto simp: dir_ok_def)
  from dir_search_spec [OF _ this, of "\<lambda>f s. dm s f = 0"] show ?thesis
    using d e dir_nblock_ok [OF d] by (simp add: dir_alloc_file_def dir_ok_def E_NOT_FOUND_def)
qed

section \<open>Names\<close>

lemma name_eq_cong: "(\<And>i. i \<le> length name \<Longrightarrow> dm s' (a + i) = dm s (a + i)) \<Longrightarrow> name_eq a name s' = name_eq a name s"
proof (induction name arbitrary: a)
  case (Cons c cs)
  have "dm s' (a + 1 + i) = dm s (a + 1 + i)" if "i \<le> length cs" for i using Cons.prems [of "Suc i"] that by simp
  then show ?case using Cons.IH [of "a + 1"] Cons.prems [of 0] by simp
qed simp

lemma name_eq_written: "0 \<notin> set name \<Longrightarrow> name_eq a name (wr_bytes a (name @ [0]) s)"
proof -
  have "name_eq (a + length xs) ys (wr_bytes a (xs @ ys @ [0]) s)" for xs ys
  proof (induction ys arbitrary: xs)
    case Nil
    then show ?case by (simp add: dm_wr_bytes)
  next
    case (Cons y ys)
    show ?case using Cons.IH [of "xs @ [y]"] by (simp add: dm_wr_bytes nth_append)
  qed
  from this [of "[]" name] show ?thesis by simp
qed

section \<open>Paths of one element\<close>

definition simple_name :: "u8 list \<Rightarrow> bool" where
  "simple_name name \<longleftrightarrow> name \<noteq> [] \<and> length name < MAXNAMELEN \<and> 0x2F \<notin> set name \<and> 0 \<notin> set name"

lemma walk_simple:
  assumes n: "simple_name name" and d: "dir_ok s s_root k" and t: "f_type s_root s = FTYPE_DIR"
  shows "walk_path name s = (case find (\<lambda>a. name_eq a name s) (entries s s_root [0..<k]) of
     Some a \<Rightarrow> Some (0, Some s_root, Some a, [], s)
   | None \<Rightarrow> Some (- E_NOT_FOUND, Some s_root, None, name, s))"
proof -
  obtain c cs where cn: "name = c # cs" "c \<noteq> 0x2F" using n by (cases name) (auto simp: simple_name_def)
  have nm: "\<forall>c \<in> set name. c \<noteq> 0x2F" using n by (auto simp: simple_name_def)
  have s: "skip_slash name = name" using cn by (simp add: skip_slash_def)
  have tw: "takeWhile (\<lambda>c. c \<noteq> 0x2F) name = name" "dropWhile (\<lambda>c. c \<noteq> 0x2F) name = []" using nm by (auto simp: takeWhile_eq_all_conv dropWhile_eq_Nil_conv)
  have ln: "\<not> MAXNAMELEN \<le> length name" "name \<noteq> []" using n by (auto simp: simple_name_def)
  have nil: "skip_slash [] = []" by (simp add: skip_slash_def)
  show ?thesis
    unfolding walk_path_def s
    by (subst walk_loop.simps) (simp add: tw ln nil t dir_lookup_spec [OF d] walk_loop.simps [of "[]"] Let_def E_NOT_FOUND_def split: option.split)
qed

section \<open>Flushing a file\<close>

lemma block_in_disk: "fs_ok s \<Longrightarrow> b < s_nblocks s \<Longrightarrow> b * BLKSIZE < DISKSIZE"
proof -
  assume ok: "fs_ok s" and b: "b < s_nblocks s"
  have "(b + 1) * BLKSIZE \<le> s_nblocks s * BLKSIZE" using b by (intro mult_right_mono) auto
  then show ?thesis using ok by (simp add: fs_ok_def BLKSIZE_def)
qed

lemma flush_blocks_spec:
  assumes "file_ok s f" and "\<forall>j \<in> set js. j < MAXBLOCKS \<and> fblk s f j \<noteq> 0"
  shows "\<exists>d. flush_blocks f js s = Some (s\<lparr>disk := d\<rparr>)"
  using assms
proof (induction js arbitrary: s)
  case Nil
  show ?case by (intro exI [of _ "disk s"]) simp
next
  case (Cons j js)
  have j: "j < MAXBLOCKS" "fblk s f j \<noteq> 0" using Cons.prems by auto
  have d: "j < NDIRECT \<or> find_ind s f \<noteq> 0" using j by (auto simp: fblk_def split: if_splits)
  have jm: "\<not> NDIRECT + NINDIRECT \<le> j" using j by (simp add: MAXBLOCKS_def NDIRECT_def NINDIRECT_def)
  have "block_addr (find_ind s f) s = Some (find_ind s f * BLKSIZE)" if "find_ind s f \<noteq> 0"
    using Cons.prems(1) that by (intro block_addr_data) (simp add: file_ok_def)
  then have w: "file_block_walk f j False s = Some (0, Some (slot s f j), s)"
    using d jm by (auto simp: file_block_walk_def slot_def find_ind_def)
  have b: "data_block s (fblk s f j)" using Cons.prems(1) j by (simp add: file_ok_def)
  have fl: "fs_flush (fblk s f j * BLKSIZE) s = Some (s\<lparr>disk := flush_flat BLKSIZE (fblk s f j * BLKSIZE) (dm s) (disk s)\<rparr>)"
    using block_in_disk [of s "fblk s f j"] b Cons.prems(1) by (simp add: fs_flush_def file_ok_def data_block_def)
  obtain d where "flush_blocks f js (s\<lparr>disk := flush_flat BLKSIZE (fblk s f j * BLKSIZE) (dm s) (disk s)\<rparr>) = Some (s\<lparr>disk := d\<rparr>)"
    using Cons.IH [of "s\<lparr>disk := flush_flat BLKSIZE (fblk s f j * BLKSIZE) (dm s) (disk s)\<rparr>"] Cons.prems by auto
  then show ?case using w fl j block_addr_data [OF b] fblk_slot [OF d] by auto
qed

lemma file_flush_dir:
  assumes d: "dir_ok s f k"
  shows "\<exists>d. file_flush f s = Some (s\<lparr>disk := d\<rparr>)"
proof -
  have ok: "file_ok s f" using d by (simp add: dir_ok_def)
  have "i32 (f_size f s + 4095) = int (k * BLKSIZE + 4095)"
    using d by (simp add: dir_ok_def i32_def MAXBLOCKS_def BLKSIZE_def)
  moreover have "(k * BLKSIZE + 4095) div BLKSIZE = k" by (simp add: BLKSIZE_def)
  ultimately have n: "nat (i32 (f_size f s + 4095) sdiv 4096) = k" using sdiv_nat(1) [of "k * BLKSIZE + 4095"] by simp
  obtain d1 where d1: "flush_blocks f [0..<k] s = Some (s\<lparr>disk := d1\<rparr>)"
    using flush_blocks_spec [OF ok, of "[0..<k]"] d by (auto simp: dir_ok_def)
  obtain d2 where d2: "fs_flush f (s\<lparr>disk := d1\<rparr>) = Some (s\<lparr>disk := d2\<rparr>)"
    using fs_flush_file [of "s\<lparr>disk := d1\<rparr>" f] ok by simp
  show ?thesis
  proof (cases "rd32 (f_indirect f) s = 0")
    case True
    then show ?thesis using d1 d2 n by (auto simp: file_flush_def)
  next
    case False
    then have b: "data_block s (find_ind s f)" using ok by (simp add: file_ok_def find_ind_def unat_eq_0)
    then have "find_ind s f * BLKSIZE < DISKSIZE" using block_in_disk [of s "find_ind s f"] ok by (simp add: file_ok_def data_block_def)
    moreover have "block_addr (find_ind s f) (s\<lparr>disk := d2\<rparr>) = Some (find_ind s f * BLKSIZE)" using b by (intro block_addr_data) simp
    ultimately show ?thesis using d1 d2 n False by (auto simp: file_flush_def fs_flush_def find_ind_def)
  qed
qed

section \<open>Creating a file\<close>

lemma entries_set:
  "a \<in> set (entries s d [0..<k]) \<longleftrightarrow> (\<exists>j e. j < k \<and> e < BLKFILES \<and> a = fblk s d j * BLKSIZE + 256 * e)"
proof -
  have "set (entries s d [0..<k]) = (\<Union>j \<in> {..<k}. (\<lambda>e. fblk s d j * BLKSIZE + 256 * e) ` {..<BLKFILES})"
    by (auto simp: entries_def atLeast0LessThan)
  then show ?thesis by auto
qed

lemma entry_apart:
  assumes a: "a = b * BLKSIZE + 256 * e" "e < BLKFILES" and a': "a' = b' * BLKSIZE + 256 * e'" "e' < BLKFILES" and ne: "a \<noteq> a'"
  shows "a + 256 \<le> a' \<or> a' + 256 \<le> a"
proof -
  have "a = 256 * (b * 16 + e)" "a' = 256 * (b' * 16 + e')" using a a' by (simp_all add: BLKSIZE_def)
  moreover from this ne have "b * 16 + e \<noteq> b' * 16 + e'" by auto
  ultimately show ?thesis by (cases "b * 16 + e < b' * 16 + e'") auto
qed

text \<open>Writing a name in an entry of the directory keeps its block map, its size and its type.\<close>

lemma write_entry:
  assumes d: "dir_ok s f k" and e: "e \<in> set (entries s f [0..<k])" and l: "length vs \<le> 256"
  defines "s' \<equiv> wr_bytes e vs s"
  shows "dir_ok s' f k" and "entries s' f [0..<k] = entries s f [0..<k]" and "f_type f s' = f_type f s"
proof -
  have f: "file_ok s f" using d by (simp add: dir_ok_def)
  obtain j i where ji: "j < k" "i < BLKFILES" "e = fblk s f j * BLKSIZE + 256 * i" using e by (auto simp: entries_set)
  have j: "j < MAXBLOCKS" "fblk s f j \<noteq> 0" using d ji by (auto simp: dir_ok_def)
  have q: "256 * i + length vs \<le> BLKSIZE" using ji(2) l by (simp add: BLKFILES_def BLKSIZE_def)
  note sc = store_chunk [OF f j q order_refl order_refl, folded ji(3), folded s'_def]
  have fb: "fblk s' f x = fblk s f x" if "x < k" for x using sc(2) [of x] that d by (auto simp: dir_ok_def)
  then show "entries s' f [0..<k] = entries s f [0..<k]" by (auto simp: entries_def intro!: arg_cong [where f = concat])
  show "dir_ok s' f k" using d fb sc(1,4) by (simp add: dir_ok_def wrote_def)
  have "dm s' a = dm s a" if "f + 132 \<le> a" "a < f + 136" for a
  proof -
    have "a div BLKSIZE = f div BLKSIZE" using that f by (intro struct_range [of s]) (auto simp: file_ok_def)
    moreover have "fblk s f j \<noteq> f div BLKSIZE" using f j by (simp add: file_ok_def)
    ultimately have "\<not> (e \<le> a \<and> a < e + length vs)" using div_block [of "fblk s f j" a] q ji(3) by auto
    then show ?thesis by (auto simp: s'_def dm_wr_bytes)
  qed
  then show "f_type f s' = f_type f s" using rd32_cong [of s' "f + 132" s] by (simp add: f_type_def)
qed

lemma find_first:
  assumes "find P xs = Some x" and "\<And>y. y \<in> set xs \<Longrightarrow> y \<noteq> x \<Longrightarrow> \<not> Q y" and "Q x"
  shows "find Q xs = Some x"
  using assms by (induction xs) (auto split: if_splits)

lemma create_then_open:
  assumes n: "simple_name name" and d: "dir_ok s s_root k" and t: "f_type s_root s = FTYPE_DIR"
    and nf: "\<forall>a \<in> set (entries s s_root [0..<k]). \<not> name_eq a name s"
    and e: "find (\<lambda>a. dm s a = 0) (entries s s_root [0..<k]) = Some e"
  shows "\<exists>s'. file_create name s = Some (0, Some e, s') \<and> dm s' = dm (wr_bytes e (name @ [0]) s) \<and>
    file_open name s' = Some (0, Some e, s')"
proof -
  let ?es = "entries s s_root [0..<k]"
  have ln: "length name < 128" "0 \<notin> set name" using n by (auto simp: simple_name_def MAXNAMELEN_def)
  have ee: "e \<in> set ?es" using e by (metis find_Some_iff nth_mem)
  define s1 where "s1 = wr_bytes e (name @ [0]) s"
  note we = write_entry [OF d ee, of "name @ [0]", folded s1_def]
  obtain dd where fl: "file_flush s_root s1 = Some (s1\<lparr>disk := dd\<rparr>)" using file_flush_dir [OF we(1)] ln by auto
  define s2 where "s2 = s1\<lparr>disk := dd\<rparr>"
  have ff: "find (\<lambda>a. name_eq a name s) ?es = None" using nf by (simp add: find_None_iff)
  have c: "file_create name s = Some (0, Some e, s2)"
    using walk_simple [OF n d t] ff dir_alloc_file_spec [OF d e] fl
    by (simp add: file_create_def E_NOT_FOUND_def s1_def [symmetric] s2_def)
  have d2: "dir_ok s2 s_root k" using we(1) ln by (simp add: dir_ok_def s2_def)
  have t2: "f_type s_root s2 = FTYPE_DIR" using we(3) ln t by (simp add: f_type_def s2_def)
  have es2: "entries s2 s_root [0..<k] = ?es" using we(2) ln by (simp add: entries_def s2_def)
  have dm2: "dm s2 = dm s1" by (simp add: s2_def)
  have "\<not> name_eq a name s2" if a: "a \<in> set ?es" "a \<noteq> e" for a
  proof -
    have "a + 256 \<le> e \<or> e + 256 \<le> a" using a ee unfolding entries_set by (metis entry_apart)
    then have "name_eq a name s2 = name_eq a name s"
      using ln by (intro name_eq_cong) (auto simp: dm2 s1_def dm_wr_bytes)
    then show ?thesis using nf a by simp
  qed
  moreover have "name_eq e name s2"
    using name_eq_written [of name e s] ln name_eq_cong [of name s2 e s1] by (simp add: dm2 s1_def)
  ultimately have "find (\<lambda>a. name_eq a name s2) ?es = Some e" by (intro find_first [OF e]) auto
  then have "file_open name s2 = Some (0, Some e, s2)" using walk_simple [OF n d2 t2] es2 by (simp add: file_open_def)
  then show ?thesis using c dm2 by (auto simp: s1_def)
qed

section \<open>Sync\<close>

lemma sync_blocks_spec:
  assumes "fs_ok s" and "\<forall>b \<in> set bs. b \<noteq> 0 \<and> b < s_nblocks s"
  shows "sync_blocks bs s = Some (s\<lparr>disk := (\<lambda>a. if a div BLKSIZE \<in> set bs then dm s a else disk s a)\<rparr>)"
  using assms
proof (induction bs arbitrary: s)
  case (Cons b bs)
  let ?s = "s\<lparr>disk := flush_flat BLKSIZE (b * BLKSIZE) (dm s) (disk s)\<rparr>"
  have "b * BLKSIZE < DISKSIZE" using block_in_disk Cons.prems by auto
  then have "sync_blocks (b # bs) s = sync_blocks bs ?s" using Cons.prems by (simp add: block_addr_def fs_flush_def)
  also have "\<dots> = Some (?s\<lparr>disk := (\<lambda>a. if a div BLKSIZE \<in> set bs then dm ?s a else disk ?s a)\<rparr>)"
    using Cons.prems by (intro Cons.IH) simp_all
  also have "b * BLKSIZE div BLKSIZE = b" by (simp add: BLKSIZE_def)
  then have "(\<lambda>a. if a div BLKSIZE \<in> set bs then dm ?s a else disk ?s a) =
      (\<lambda>a. if a div BLKSIZE \<in> set (b # bs) then dm s a else disk s a)"
    by (auto simp: flush_flat_def)
  finally show ?case by simp
qed simp

lemma fs_sync_spec:
  assumes "fs_ok s"
  shows "fs_sync s = Some (s\<lparr>disk := (\<lambda>a. if 1 \<le> a div BLKSIZE \<and> a div BLKSIZE < s_nblocks s then dm s a else disk s a)\<rparr>)"
  using sync_blocks_spec [OF assms, of "[1..<s_nblocks s]"] by (simp add: fs_sync_def)

end
