(* ===== verification/Fs_Theorems.thy ===== *)
theory Fs_Theorems
  imports Fs_Trunc Fs_Dir
begin

text \<open>The properties of the file system (fs/fs.c).\<close>

section \<open>A small file system\<close>

text \<open>
  Eight blocks: the root directory has one block (3) with two entries, the file \<open>a\<close> with the
  block 4 and five bytes and the file \<open>b\<close> with the block 5 and one byte; blocks 6 and 7 are free.
\<close>

definition tiny_mem :: "nat \<Rightarrow> u8" where
  "tiny_mem a = (if a = 4100 then 8 else if a = 4233 then 16 else if a = 4236 then 1 else if a = 4240 then 3 else
     if a = 8192 then 0xC0 else if a = 12288 then 97 else if a = 12416 then 5 else if a = 12424 then 4 else
     if a = 12544 then 98 else if a = 12672 then 1 else if a = 12680 then 5 else
     if a = 16384 then 104 else if a = 16385 then 101 else if a = 20480 then 33 else 0)"

definition tiny_fs :: fsm where
  "tiny_fs = \<lparr>dm = tiny_mem, disk = tiny_mem\<rparr>"

lemma tiny_dm [simp]: "dm tiny_fs = tiny_mem"
  by (simp add: tiny_fs_def)

lemma tiny_nblocks [simp]: "s_nblocks tiny_fs = 8"
  by (simp add: s_nblocks_def rd32_def le32_def tiny_mem_def BLKSIZE_def)

lemma tiny_first [simp]: "first_data tiny_fs = 3"
  by (simp add: first_data_def)

lemma tiny_is_free: "b < 8 \<Longrightarrow> is_free tiny_fs b \<longleftrightarrow> 6 \<le> b"
proof -
  assume "b < 8"
  then have "b = 0 \<or> b = 1 \<or> b = 2 \<or> b = 3 \<or> b = 4 \<or> b = 5 \<or> b = 6 \<or> b = 7" by arith
  then show ?thesis
    by (elim disjE) (simp_all add: is_free_def bitmap_word_def rd32_def le32_def tiny_mem_def BLKSIZE_def)
qed

lemma tiny_ok: "fs_ok tiny_fs"
  by (simp add: fs_ok_def tiny_is_free BLKSIZE_def DISKSIZE_def)

lemma tiny_data: "data_block tiny_fs b \<longleftrightarrow> b = 3 \<or> b = 4 \<or> b = 5"
  by (auto simp: data_block_def tiny_is_free)

lemma tiny_file_map: "find_ind tiny_fs 12288 = 0" "fblk tiny_fs 12288 j = (if j = 0 then 4 else 0)"
proof -
  show i: "find_ind tiny_fs 12288 = 0" by (simp add: find_ind_def f_indirect_def rd32_def le32_def tiny_mem_def)
  show "fblk tiny_fs 12288 j = (if j = 0 then 4 else 0)"
    using i by (auto simp: fblk_def slot_def f_direct_def rd32_def le32_def tiny_mem_def NDIRECT_def)
qed

lemma tiny_other_map: "find_ind tiny_fs 12544 = 0" "fblk tiny_fs 12544 j = (if j = 0 then 5 else 0)"
proof -
  show i: "find_ind tiny_fs 12544 = 0" by (simp add: find_ind_def f_indirect_def rd32_def le32_def tiny_mem_def)
  show "fblk tiny_fs 12544 j = (if j = 0 then 5 else 0)"
    using i by (auto simp: fblk_def slot_def f_direct_def rd32_def le32_def tiny_mem_def NDIRECT_def)
qed

lemma tiny_root_map: "find_ind tiny_fs s_root = 0" "fblk tiny_fs s_root j = (if j = 0 then 3 else 0)"
proof -
  show i: "find_ind tiny_fs s_root = 0" by (simp add: find_ind_def f_indirect_def rd32_def le32_def tiny_mem_def s_root_def)
  show "fblk tiny_fs s_root j = (if j = 0 then 3 else 0)"
    using i by (auto simp: fblk_def slot_def f_direct_def rd32_def le32_def tiny_mem_def NDIRECT_def s_root_def)
qed

lemma tiny_file_ok: "file_ok tiny_fs 12288"
  by (auto simp: file_ok_def tiny_ok tiny_file_map place_ok_def tiny_data BLKSIZE_def)

lemma tiny_other_ok: "file_ok tiny_fs 12544"
  by (auto simp: file_ok_def tiny_ok tiny_other_map place_ok_def tiny_data BLKSIZE_def)

lemma tiny_root_ok: "file_ok tiny_fs s_root"
proof -
  have "s_root div BLKSIZE = 1" "s_root mod BLKSIZE = 8" by (simp_all add: s_root_def BLKSIZE_def)
  moreover have "8 + 256 \<le> BLKSIZE" by (simp add: BLKSIZE_def)
  ultimately show ?thesis by (auto simp: file_ok_def tiny_ok tiny_root_map place_ok_def tiny_data)
qed

lemma tiny_sizes: "f_size 12288 tiny_fs = 5" "f_size s_root tiny_fs = 4096" "f_type s_root tiny_fs = FTYPE_DIR"
  by (simp_all add: f_size_def f_type_def rd32_def le32_def tiny_mem_def s_root_def FTYPE_DIR_def)

section \<open>Blocks\<close>

text \<open>
  C30 The block allocator never hands out a block twice: asking for n blocks one after the other
  returns as many different blocks as there are free, up to n, all of them free before and none
  of them reserved for super block or bitmap; then the allocator reports -E_NO_DISK.
\<close>

theorem alloc_blocks_distinct:
  assumes "fs_ok s"
  shows "\<exists>bs s'. alloc_many alloc_opt n s = Some (bs, s') \<and> length bs = min n (card (free_set s)) \<and> distinct bs \<and>
    set bs \<subseteq> free_set s \<and> (\<forall>b \<in> set bs. first_data s \<le> b) \<and> free_set s' = free_set s - set bs \<and>
    (card (free_set s) \<le> n \<longrightarrow> alloc_block s' = Some (- E_NO_DISK, s'))"
proof -
  have "block_pool s (free_set s)" using assms by (simp add: block_pool_def)
  from block_pool.alloc_many_distinct [OF this] obtain bs s' where
    bs: "alloc_many alloc_opt n s = Some (bs, s')" "length bs = min n (card (free_set s))" "distinct bs"
      "set bs \<subseteq> free_set s" "block_pool s' (free_set s - set bs)" by blast
  have fin: "finite (free_set s)" by (simp add: free_set_def)
  have "first_data s \<le> b" if "b \<in> set bs" for b
    using that bs(4) assms by (auto simp: fs_ok_def free_set_def not_less [symmetric])
  moreover have "free_set s - set bs = {}" if "card (free_set s) \<le> n"
  proof -
    have "card (set bs) = card (free_set s)" using bs(2,3) that by (simp add: distinct_card)
    then show ?thesis using bs(4) fin card_subset_eq [of "free_set s" "set bs"] by simp
  qed
  ultimately show ?thesis using bs alloc_block_spec(1) [of s'] by (auto simp: block_pool_def)
qed

theorem alloc_blocks_distinct_witness:
  "\<exists>bs s'. alloc_many alloc_opt 5 tiny_fs = Some (bs, s') \<and> length bs = 2 \<and> distinct bs \<and> set bs \<subseteq> {6, 7} \<and>
    alloc_block s' = Some (- E_NO_DISK, s')"
proof -
  have f: "free_set tiny_fs = {6, 7}" by (auto simp: free_set_def tiny_is_free)
  then have "card (free_set tiny_fs) = 2" by simp
  then show ?thesis using alloc_blocks_distinct [OF tiny_ok, of 5] unfolding f by auto
qed

section \<open>Contents\<close>

text \<open>
  C27 What is written to a file is what is read back: on a well-formed file, writing c bytes at
  an offset inside the maximal file size ends either with -E_NO_DISK or with c; after a complete
  write, reading c bytes at the same offset returns exactly the bytes written, the size is the
  larger of the old size and the end of the write, and every other byte of the file that had a
  block keeps its value. In both cases the file stays well formed.
\<close>

theorem file_write_read:
  fixes n c :: nat
  assumes "file_ok s f" and "0 \<le> f_size f s" and "n + c \<le> MAXFILESIZE" and "f_size f s \<le> int MAXFILESIZE"
  shows "\<exists>res s'. file_write f buf (int c) (int n) s = Some (res, s') \<and> file_ok s' f \<and>
    f_size f s' = max (f_size f s) (int (n + c)) \<and>
    (\<forall>p. fmapped s f p \<longrightarrow> \<not> (n \<le> p \<and> p < n + c) \<longrightarrow> fmapped s' f p \<and> fbyte s' f p = fbyte s f p) \<and>
    (res = - E_NO_DISK \<or>
     res = int c \<and> file_read f (int c) (int n) s' = Some (int c, map buf [0..<c], s'))"
  by (rule write_read_back [OF assms])

theorem file_write_read_witness:
  "\<exists>res s'. file_write 12288 (\<lambda>i. of_nat i) 7 3 tiny_fs = Some (res, s') \<and> f_size 12288 s' = 10 \<and> fbyte s' 12288 1 = 101 \<and>
    (res = - E_NO_DISK \<or> file_read 12288 7 3 s' = Some (7, [0, 1, 2, 3, 4, 5, 6], s'))"
proof -
  have m: "fmapped tiny_fs 12288 1" "fbyte tiny_fs 12288 1 = 101"
    by (simp_all add: fmapped_def fbyte_def tiny_file_map tiny_mem_def MAXBLOCKS_def BLKSIZE_def)
  have u: "[0..<7] = [0, 1, 2, 3, 4, 5, 6 :: nat]" by (simp add: upt_rec)
  show ?thesis
    using file_write_read [OF tiny_file_ok, of 3 7 "\<lambda>i. of_nat i"] m u by (auto simp: tiny_sizes MAXFILESIZE_def)
qed

text \<open>
  Two files with no block in common: neither uses the block of the other's structure as data, and
  the two structures do not overlap.
\<close>

definition owned :: "fsm \<Rightarrow> nat \<Rightarrow> nat set" where
  "owned s f = ({find_ind s f} \<union> {fblk s f j | j. j < MAXBLOCKS}) - {0}"

definition apart :: "fsm \<Rightarrow> nat \<Rightarrow> nat \<Rightarrow> bool" where
  "apart s f g \<longleftrightarrow> (f + 256 \<le> g \<or> g + 256 \<le> f) \<and> owned s f \<inter> owned s g = {} \<and>
     g div BLKSIZE \<notin> owned s f \<and> f div BLKSIZE \<notin> owned s g"

lemma owned_data: "file_ok s f \<Longrightarrow> b \<in> owned s f \<Longrightarrow> data_block s b"
  by (auto simp: owned_def file_ok_def)

lemma wrote_outside:
  assumes f: "file_ok s f" and s1: "s1 = s \<or> (\<exists>v d. s1 = (set_f_size f v s)\<lparr>disk := d\<rparr>)" and w: "wrote f lo hi s1 s'"
    and a: "\<not> (f + 128 \<le> a \<and> a < f + 180)" "a div BLKSIZE < 2 \<or> data_block s (a div BLKSIZE)" "a div BLKSIZE \<notin> owned s f"
  shows "dm s' a = dm s a"
proof -
  note z = sized_same [OF f s1]
  have "data_block s (a div BLKSIZE) \<Longrightarrow> a div BLKSIZE \<noteq> find_ind s f"
    using a(3) data_block_range [of s "a div BLKSIZE"] by (auto simp: owned_def)
  then have "keep s1 f a" using a(1,2) z(2,4) by (auto simp: keep_def)
  moreover have "\<forall>j < MAXBLOCKS. fblk s1 f j \<noteq> 0 \<longrightarrow> a div BLKSIZE \<noteq> fblk s1 f j" using a(3) z(3) by (auto simp: owned_def)
  ultimately have "dm s' a = dm s1 a" using w by (simp add: wrote_def)
  then show ?thesis using z(6) [of a] a(1) by auto
qed

lemma apart_untouched:
  assumes f: "file_ok s f" and g: "file_ok s g" and ap: "apart s f g" and s1: "s1 = s \<or> (\<exists>v d. s1 = (set_f_size f v s)\<lparr>disk := d\<rparr>)"
    and w: "wrote f lo hi s1 s'"
  shows "g \<le> a \<Longrightarrow> a < g + 256 \<Longrightarrow> dm s' a = dm s a" and "a div BLKSIZE \<in> owned s g \<Longrightarrow> dm s' a = dm s a"
proof -
  have pg: "place_ok s g" and pf: "place_ok s f" using f g by (simp_all add: file_ok_def)
  show "dm s' a = dm s a" if a: "g \<le> a" "a < g + 256"
  proof (rule wrote_outside [OF f s1 w])
    have b: "a div BLKSIZE = g div BLKSIZE" by (rule struct_range [OF pg a])
    show "\<not> (f + 128 \<le> a \<and> a < f + 180)" using ap a by (auto simp: apart_def)
    show "a div BLKSIZE < 2 \<or> data_block s (a div BLKSIZE)" using struct_block [OF pg] b by simp
    show "a div BLKSIZE \<notin> owned s f" using ap b by (simp add: apart_def)
  qed
  show "dm s' a = dm s a" if a: "a div BLKSIZE \<in> owned s g"
  proof (rule wrote_outside [OF f s1 w])
    have "a div BLKSIZE \<noteq> f div BLKSIZE" using ap a by (auto simp: apart_def)
    then show "\<not> (f + 128 \<le> a \<and> a < f + 180)" using struct_range [OF pf, of a] by auto
    show "a div BLKSIZE < 2 \<or> data_block s (a div BLKSIZE)" using owned_data [OF g a] by simp
    show "a div BLKSIZE \<notin> owned s f" using ap a by (auto simp: apart_def)
  qed
qed



section \<open>Truncation\<close>

lemma nblocks_of_nat: "z \<le> MAXFILESIZE \<Longrightarrow> nblocks_of (int z) = (z + 4095) div BLKSIZE"
proof -
  assume z: "z \<le> MAXFILESIZE"
  then have "i32 (int z + 4095) = int (z + 4095)" by (simp add: i32_def MAXFILESIZE_def)
  then show ?thesis using z sdiv_nat(1) [of "z + 4095"] by (simp add: nblocks_of_def u32i_def MAXFILESIZE_def BLKSIZE_def)
qed

lemma nblocks_le_MAX: "z \<le> MAXFILESIZE \<Longrightarrow> (z + 4095) div BLKSIZE \<le> MAXBLOCKS"
  by (simp add: MAXFILESIZE_def MAXBLOCKS_def BLKSIZE_def)

text \<open>
  C29 Shrinking a file with \<open>file_set_size\<close> succeeds, sets the size, and gives back to the bitmap
  exactly the blocks past the new end, together with the indirect block when ten blocks are
  enough; no other bit of the bitmap changes, every byte before the new end keeps its value, and
  the file stays well formed.
\<close>

theorem file_set_size_shrinks:
  fixes n z :: nat
  assumes "file_ok s f" and "f_size f s = int z" and "n < z" and "z \<le> MAXFILESIZE"
  shows "\<exists>s'. file_set_size f (int n) s = Some (0, s') \<and> file_ok s' f \<and> f_size f s' = int n \<and>
    (\<forall>b < s_nblocks s. is_free s' b \<longleftrightarrow> is_free s b \<or> b \<in> dropped f ((n + 4095) div BLKSIZE) ((z + 4095) div BLKSIZE) s) \<and>
    (\<forall>p < n. fmapped s f p \<longrightarrow> fmapped s' f p \<and> fbyte s' f p = fbyte s f p)"
proof -
  let ?m = "(n + 4095) div BLKSIZE" and ?n = "(z + 4095) div BLKSIZE"
  have nz: "nblocks_of (f_size f s) = ?n" "?n \<le> MAXBLOCKS" "nblocks_of (int n) = ?m"
    using nblocks_of_nat nblocks_le_MAX assms by auto
  obtain s1 where s1: "file_truncate_blocks f (int n) s = Some s1" "freed f (dropped f ?m ?n s) s s1"
      "\<forall>k < MAXBLOCKS. fblk s1 f k = (if ?m \<le> k \<and> k < ?n \<or> ?m \<le> NDIRECT \<and> NDIRECT \<le> k then 0 else fblk s f k)"
    using file_truncate_blocks_spec [OF assms(1) nz] by blast
  have f1: "file_ok s1 f" using s1(2) by (simp add: freed_def)
  define s2 where "s2 = (set_f_size f (int n) s1)\<lparr>disk := flush_flat BLKSIZE f (dm (set_f_size f (int n) s1)) (disk (set_f_size f (int n) s1))\<rparr>"
  have r: "file_set_size f (int n) s = Some (0, s2)"
    using s1(1) assms(2,3) fs_flush_file [OF set_f_size_spec(1) [OF f1]] by (simp add: file_set_size_def s2_def)
  have "s2 = s1 \<or> (\<exists>v d. s2 = (set_f_size f v s1)\<lparr>disk := d\<rparr>)" by (auto simp: s2_def)
  note z = sized_same [OF f1 this]
  have sz: "f_size f s2 = int n" using set_f_size_spec(2) [OF f1, of "int n"] assms(3,4) by (simp add: s2_def MAXFILESIZE_def)
  have fr: "is_free s2 b \<longleftrightarrow> is_free s b \<or> b \<in> dropped f ?m ?n s" if "b < s_nblocks s" for b
    using s1(2) that set_f_size_spec(6) [OF f1, of "int n"] by (simp add: freed_def same_meta_def s2_def)
  have "fmapped s2 f p \<and> fbyte s2 f p = fbyte s f p" if p: "p < n" "fmapped s f p" for p
  proof -
    let ?j = "p div BLKSIZE"
    have j: "?j < MAXBLOCKS" "fblk s f ?j \<noteq> 0" "?j < ?m" using p div_lt_MAX by (auto simp: fmapped_def BLKSIZE_def)
    then have b: "fblk s1 f ?j = fblk s f ?j" using s1(3) by auto
    have "fblk s f ?j \<noteq> fblk s f k" if "?m \<le> k" "k < ?n" for k
      using file_ok_inj [OF assms(1) j(1), of k] j that nz(2) by auto
    moreover have "fblk s f ?j \<noteq> find_ind s f" using assms(1) j by (simp add: file_ok_def)
    ultimately have "fblk s f ?j \<notin> dropped f ?m ?n s" by (auto simp: dropped_def)
    then have "dm s1 (fblk s f ?j * BLKSIZE + p mod BLKSIZE) = dm s (fblk s f ?j * BLKSIZE + p mod BLKSIZE)"
      using s1(2) keep_own [OF assms(1) j(1,2) fblk_addr] fblk_addr [of s f ?j p] by (simp add: freed_def)
    then show ?thesis using z(7,8) [of p] p(2) b by (simp add: fmapped_def fbyte_def)
  qed
  then show ?thesis using r z(1) sz fr by blast
qed

theorem file_set_size_shrinks_witness:
  "\<exists>s'. file_set_size 12288 0 tiny_fs = Some (0, s') \<and> f_size 12288 s' = 0 \<and> is_free s' 4 \<and> \<not> is_free s' 5"
proof -
  have "dropped 12288 0 1 tiny_fs = {4}" by (auto simp: dropped_def tiny_file_map)
  then show ?thesis using file_set_size_shrinks [OF tiny_file_ok, of 5 0]
    by (auto simp: tiny_sizes MAXFILESIZE_def BLKSIZE_def tiny_is_free)
qed

section \<open>Negative offsets\<close>

lemma file_get_block_direct:
  assumes f: "file_ok s f" and j: "j < NDIRECT" and fr: "free_set s \<noteq> {}"
  shows "\<exists>s'. kept f s s' \<and> file_get_block f j s = Some (0, fblk s' f j * BLKSIZE, s') \<and> fblk s' f j \<noteq> 0"
proof -
  have jm: "j < MAXBLOCKS" using j by (simp add: NDIRECT_def MAXBLOCKS_def)
  have ok: "fs_ok s" using f by (simp add: file_ok_def)
  have w: "file_block_walk f j True s = Some (0, Some (f_direct f j), s)"
    using j by (simp add: file_block_walk_def NDIRECT_def NINDIRECT_def)
  have "file_get_block f j s \<noteq> Some (- E_NO_DISK, 0, s')" for s'
  proof (cases "rd32 (f_direct f j) s = 0")
    case False
    then show ?thesis using w by (auto simp: file_get_block_def E_NO_DISK_def bind_eq_Some_conv)
  next
    case True
    obtain t where "alloc_block s = Some (int (Min (free_set s)), t)" using alloc_block_spec(2) [OF ok fr] by blast
    then show ?thesis using w True by (auto simp: file_get_block_def E_NO_DISK_def bind_eq_Some_conv)
  qed
  then show ?thesis using file_get_block_spec [OF f jm] by blast
qed

lemma u64i_negative: "- (2 ^ 64) \<le> x \<Longrightarrow> x < 0 \<Longrightarrow> u64i x = 2 ^ 64 + x"
proof -
  assume "- (2 ^ 64) \<le> x" "x < 0"
  then have "(x + 2 ^ 64) mod 2 ^ 64 = x + 2 ^ 64" by (intro mod_pos_pos_trivial) simp_all
  then show ?thesis unfolding u64i_def mod_add_self2 by simp
qed

lemma negative_conversions:
  fixes c k :: nat
  assumes "0 < c" "c < k" "k < 4096"
  shows "i32 (- int k + int c) = int c - int k" "nblocks_of (int c - int k) = 0"
    and "u64i (- int k) < u64i (- int k + int c)" "\<not> u64i (int c - int k) < u64i (- int k + int c)"
    and "- int k sdiv 4096 = 0" "- int k smod 4096 = - int k" "chunk (- int k) (int c) (- int k) = int c"
proof -
  show "i32 (- int k + int c) = int c - int k" using assms by (simp add: i32_def)
  have "i32 (int c - int k + 4095) = int c - int k + 4095" using assms by (simp add: i32_def)
  moreover have "(int c - int k + 4095) sdiv 4096 = 0" using assms by (simp add: signed_divide_int_def sgn_if)
  ultimately show "nblocks_of (int c - int k) = 0" by (simp add: nblocks_of_def u32i_def)
  have u: "u64i (- int k) = 2 ^ 64 - int k" "u64i (- int k + int c) = 2 ^ 64 - int k + int c"
    using u64i_negative [of "- int k"] u64i_negative [of "- int k + int c"] assms by simp_all
  show "u64i (- int k) < u64i (- int k + int c)" using u assms by simp
  show "\<not> u64i (int c - int k) < u64i (- int k + int c)" by simp
  show d: "- int k sdiv 4096 = 0" using assms by (simp add: signed_divide_int_def sgn_if)
  then show m: "- int k smod 4096 = - int k" using assms by (simp add: signed_modulo_int_def)
  show "chunk (- int k) (int c) (- int k) = int c" using assms m by (simp add: chunk_def u64i_def)
qed



section \<open>Directories and sync\<close>

text \<open>
  C31 Creating and opening: in a root directory with its blocks in place and a free entry, a name
  of one element that is not there yet is created in the first free entry, and opening the same
  name afterwards finds exactly that entry and changes nothing.
\<close>

theorem file_create_open:
  assumes "simple_name name" and "dir_ok s s_root k" and "f_type s_root s = FTYPE_DIR"
    and "\<forall>a \<in> set (entries s s_root [0..<k]). \<not> name_eq a name s"
    and "find (\<lambda>a. dm s a = 0) (entries s s_root [0..<k]) = Some e"
  shows "file_open name s = Some (- E_NOT_FOUND, None, s) \<and>
    (\<exists>s'. file_create name s = Some (0, Some e, s') \<and> file_open name s' = Some (0, Some e, s') \<and>
      (\<forall>a. \<not> (e \<le> a \<and> a \<le> e + length name) \<longrightarrow> dm s' a = dm s a))"
proof -
  have "find (\<lambda>a. name_eq a name s) (entries s s_root [0..<k]) = None" using assms(4) by (simp add: find_None_iff)
  then have "file_open name s = Some (- E_NOT_FOUND, None, s)" using walk_simple [OF assms(1-3)] by (simp add: file_open_def)
  moreover obtain s' where s': "file_create name s = Some (0, Some e, s')" "dm s' = dm (wr_bytes e (name @ [0]) s)"
      "file_open name s' = Some (0, Some e, s')"
    using create_then_open [OF assms] by blast
  moreover have "dm s' a = dm s a" if "\<not> (e \<le> a \<and> a \<le> e + length name)" for a
    using that unfolding s'(2) by (auto simp: dm_wr_bytes)
  ultimately show ?thesis by blast
qed

theorem file_create_open_witness:
  "\<exists>s'. file_create [99] tiny_fs = Some (0, Some 12800, s') \<and> file_open [99] s' = Some (0, Some 12800, s')"
proof -
  have d: "dir_ok tiny_fs s_root 1"
    by (simp add: dir_ok_def tiny_root_ok tiny_sizes tiny_root_map BLKSIZE_def MAXBLOCKS_def)
  have n: "simple_name [99]" by (simp add: simple_name_def MAXNAMELEN_def)
  have u: "[0..<16] = [0, 1, 2, 3, 4, 5, 6, 7, 8, 9, 10, 11, 12, 13, 14, 15 :: nat]" by (simp add: upt_rec)
  have es: "entries tiny_fs s_root [0..<1] = map (\<lambda>e. 12288 + 256 * e) [0..<16]"
    by (simp add: entries_def tiny_root_map BLKSIZE_def BLKFILES_def)
  have "\<forall>a \<in> set (entries tiny_fs s_root [0..<1]). \<not> name_eq a [99] tiny_fs" unfolding es by (auto simp: tiny_mem_def)
  moreover have "find (\<lambda>a. dm tiny_fs a = 0) (entries tiny_fs s_root [0..<1]) = Some 12800"
    unfolding es u by (simp add: tiny_mem_def)
  ultimately show ?thesis using file_create_open [OF n d tiny_sizes(3)] by blast
qed

text \<open>
  C33 After \<open>fs_sync\<close> the disk holds, in every block of the file system from the super block on,
  what the memory of the server holds; memory does not change and nothing outside those blocks is
  written, so a server that starts again from the disk sees the same bytes.
\<close>

theorem fs_sync_durable:
  assumes "fs_ok s"
  shows "\<exists>s'. fs_sync s = Some s' \<and> dm s' = dm s \<and>
    (\<forall>a. 1 \<le> a div BLKSIZE \<longrightarrow> a div BLKSIZE < s_nblocks s \<longrightarrow> disk s' a = dm s a) \<and>
    (\<forall>a. a div BLKSIZE = 0 \<or> s_nblocks s \<le> a div BLKSIZE \<longrightarrow> disk s' a = disk s a)"
  using fs_sync_spec [OF assms] by auto

theorem fs_sync_durable_witness:
  "\<exists>s'. fs_sync (wr_bytes 16384 [7] tiny_fs) = Some s' \<and> disk s' 16384 = 7"
proof -
  have n: "s_nblocks (wr_bytes 16384 [7] tiny_fs) = 8"
    using rd32_wr_bytes_other [of "BLKSIZE + 4" 16384 "[7]" tiny_fs] tiny_nblocks by (simp add: s_nblocks_def BLKSIZE_def)
  moreover have "is_free (wr_bytes 16384 [7] tiny_fs) b = is_free tiny_fs b" if "b < 3" for b
    using rd32_wr_bytes_other [of "bitmap_word b" 16384 "[7]" tiny_fs] that by (simp add: is_free_def bitmap_word_def BLKSIZE_def)
  ultimately have "fs_ok (wr_bytes 16384 [7] tiny_fs)"
    using tiny_ok by (simp add: fs_ok_def first_data_def tiny_is_free)
  moreover have "(16384::nat) div BLKSIZE = 4" by (simp add: BLKSIZE_def)
  ultimately show ?thesis using fs_sync_durable [of "wr_bytes 16384 [7] tiny_fs"] n by (auto simp: dm_wr_bytes)
qed

end
