(* ===== verification/Serv_Theorems.thy ===== *)
theory Serv_Theorems
  imports Fd_Lib Fs_Theorems
begin

text \<open>The properties of the file server's loop and of the library's file descriptors on top of it.\<close>

section \<open>The table of open files\<close>

definition opentab_ok :: "srv \<Rightarrow> bool" where
  "opentab_ok s \<longleftrightarrow> length (opentab s) = MAXOPEN \<and>
     (\<forall>i < MAXOPEN. unat (o_fileid (opentab s ! i)) mod MAXOPEN = i \<and> o_fd (opentab s ! i) = i)"

lemma fileid_step: "unat (x + of_nat MAXOPEN) mod MAXOPEN = unat x mod MAXOPEN" for x :: u32
  by (simp add: MAXOPEN_def unat_word_ariths mod_mod_cancel)

lemma opentab_update:
  assumes "opentab_ok s" and "unat (o_fileid e) mod MAXOPEN = i" and "o_fd e = i"
  shows "opentab_ok (s\<lparr>opentab := (opentab s)[i := e]\<rparr>)"
  using assms by (auto simp: opentab_ok_def nth_list_update)

lemma opentab_same: "opentab s' = opentab s \<Longrightarrow> opentab_ok s' = opentab_ok s"
  by (simp add: opentab_ok_def)

lemma open_scan_ok:
  assumes "opentab_ok s" and "set is \<subseteq> {..<MAXOPEN}" and "open_scan is s = (r, io, s')"
  shows "opentab_ok s'" and "io = Some i \<Longrightarrow> i < MAXOPEN"
proof -
  have "opentab_ok s' \<and> (io = Some i \<longrightarrow> i < MAXOPEN)"
    using assms
  proof (induction "is")
    case (Cons j js)
    then have j: "j < MAXOPEN" "unat (o_fileid (opentab s ! j)) mod MAXOPEN = j" "o_fd (opentab s ! j) = j"
      by (auto simp: opentab_ok_def)
    define e where "e = (opentab s ! j)\<lparr>o_fileid := o_fileid (opentab s ! j) + of_nat MAXOPEN\<rparr>"
    have "opentab_ok (s\<lparr>opentab := (opentab s)[j := e]\<rparr>)"
      using j fileid_step Cons.prems(1) by (intro opentab_update) (simp_all add: e_def)
    then have "opentab_ok (s\<lparr>opentab := (opentab s)[j := e], fdref := x, fdpage := y\<rparr>)" for x y by (simp add: opentab_ok_def)
    then show ?case using Cons j(1) by (auto simp: Let_def e_def [symmetric] split: if_splits)
  qed simp
  then show "opentab_ok s'" and "io = Some i \<Longrightarrow> i < MAXOPEN" by auto
qed

lemma with_open_ok:
  assumes "opentab_ok s" and "with_open h s = Some (r, s')"
    and "\<And>fd f t r t'. h fd f t = Some (r, t') \<Longrightarrow> opentab t' = opentab t"
  shows "opentab_ok s'"
  using assms(1,2) assms(3) [THEN opentab_same]
  by (auto simp: with_open_def bind_eq_Some_conv split: prod.splits option.splits)

lemma rq_store_opentab [simp]: "opentab (rq_store k vs s) = opentab s"
  by (simp add: rq_store_def)

lemma handlers_ok:
  assumes "opentab_ok s" and "handlers req = Some h" and "h s = Some (r, s')"
  shows "opentab_ok s'"
proof -
  have "h \<in> {serve_set_size, serve_read, serve_write, serve_stat, serve_flush, serve_remove, serve_sync}"
    using assms(2) by (auto simp: handlers_def split: if_splits)
  then consider (w) g where "h = with_open g" "\<And>fd f t r t'. g fd f t = Some (r, t') \<Longrightarrow> opentab t' = opentab t"
    | (n) "h = serve_remove \<or> h = serve_sync"
    unfolding serve_set_size_def serve_read_def serve_write_def serve_stat_def serve_flush_def
    by (elim insertE) (fastforce simp: bind_eq_Some_conv Let_def split: if_splits)+
  then show ?thesis
  proof cases
    case w
    then show ?thesis using with_open_ok [OF assms(1)] assms(3) by blast
  next
    case n
    then have "opentab s' = opentab s"
      using assms(3) by (auto simp: serve_remove_def serve_sync_def bind_eq_Some_conv)
    then show ?thesis using assms(1) opentab_same by blast
  qed
qed

lemma serve_open_ok:
  assumes ok: "opentab_ok s" and e: "serve_open s = Some (r, pg, s')"
  shows "opentab_ok s'"
proof -
  obtain r1 io s1 where a: "openfile_alloc s = (r1, io, s1)" by (cases "openfile_alloc s") auto
  have sub: "set [0..<MAXOPEN] \<subseteq> {..<MAXOPEN}" by auto
  have ok1: "opentab_ok s1" and i: "\<And>i. io = Some i \<Longrightarrow> i < MAXOPEN"
    using open_scan_ok [OF ok sub a [unfolded openfile_alloc_def]] by auto
  show ?thesis
  proof (cases "opentab s' = opentab s1")
    case True
    then show ?thesis using ok1 opentab_same by blast
  next
    case False
    then obtain i f where "io = Some i" "opentab s' = (opentab s1)[i := (opentab s1 ! i)\<lparr>o_file := Some f, o_mode := rq32 s 1024\<rparr>]"
      using e a by (auto simp: serve_open_def Let_def bind_eq_Some_conv split: if_splits prod.splits)
    moreover have "opentab_ok (s1\<lparr>opentab := (opentab s1)[i := (opentab s1 ! i)\<lparr>o_file := Some f, o_mode := rq32 s 1024\<rparr>]\<rparr>)"
      using ok1 i [OF \<open>io = Some i\<close>] by (intro opentab_update) (simp_all add: opentab_ok_def)
    ultimately show ?thesis by (simp add: opentab_ok_def)
  qed
qed

text \<open>
  C35 The table of open files stays well typed whatever clients send: after serve_init it has
  1024 entries, entry i is attached to Fd page i and its file id is congruent to i modulo 1024,
  and every turn of the server's loop, with any request code and any bytes in the request page,
  keeps it so, across the wrap-around of the 32-bit file ids.
\<close>

theorem serve_keeps_opentab:
  "opentab_ok (serve_init s) \<and> (opentab_ok t \<longrightarrow> serve req perm t = Some (rep, t') \<longrightarrow> opentab_ok t')"
proof (intro conjI impI)
  show "opentab_ok (serve_init s)" by (auto simp: opentab_ok_def serve_init_def MAXOPEN_def unat_of_nat)
  assume t: "opentab_ok t" and e: "serve req perm t = Some (rep, t')"
  consider "t' = t" | r pg where "serve_open t = Some (r, pg, t')"
    | h r where "handlers req = Some h" "h t = Some (r, t')"
    using e by (auto simp: serve_def bind_eq_Some_conv split: if_splits option.splits prod.splits)
  then show "opentab_ok t'"
    by cases (use t serve_open_ok handlers_ok in blast)+
qed

definition idle_srv :: srv where
  "idle_srv = \<lparr>sfs = \<lparr>dm = (\<lambda>_. 0), disk = (\<lambda>_. 0)\<rparr>, opentab = [], fdpage = (\<lambda>_. zero_fd), fdref = (\<lambda>_. 1), req_page = (\<lambda>_. 0), srv_mem = True\<rparr>"

theorem serve_keeps_opentab_witness:
  "\<exists>t'. serve 6 7 (serve_init idle_srv) = Some (Some (- E_INVAL, None, 7), t') \<and> opentab_ok t'"
  using serve_keeps_opentab [of idle_srv "serve_init idle_srv" 6 7]
  by (simp add: serve_def handlers_def serve_flush_def with_open_def openfile_lookup_def serve_init_def idle_srv_def MAXOPEN_def)

section \<open>Through the library\<close>

lemma le32_page: "k + 4 \<le> 4096 \<Longrightarrow> rq32 s k = le32 (\<lambda>i. req_page s (k + i))"
  unfolding rq32_def by (rule le32_cong) (simp add: rq_byte_def)

lemma le32_upd_same: "le32 (\<lambda>i. upd_bytes k (bytes32 v) m (k + i)) = v"
proof -
  have "le32 (\<lambda>i. upd_bytes k (bytes32 v) m (k + i)) = le32 (\<lambda>i. bytes32 v ! i)"
    by (rule le32_cong) (simp add: upd_bytes_def bytes32_def)
  then show ?thesis by (simp add: le32_bytes32)
qed

text \<open>Filling the request page of the client.\<close>

lemma buf_store_srv [simp]:
  "sfs (wsrv (buf_store k vs w)) = sfs (wsrv w)" "opentab (wsrv (buf_store k vs w)) = opentab (wsrv w)"
  "fdpage (wsrv (buf_store k vs w)) = fdpage (wsrv w)" "fdref (wsrv (buf_store k vs w)) = fdref (wsrv w)"
  "fdtab (buf_store k vs w) = fdtab w" "fd_of p (buf_store k vs w) = fd_of p w"
  by (simp_all add: buf_store_def fd_of_def)

lemma buf_store_page: "k + length vs \<le> 4096 \<Longrightarrow> req_page (wsrv (buf_store k vs w)) = upd_bytes k vs (req_page (wsrv w))"
  by (simp add: buf_store_def)

definition rq_header :: "u32 \<Rightarrow> nat \<Rightarrow> srv \<Rightarrow> bool" where
  "rq_header fileid n s \<longleftrightarrow> rq32 s 0 = fileid \<and> rq64 s 8 = int n"

lemma header_stored:
  assumes "n < 2 ^ 32"
  shows "rq_header fileid n (wsrv (buf_store 8 (bytes64 (int n)) (buf_store 0 (bytes32 fileid) w)))"
proof -
  let ?m = "upd_bytes 8 (bytes64 (int n)) (upd_bytes 0 (bytes32 fileid) (req_page (wsrv w)))"
  have l: "length (bytes64 (int n)) = 8" by (simp add: bytes64_def)
  have p: "req_page (wsrv (buf_store 8 (bytes64 (int n)) (buf_store 0 (bytes32 fileid) w))) = ?m"
    by (simp add: buf_store_page l)
  have "le32 (\<lambda>i. ?m (0 + i)) = le32 (\<lambda>i. upd_bytes 0 (bytes32 fileid) (req_page (wsrv w)) (0 + i))"
    by (rule le32_cong) (simp add: upd_bytes_def)
  moreover have "le32 (\<lambda>i. ?m (8 + i)) = le32 (\<lambda>i. bytes32 (word_of_int (int n)) ! i)"
    by (rule le32_cong) (simp add: upd_bytes_def l bytes64_def nth_append)
  moreover have "le32 (\<lambda>i. ?m (12 + i)) = le32 (\<lambda>i. bytes32 (word_of_int (int n div 2 ^ 32)) ! i)"
    by (rule le32_cong) (simp add: upd_bytes_def l bytes64_def nth_append)
  moreover have "int n div 2 ^ 32 = 0" using assms by simp
  ultimately show ?thesis
    using assms le32_upd_same [of 0 fileid "req_page (wsrv w)"]
    by (simp add: rq_header_def le32_page p rq64_def le32_bytes32 unat_of_nat)
qed

text \<open>A descriptor open for reading and writing: its page, its entry at the server, its file.\<close>

definition open_at :: "world \<Rightarrow> nat \<Rightarrow> nat \<Rightarrow> nat \<Rightarrow> nat \<Rightarrow> bool" where
  "open_at w n p i f \<longleftrightarrow> n < MAXFD \<and> fdtab w n = Some p \<and> fd_dev_id (fd_of p w) = 102 \<and>
     fd_omode (fd_of p w) AND O_ACCMODE = 2 \<and> unat (fd_file_id (fd_of p w)) mod MAXOPEN = i \<and>
     o_fileid (opentab (wsrv w) ! i) = fd_file_id (fd_of p w) \<and> o_fd (opentab (wsrv w) ! i) = p \<and>
     o_file (opentab (wsrv w) ! i) = Some f \<and> fdref (wsrv w) p \<noteq> 1"

lemma open_at_same:
  assumes "open_at w n p i f" and "fdtab w' = fdtab w" and "opentab (wsrv w') = opentab (wsrv w)" and "fdref (wsrv w') = fdref (wsrv w)"
    and "fd_dev_id (fd_of p w') = fd_dev_id (fd_of p w)" "fd_omode (fd_of p w') = fd_omode (fd_of p w)"
    "fd_file_id (fd_of p w') = fd_file_id (fd_of p w)"
  shows "open_at w' n p i f"
  using assms by (simp add: open_at_def)

lemma open_at_with_open:
  assumes "open_at w n p i f" and "rq32 (wsrv w) 0 = fd_file_id (fd_of p w)"
  shows "with_open h (wsrv w) = h p f (wsrv w)"
  using assms by (simp add: open_at_def with_open_def openfile_lookup_def Let_def)

lemma lib_write_spec:
  fixes c d :: nat
  assumes o: "open_at w n p i f" and c: "c \<le> 4080" and d: "fd_offset (fd_of p w) = int d"
  shows "\<exists>buf' w'. (\<forall>k < c. buf' k = buf k) \<and> open_at w' n p i f \<and> fd_offset (fd_of p w') = int d \<and> sfs (wsrv w') = sfs (wsrv w) \<and>
    lib_write oth (int n) buf (int c) w = do {
      (r, t) \<leftarrow> file_write f buf' (int c) (int d) (sfs (wsrv w));
      Some (r, set_fd p ((fd_of p w')\<lparr>fd_offset := i32 (int d + r)\<rparr>) (w'\<lparr>wsrv := (wsrv w')\<lparr>sfs := t\<rparr>\<rparr>)) }"
proof -
  let ?v = "buf_store 8 (bytes64 (int c)) (buf_store 0 (bytes32 (fd_file_id (fd_of p w))) w)"
  let ?w = "buf_store 16 (map buf [0..<c]) ?v"
  have ow: "open_at ?w n p i f" by (rule open_at_same [OF o]) simp_all
  have pg: "req_page (wsrv ?w) = upd_bytes 16 (map buf [0..<c]) (req_page (wsrv ?v))"
    using c by (intro buf_store_page) simp
  have q: "le32 (\<lambda>j. req_page (wsrv ?w) (a + j)) = le32 (\<lambda>j. req_page (wsrv ?v) (a + j))" if "a + 4 \<le> 16" for a
    unfolding pg by (rule le32_cong) (use that in \<open>simp add: upd_bytes_def\<close>)
  have "rq_header (fd_file_id (fd_of p w)) c (wsrv ?w)"
    using header_stored [of c "fd_file_id (fd_of p w)" w] c q [of 0] q [of 8] q [of 12] by (simp add: rq_header_def le32_page rq64_def)
  then have h: "rq32 (wsrv ?w) 0 = fd_file_id (fd_of p ?w)" "rq64 (wsrv ?w) 8 = int c" by (simp_all add: rq_header_def)
  have b: "\<forall>k < c. rq_byte (wsrv ?w) (16 + k) = buf k" using c by (simp add: rq_byte_def pg upd_bytes_def)
  have "lib_write oth (int n) buf (int c) w = fsipc 4 None ?w"
    using o c by (simp add: open_at_def lib_write_def fd_lookup_def dev_lookup_def devfile_def devfile_write_def O_RDONLY_def)
  also have "\<dots> = do {
      (r, t) \<leftarrow> file_write f (\<lambda>k. rq_byte (wsrv ?w) (16 + k)) (int c) (int d) (sfs (wsrv w));
      Some (r, set_fd p ((fd_of p ?w)\<lparr>fd_offset := i32 (int d + r)\<rparr>) (?w\<lparr>wsrv := (wsrv ?w)\<lparr>sfs := t\<rparr>\<rparr>)) }"
    using open_at_with_open [OF ow h(1)] h(2) c d
    by (simp add: fsipc_def serve_def handlers_def serve_write_def set_fd_def fd_of_def split: Option.bind_split prod.split)
  finally show ?thesis using b ow d by (intro exI [of _ "\<lambda>k. rq_byte (wsrv ?w) (16 + k)"] exI [of _ ?w]) simp
qed

text \<open>Reading through a descriptor.\<close>

lemma lib_read_spec:
  fixes c d :: nat
  assumes o: "open_at w n p i f" and c: "c \<le> 4096" and d: "fd_offset (fd_of p w) = int d"
    and r: "file_read f (int c) (int d) (sfs (wsrv w)) = Some (int c, bs, t)" and l: "length bs = c"
  shows "\<exists>w'. lib_read oth (int n) (int c) w = Some (int c, bs, w') \<and> sfs (wsrv w') = t \<and>
    fd_offset (fd_of p w') = i32 (int d + int c)"
proof -
  let ?w = "buf_store 8 (bytes64 (int c)) (buf_store 0 (bytes32 (fd_file_id (fd_of p w))) w)"
  have ow: "open_at ?w n p i f" by (rule open_at_same [OF o]) simp_all
  have h: "rq32 (wsrv ?w) 0 = fd_file_id (fd_of p ?w)" "rq64 (wsrv ?w) 8 = int c"
    using header_stored [of c "fd_file_id (fd_of p w)" w] c by (simp_all add: rq_header_def)
  let ?s = "rq_store 0 bs ((wsrv ?w)\<lparr>sfs := t\<rparr>)"
  let ?s' = "?s\<lparr>fdpage := (fdpage ?s)(p := (fdpage ?s p)\<lparr>fd_offset := i32 (fd_offset (fdpage ?s p) + int c)\<rparr>)\<rparr>"
  have k: "fd_offset (fdpage (wsrv ?w) p) = int d" using d by (simp add: fd_of_def)
  have "serve_read (wsrv ?w) = Some (int c, ?s')"
    unfolding serve_read_def open_at_with_open [OF ow h(1)] h(2) k using c r by (simp add: Let_def)
  then have "fsipc 3 None ?w = Some (int c, ?w\<lparr>wsrv := ?s'\<rparr>)"
    by (simp add: fsipc_def serve_def handlers_def)
  then have "lib_read oth (int n) (int c) w = Some (int c, map (req_page ?s') [0..<c], ?w\<lparr>wsrv := ?s'\<rparr>)"
    using o by (simp add: open_at_def lib_read_def fd_lookup_def dev_lookup_def devfile_def devfile_read_def O_WRONLY_def)
  moreover have "map (req_page ?s') [0..<c] = bs"
    using l c by (intro nth_equalityI) (simp_all add: rq_store_def upd_bytes_def)
  moreover have "sfs ?s' = t" "fd_offset (fdpage ?s' p) = i32 (int d + int c)"
    using k l c by (simp_all add: rq_store_def wr_bytes_def upd_bytes_def)
  ultimately show ?thesis by (intro exI [of _ "?w\<lparr>wsrv := ?s'\<rparr>"]) (simp add: fd_of_def)
qed


text \<open>
  C36 Writing through a descriptor and reading back: a write of up to 4080 bytes through
  \<^const>\<open>lib_write\<close> either fails for want of disk blocks or returns its count, leaves the
  descriptor's offset behind the data, and after a seek to the old offset \<^const>\<open>lib_read\<close> returns
  exactly the bytes written; this goes through the descriptor table, the request page, the server's
  table of open files, its handlers, and the blocks of the file.
\<close>

theorem lib_write_seek_read:
  fixes c d :: nat
  assumes "open_at w n p i f" and "file_ok (sfs (wsrv w)) f" and "0 \<le> f_size f (sfs (wsrv w))"
    and "f_size f (sfs (wsrv w)) \<le> int MAXFILESIZE" and "d + c \<le> MAXFILESIZE" and "c \<le> 4080"
    and "fd_offset (fd_of p w) = int d"
  shows "\<exists>r w'. lib_write oth (int n) buf (int c) w = Some (r, w') \<and> file_ok (sfs (wsrv w')) f \<and>
    (r = - E_NO_DISK \<or> r = int c \<and> fd_offset (fd_of p w') = int (d + c) \<and>
      (\<exists>w''. lib_read oth (int n) (int c) (snd (lib_seek (int n) (int d) w')) = Some (int c, map buf [0..<c], w'')))"
proof -
  obtain buf' w1 where b: "\<forall>k < c. buf' k = buf k" and o: "open_at w1 n p i f" "fd_offset (fd_of p w1) = int d" "sfs (wsrv w1) = sfs (wsrv w)"
    and e: "lib_write oth (int n) buf (int c) w = do {
      (r, t) \<leftarrow> file_write f buf' (int c) (int d) (sfs (wsrv w));
      Some (r, set_fd p ((fd_of p w1)\<lparr>fd_offset := i32 (int d + r)\<rparr>) (w1\<lparr>wsrv := (wsrv w1)\<lparr>sfs := t\<rparr>\<rparr>)) }"
    using lib_write_spec [OF assms(1,6,7)] by blast
  obtain r t where t: "file_write f buf' (int c) (int d) (sfs (wsrv w)) = Some (r, t)" "file_ok t f"
      "r = - E_NO_DISK \<or> r = int c \<and> file_read f (int c) (int d) t = Some (int c, map buf' [0..<c], t)"
    using write_read_back [OF assms(2,3,5,4), of buf'] by blast
  let ?w = "set_fd p ((fd_of p w1)\<lparr>fd_offset := i32 (int d + r)\<rparr>) (w1\<lparr>wsrv := (wsrv w1)\<lparr>sfs := t\<rparr>\<rparr>)"
  have m: "map buf' [0..<c] = map buf [0..<c]" using b by simp
  have s: "sfs (wsrv ?w) = t" "fd_offset (fd_of p ?w) = i32 (int d + r)" by (simp_all add: set_fd_def fd_of_def)
  let ?v = "set_fd p ((fd_of p ?w)\<lparr>fd_offset := int d\<rparr>) ?w"
  have ov: "open_at ?v n p i f" by (rule open_at_same [OF o(1)]) (simp_all add: set_fd_def fd_of_def)
  have sk: "snd (lib_seek (int n) (int d) ?w) = ?v"
    using o(1) by (simp add: open_at_def lib_seek_def fd_lookup_def set_fd_def fd_of_def)
  have v: "fd_offset (fd_of p ?v) = int d" "sfs (wsrv ?v) = t" by (simp_all add: set_fd_def fd_of_def)
  have off: "i32 (int d + int c) = int (d + c)"
    using assms(5) by (intro i32_small [THEN trans]) (simp_all add: MAXFILESIZE_def)
  have "\<exists>w''. lib_read oth (int n) (int c) ?v = Some (int c, map buf [0..<c], w'')"
    if "file_read f (int c) (int d) t = Some (int c, map buf' [0..<c], t)"
    using lib_read_spec [OF ov _ v(1), of c "map buf [0..<c]" t oth] that assms(6) v(2) m by auto
  then show ?thesis using e t s sk off by auto
qed

text \<open>A program with descriptor 0 on the file at 12288 of the small disk, at offset 3.\<close>

definition tiny_world :: world where
  "tiny_world = \<lparr>wsrv = \<lparr>sfs = tiny_fs, opentab = (opentab (serve_init idle_srv))[5 := \<lparr>o_fileid = 5, o_file = Some 12288, o_mode = 2, o_fd = 5\<rparr>],
     fdpage = (\<lambda>_. zero_fd)(5 := \<lparr>fd_dev_id = 102, fd_offset = 3, fd_omode = 2, fd_file_id = 5\<rparr>), fdref = (\<lambda>_. 0)(5 := 2),
     req_page = (\<lambda>_. 0), srv_mem = True\<rparr>, fdtab = [0 \<mapsto> 5]\<rparr>"

lemma tiny_world_open: "open_at tiny_world 0 5 5 12288"
proof -
  have "opentab (wsrv tiny_world) ! 5 = \<lparr>o_fileid = 5, o_file = Some 12288, o_mode = 2, o_fd = 5\<rparr>"
    by (simp add: tiny_world_def serve_init_def MAXOPEN_def)
  moreover have "fdtab tiny_world 0 = Some 5" "fd_of 5 tiny_world = \<lparr>fd_dev_id = 102, fd_offset = 3, fd_omode = 2, fd_file_id = 5\<rparr>"
    "fdref (wsrv tiny_world) 5 = 2"
    by (simp_all add: tiny_world_def fd_of_def)
  ultimately show ?thesis by (simp add: open_at_def MAXFD_def MAXOPEN_def O_ACCMODE_def)
qed

theorem lib_write_seek_read_witness:
  "\<exists>r w'. lib_write (\<lambda>_. None) 0 (\<lambda>i. of_nat i) 4 tiny_world = Some (r, w') \<and>
    (r = - E_NO_DISK \<or> (\<exists>w''. lib_read (\<lambda>_. None) 0 4 (snd (lib_seek 0 3 w')) = Some (4, [0, 1, 2, 3], w'')))"
proof -
  have s: "sfs (wsrv tiny_world) = tiny_fs" "fd_offset (fd_of 5 tiny_world) = 3" by (simp_all add: tiny_world_def fd_of_def)
  have u: "[0..<4] = [0, 1, 2, 3 :: nat]" by (simp add: upt_rec)
  show ?thesis
    using lib_write_seek_read [OF tiny_world_open, of 3 4 "\<lambda>_. None" "\<lambda>i. of_nat i"] u
    by (auto simp: s tiny_sizes tiny_file_ok MAXFILESIZE_def)
qed

end
