(* ===== verification/Fsformat.thy ===== *)
theory Fsformat
  imports Fs_Dir Fs_Init
begin

text \<open>
  The program that builds the disk image (fs/fsformat.c). Its memory is one flat memory: the image,
  which is mapped at 0 and starts out zero, and behind it the block that \<open>malloc\<close> returns for the
  directory entries, whose initial contents are an argument. A file to be put on the image is its
  path and its bytes.
\<close>

section \<open>Allocation\<close>

record fimg =
  fim :: fsm
  fpos :: nat
  fnb :: nat

definition MAX_DIR_ENTS :: nat where [jos_consts]: "MAX_DIR_ENTS = 128"

text \<open>The macro \<open>ROUNDUP\<close> on an unsigned and on a signed size.\<close>

definition rup32 :: "int \<Rightarrow> int" where
  "rup32 n = u32i (u32i (n - 1) + 4096 - u32i (n - 1) mod 4096)"

definition rup_int :: "int \<Rightarrow> int" where
  "rup_int n = n - 1 + 4096 - (n - 1) smod 4096"

definition blockof :: "nat \<Rightarrow> nat" where
  "blockof p = p div BLKSIZE"

definition fmt_alloc :: "int \<Rightarrow> fimg \<Rightarrow> (nat \<times> fimg) option" where
  "fmt_alloc bytes s =
     (let start = fpos s; p = start + nat (rup32 bytes)
      in if fnb s \<le> blockof p then None else Some (start, s\<lparr>fpos := p\<rparr>))"

definition fput32 :: "nat \<Rightarrow> u32 \<Rightarrow> fimg \<Rightarrow> fimg" where
  "fput32 a v s = s\<lparr>fim := wr32 a v (fim s)\<rparr>"

definition fput :: "nat \<Rightarrow> u8 list \<Rightarrow> fimg \<Rightarrow> fimg" where
  "fput a vs s = s\<lparr>fim := wr_bytes a vs (fim s)\<rparr>"

section \<open>The disk\<close>

definition opendisk :: "(nat \<Rightarrow> u8) \<Rightarrow> nat \<Rightarrow> fimg option" where
  "opendisk heap nblocks = do {
     let m = (\<lambda>a. if a < nblocks * BLKSIZE then 0 else heap (a - nblocks * BLKSIZE));
     let s = \<lparr>fim = \<lparr>dm = m, disk = (\<lambda>_. 0)\<rparr>, fpos = 0, fnb = nblocks\<rparr>;
     (_, s) \<leftarrow> fmt_alloc 4096 s;
     (super, s) \<leftarrow> fmt_alloc 4096 s;
     let s = fput32 super FS_MAGIC s;
     let s = fput32 (super + 4) (of_nat nblocks) s;
     let s = fput32 (super + 8 + 132) FTYPE_DIR s;
     let s = fput (super + 8) [0x2F, 0] s;
     let nbitblocks = (nblocks + 32768 - 1) div 32768;
     (bitmap, s) \<leftarrow> fmt_alloc (int (nbitblocks * BLKSIZE)) s;
     Some (fput bitmap (replicate (nbitblocks * BLKSIZE) 0xFF) s) }"

definition clear_bit32 :: "nat \<Rightarrow> fimg \<Rightarrow> fimg" where
  "clear_bit32 i s = fput32 (bitmap_word i) (rd32 (bitmap_word i) (fim s) AND NOT (push_bit (i mod 32) 1)) s"

definition finishdisk :: "fimg \<Rightarrow> fimg" where
  "finishdisk s = fold clear_bit32 [0..<blockof (fpos s)] s"

section \<open>Files and the directory\<close>

definition put_direct :: "nat \<Rightarrow> nat \<Rightarrow> nat \<Rightarrow> fimg \<Rightarrow> fimg" where
  "put_direct f start i = fput32 (f + 136 + 4 * i) (of_nat (start + i))"

definition put_indirect :: "nat \<Rightarrow> nat \<Rightarrow> nat \<Rightarrow> fimg \<Rightarrow> fimg" where
  "put_indirect ind start i = fput32 (ind + 4 * (i - NDIRECT)) (of_nat (start + i))"

definition finishfile :: "nat \<Rightarrow> nat \<Rightarrow> int \<Rightarrow> fimg \<Rightarrow> fimg option" where
  "finishfile f start len s = do {
     let s = fput32 (f + 128) (word_of_int len) s;
     let n = nat (rup32 len) div BLKSIZE;
     let s = fold (put_direct f start) [0..<min n NDIRECT] s;
     if NDIRECT \<le> n then do {
       (ind, s) \<leftarrow> fmt_alloc 4096 s;
       let s = fput32 (f + 176) (of_nat (blockof ind)) s;
       Some (fold (put_indirect ind start) [NDIRECT..<n] s)
     }
     else Some s
   }"

text \<open>A directory in progress is the number of its entries; they start at \<open>ents\<close>.\<close>

definition ents :: "fimg \<Rightarrow> nat" where
  "ents s = fnb s * BLKSIZE"

definition diradd :: "nat \<Rightarrow> u32 \<Rightarrow> u8 list \<Rightarrow> fimg \<Rightarrow> (nat \<times> nat \<times> fimg) option" where
  "diradd n type name s =
     (let out = ents s + 256 * n
      in if MAX_DIR_ENTS < n + 1 \<or> 256 * MAX_DIR_ENTS < 256 * n + length name + 1 then None
         else Some (n + 1, out, fput32 (out + 132) type (fput out (name @ [0]) s)))"

definition finishdir :: "nat \<Rightarrow> fimg \<Rightarrow> fimg option" where
  "finishdir n s = do {
     let sz = 256 * n;
     (start, s) \<leftarrow> fmt_alloc (int sz) s;
     let s = fput start (map (dm (fim s)) [ents s..<ents s + sz]) s;
     finishfile s_root (blockof start) (rup_int (int sz)) s }"

definition last_name :: "u8 list \<Rightarrow> u8 list" where
  "last_name path = rev (takeWhile (\<lambda>c. c \<noteq> 0x2F) (rev path))"

definition writefile :: "nat \<Rightarrow> u8 list \<times> u8 list \<Rightarrow> fimg \<Rightarrow> (nat \<times> fimg) option" where
  "writefile n = (\<lambda>(path, contents) s.
     if MAXFILESIZE \<le> length contents then None
     else do {
       (n, f, s) \<leftarrow> diradd n FTYPE_REG (last_name path) s;
       (start, s) \<leftarrow> fmt_alloc (int (length contents)) s;
       let s = fput start contents s;
       s \<leftarrow> finishfile f (blockof start) (int (length contents)) s;
       Some (n, s)
     })"

fun writefiles :: "(u8 list \<times> u8 list) list \<Rightarrow> nat \<Rightarrow> fimg \<Rightarrow> (nat \<times> fimg) option" where
  "writefiles [] n s = Some (n, s)"
| "writefiles (x # xs) n s = do { (n, s) \<leftarrow> writefile n x s; writefiles xs n s }"

text \<open>\<open>main\<close> after the arguments have been read.\<close>

definition fsformat :: "(nat \<Rightarrow> u8) \<Rightarrow> nat \<Rightarrow> (u8 list \<times> u8 list) list \<Rightarrow> fimg option" where
  "fsformat heap nblocks files =
     (if nblocks < 2 \<or> 10240 < nblocks then None
      else do {
        s \<leftarrow> opendisk heap nblocks;
        (n, s) \<leftarrow> writefiles files 0 s;
        s \<leftarrow> finishdir n s;
        Some (finishdisk s)
      })"

section \<open>Sizes\<close>

definition nblk :: "nat \<Rightarrow> nat" where
  "nblk n = (n + 4095) div BLKSIZE"

lemma nblk_Suc: "nblk (Suc k) * BLKSIZE = k + 4096 - k mod 4096"
proof -
  have "(4096 + k) div 4096 = Suc (k div 4096)" by simp
  moreover have "k div 4096 * 4096 = k - k mod 4096" by (simp add: minus_mod_eq_div_mult)
  moreover have "k mod 4096 \<le> k" by simp
  ultimately show ?thesis by (simp add: nblk_def BLKSIZE_def)
qed

lemma rup32_nat:
  assumes "n < 2 ^ 31"
  shows "rup32 (int n) = int (nblk n * BLKSIZE)"
proof (cases n)
  case 0
  then show ?thesis by (simp add: rup32_def u32i_def nblk_def BLKSIZE_def)
next
  case (Suc k)
  have "u32i (int n - 1) = int k" using assms Suc by (simp add: u32i_def)
  moreover have "nblk n * BLKSIZE = k + 4096 - k mod 4096" using Suc nblk_Suc by simp
  moreover have "k mod 4096 \<le> k + 4096" by (simp add: trans_le_add1)
  ultimately have "rup32 (int n) = u32i (int (nblk n * BLKSIZE))"
    using Suc by (simp add: rup32_def of_nat_diff zmod_int)
  moreover have "nblk n * BLKSIZE < 2 ^ 32" using assms div_times_less_eq_dividend [of "n + 4095" 4096] by (simp add: nblk_def BLKSIZE_def)
  moreover have "u32i (int m) = int m" if "m < 2 ^ 32" for m using that by (simp add: u32i_def)
  ultimately show ?thesis by presburger
qed

lemma rup_int_nat: "0 < n \<Longrightarrow> rup_int (int n) = int (nblk n * BLKSIZE)"
proof -
  assume "0 < n"
  then obtain k where k: "n = Suc k" by (cases n) auto
  have "nblk n * BLKSIZE = k + 4096 - k mod 4096" using k nblk_Suc by simp
  moreover have "k mod 4096 \<le> k + 4096" by (simp add: trans_le_add1)
  ultimately show ?thesis using sdiv_nat(2) [of k] k by (simp add: rup_int_def of_nat_diff BLKSIZE_def)
qed

lemma nblk_cover: "p < n \<Longrightarrow> p div BLKSIZE < nblk n"
  by (simp add: nblk_def BLKSIZE_def)

lemma nblk_exact [simp]: "nblk (nblk n * BLKSIZE) = nblk n" "nblk (k * BLKSIZE) = k"
  by (simp_all add: nblk_def BLKSIZE_def)

lemma fmt_alloc_nat:
  assumes "fmt_alloc (int n) s = Some (start, s')" and "n < 2 ^ 31"
  shows "start = fpos s" and "s' = s\<lparr>fpos := fpos s + nblk n * BLKSIZE\<rparr>" and "blockof (fpos s') < fnb s"
  using assms rup32_nat [OF assms(2)] by (auto simp: fmt_alloc_def Let_def nat_mult_distrib split: if_splits)

lemma blockof_mult [simp]: "blockof (k * BLKSIZE) = k"
  by (simp add: blockof_def BLKSIZE_def)

section \<open>Stores\<close>

lemma fput_simps [simp]:
  "fpos (fput32 a v s) = fpos s" "fnb (fput32 a v s) = fnb s" "fpos (fput a vs s) = fpos s" "fnb (fput a vs s) = fnb s"
  "fim (fput32 a v s) = wr32 a v (fim s)" "fim (fput a vs s) = wr_bytes a vs (fim s)"
  by (simp_all add: fput32_def fput_def)

lemma fput_nil [simp]: "fput a [] s = s"
proof -
  have "wr_bytes a [] (fim s) = fim s" by (cases "fim s") (auto simp: wr_bytes_def upd_bytes_def fun_eq_iff)
  then show ?thesis by (simp add: fput_def)
qed

lemma rd32_zero: "(\<And>j. j < 4 \<Longrightarrow> dm s (a + j) = 0) \<Longrightarrow> rd32 a s = 0"
  unfolding rd32_def using le32_cong [of "\<lambda>j. dm s (a + j)" "\<lambda>_. 0"] by (simp add: le32_def)

text \<open>What a sequence of word stores to consecutive places does.\<close>

definition words_at :: "nat \<Rightarrow> nat \<Rightarrow> nat \<Rightarrow> (nat \<Rightarrow> u32) \<Rightarrow> fimg \<Rightarrow> fimg \<Rightarrow> bool" where
  "words_at a lo hi v s s' \<longleftrightarrow> fpos s' = fpos s \<and> fnb s' = fnb s \<and> (\<forall>i. lo \<le> i \<longrightarrow> i < hi \<longrightarrow> rd32 (a + 4 * (i - lo)) (fim s') = v i) \<and>
     (\<forall>x. \<not> (a \<le> x \<and> x < a + 4 * (hi - lo)) \<longrightarrow> dm (fim s') x = dm (fim s) x)"

lemma fold_words: "words_at a lo hi v s (fold (\<lambda>i. fput32 (a + 4 * (i - lo)) (v i)) [lo..<hi] s)"
proof (induction hi)
  case (Suc hi)
  show ?case
  proof (cases "lo \<le> hi")
    case True
    let ?t = "fold (\<lambda>i. fput32 (a + 4 * (i - lo)) (v i)) [lo..<hi] s"
    have f: "fold (\<lambda>i. fput32 (a + 4 * (i - lo)) (v i)) [lo..<Suc hi] s = fput32 (a + 4 * (hi - lo)) (v hi) ?t" using True by simp
    have "rd32 (a + 4 * (i - lo)) (wr32 (a + 4 * (hi - lo)) (v hi) (fim ?t)) = v i" if "lo \<le> i" "i < Suc hi" for i
    proof (cases "i = hi")
      case False
      then show ?thesis using Suc that by (subst rd32_wr32_other) (auto simp: words_at_def)
    qed simp
    moreover have "dm (wr32 (a + 4 * (hi - lo)) (v hi) (fim ?t)) x = dm (fim s) x" if "\<not> (a \<le> x \<and> x < a + 4 * (Suc hi - lo))" for x
      using Suc that True by (subst dm_wr32) (auto simp: words_at_def)
    ultimately show ?thesis using Suc unfolding f by (simp add: words_at_def)
  next
    case False
    then show ?thesis using Suc by (simp add: words_at_def)
  qed
qed (simp add: words_at_def)

lemma fold_direct: "words_at (f + 136) 0 n (\<lambda>i. of_nat (start + i)) s (fold (put_direct f start) [0..<n] s)"
  using fold_words [of "f + 136" 0 n "\<lambda>i. of_nat (start + i)" s] by (simp add: put_direct_def [abs_def])

lemma fold_indirect: "words_at ind NDIRECT n (\<lambda>i. of_nat (start + i)) s (fold (put_indirect ind start) [NDIRECT..<n] s)"
  using fold_words [of ind NDIRECT n "\<lambda>i. of_nat (start + i)" s] by (simp add: put_indirect_def [abs_def])

section \<open>The layout of the image\<close>

definition layout :: "fimg \<Rightarrow> bool" where
  "layout s \<longleftrightarrow> 3 * BLKSIZE \<le> fpos s \<and> fpos s = blockof (fpos s) * BLKSIZE \<and> blockof (fpos s) < fnb s \<and> fnb s \<le> 10240 \<and>
     (\<forall>a. fpos s \<le> a \<longrightarrow> a < fnb s * BLKSIZE \<longrightarrow> dm (fim s) a = 0)"

text \<open>A file structure as \<open>finishfile\<close> fills it in: size, direct slots, indirect slot and indirect block.\<close>

definition mapped_as :: "fsm \<Rightarrow> nat \<Rightarrow> nat \<Rightarrow> nat \<Rightarrow> nat \<Rightarrow> bool" where
  "mapped_as t f len start ind \<longleftrightarrow> rd32 (f + 128) t = of_nat len \<and>
     (\<forall>i < NDIRECT. rd32 (f + 136 + 4 * i) t = (if i < nblk len then of_nat (start + i) else 0)) \<and>
     rd32 (f + 176) t = (if nblk len < NDIRECT then 0 else of_nat ind) \<and>
     (NDIRECT \<le> nblk len \<longrightarrow> (\<forall>i. NDIRECT \<le> i \<longrightarrow> i < MAXBLOCKS \<longrightarrow>
        rd32 (ind * BLKSIZE + 4 * (i - NDIRECT)) t = (if i < nblk len then of_nat (start + i) else 0)))"

text \<open>The bytes a call may change.\<close>

definition touched :: "nat \<Rightarrow> fimg \<Rightarrow> fimg \<Rightarrow> nat \<Rightarrow> bool" where
  "touched f s s' a \<longleftrightarrow> f + 128 \<le> a \<and> a < f + 180 \<and> \<not> (f + 132 \<le> a \<and> a < f + 136) \<or> fpos s \<le> a \<and> a < fpos s'"

definition direct_done :: "nat \<Rightarrow> nat \<Rightarrow> nat \<Rightarrow> fimg \<Rightarrow> fimg \<Rightarrow> bool" where
  "direct_done f start len s s' \<longleftrightarrow> fpos s' = fpos s \<and> fnb s' = fnb s \<and> rd32 (f + 128) (fim s') = of_nat len \<and>
     (\<forall>i < NDIRECT. rd32 (f + 136 + 4 * i) (fim s') = (if i < nblk len then of_nat (start + i) else 0)) \<and>
     (\<forall>x. \<not> (f + 128 \<le> x \<and> x < f + 132) \<longrightarrow> \<not> (f + 136 \<le> x \<and> x < f + 176) \<longrightarrow> dm (fim s') x = dm (fim s) x)"

lemma finish_direct:
  assumes z: "\<forall>i < NDIRECT. rd32 (f + 136 + 4 * i) (fim s) = 0"
  shows "direct_done f start len s (fold (put_direct f start) [0..<min (nblk len) NDIRECT] (fput32 (f + 128) (of_nat len) s))"
proof -
  let ?n = "nblk len"
  define s1 where "s1 = fput32 (f + 128) (of_nat len) s"
  define s2 where "s2 = fold (put_direct f start) [0..<min ?n NDIRECT] s1"
  have w2: "words_at (f + 136) 0 (min ?n NDIRECT) (\<lambda>i. of_nat (start + i)) s1 s2" unfolding s2_def by (rule fold_direct)
  have "rd32 (f + 128) (fim s2) = rd32 (f + 128) (fim s1)" using w2 by (intro rd32_cong) (auto simp: words_at_def)
  then have size2: "rd32 (f + 128) (fim s2) = of_nat len" by (simp add: s1_def)
  have dir2: "rd32 (f + 136 + 4 * i) (fim s2) = (if i < ?n then of_nat (start + i) else 0)" if "i < NDIRECT" for i
  proof (cases "i < ?n")
    case False
    have "rd32 (f + 136 + 4 * i) (fim s2) = rd32 (f + 136 + 4 * i) (fim s)"
      using w2 False that by (intro rd32_cong) (auto simp: words_at_def s1_def dm_wr32)
    then show ?thesis using z that False by simp
  qed (use w2 that in \<open>auto simp: words_at_def\<close>)
  have "dm (fim s2) x = dm (fim s) x" if "\<not> (f + 128 \<le> x \<and> x < f + 132)" "\<not> (f + 136 \<le> x \<and> x < f + 176)" for x
    using w2 that by (auto simp: words_at_def s1_def dm_wr32 NDIRECT_def)
  then show ?thesis using w2 size2 dir2 unfolding s2_def [symmetric] s1_def [symmetric]
    by (simp add: direct_done_def words_at_def s1_def)
qed

text \<open>With an indirect block, which takes the next free block of the image.\<close>

lemma finish_indirect:
  assumes d: "direct_done f start len s s2" and l: "layout s" and f: "f + 256 \<le> 3 * BLKSIZE \<or> fnb s * BLKSIZE \<le> f"
    and n: "NDIRECT \<le> nblk len" "nblk len \<le> MAXBLOCKS" and a: "blockof (fpos s + BLKSIZE) < fnb s"
    and s': "s' = fold (put_indirect (fpos s) start) [NDIRECT..<nblk len] (fput32 (f + 176) (of_nat (blockof (fpos s))) (s2\<lparr>fpos := fpos s + BLKSIZE\<rparr>))"
  shows "fpos s' = fpos s + BLKSIZE" and "fnb s' = fnb s" and "mapped_as (fim s') f len start (blockof (fpos s))"
    and "\<And>a. \<not> touched f s s' a \<Longrightarrow> dm (fim s') a = dm (fim s) a"
proof -
  define s3 where "s3 = fput32 (f + 176) (of_nat (blockof (fpos s))) (s2\<lparr>fpos := fpos s + BLKSIZE\<rparr>)"
  have w: "words_at (fpos s) NDIRECT (nblk len) (\<lambda>i. of_nat (start + i)) s3 s'" unfolding s' s3_def by (rule fold_indirect)
  have b: "blockof (fpos s) * BLKSIZE = fpos s" using l by (simp add: layout_def)
  have "fpos s + BLKSIZE = Suc (blockof (fpos s)) * BLKSIZE" using b by simp
  then have "Suc (blockof (fpos s)) < fnb s" using a by (simp add: blockof_def BLKSIZE_def)
  then have in_img: "fpos s + BLKSIZE < fnb s * BLKSIZE" using b by (metis \<open>fpos s + BLKSIZE = Suc (blockof (fpos s)) * BLKSIZE\<close> BLKSIZE_def mult_less_cancel2 zero_less_numeral)
  show p: "fpos s' = fpos s + BLKSIZE" "fnb s' = fnb s" using w d by (simp_all add: words_at_def s3_def direct_done_def)
  have k: "4 * (nblk len - NDIRECT) \<le> BLKSIZE" using n by (simp add: MAXBLOCKS_def NDIRECT_def BLKSIZE_def)
  have far: "dm (fim s') x = dm (fim s3) x" if "x < fpos s \<or> fpos s + BLKSIZE \<le> x" for x using w that k by (auto simp: words_at_def)
  have out: "x < fpos s \<or> fpos s + BLKSIZE \<le> x" if "f \<le> x" "x < f + 256" for x
    using f that l in_img by (auto simp: layout_def)
  have rd: "rd32 (f + c) (fim s') = rd32 (f + c) (fim s3)" if "c \<le> 252" for c
    using that by (intro rd32_cong far out) auto
  have r3: "rd32 (f + c) (fim s3) = rd32 (f + c) (fim s2)" if "c + 4 \<le> 176" for c
    using that by (simp add: s3_def rd32_wr32_other)
  show "\<And>a. \<not> touched f s s' a \<Longrightarrow> dm (fim s') a = dm (fim s) a"
    using far d p by (auto simp: touched_def s3_def dm_wr32 direct_done_def)
  have tail: "rd32 (fpos s + 4 * (i - NDIRECT)) (fim s') = 0" if "nblk len \<le> i" "i < MAXBLOCKS" for i
  proof -
    have "dm (fim s') (fpos s + 4 * (i - NDIRECT) + j) = 0" if "j < 4" for j
    proof -
      let ?x = "fpos s + 4 * (i - NDIRECT) + j"
      have "?x < fpos s + BLKSIZE" using \<open>i < MAXBLOCKS\<close> that by (simp add: MAXBLOCKS_def NDIRECT_def BLKSIZE_def)
      moreover have "dm (fim s') ?x = dm (fim s3) ?x" using w \<open>nblk len \<le> i\<close> n(1) by (auto simp: words_at_def)
      moreover have "\<not> (f \<le> ?x \<and> ?x < f + 256)" using out [of ?x] \<open>?x < fpos s + BLKSIZE\<close> by auto
      ultimately show ?thesis using d l in_img by (auto simp: s3_def dm_wr32 direct_done_def layout_def)
    qed
    then show ?thesis by (rule rd32_zero)
  qed
  show "mapped_as (fim s') f len start (blockof (fpos s))"
    using d rd [of 128] r3 [of 128] rd [of 176] rd [of "136 + 4 * _"] r3 [of "136 + 4 * _"] n tail w b
    by (auto simp: mapped_as_def direct_done_def s3_def words_at_def NDIRECT_def add.assoc)
qed

lemma finishfile_spec:
  assumes e: "finishfile f start (int len) s = Some s'" and len: "len < 2 ^ 31" and l: "layout s"
    and z: "\<forall>i < NDIRECT. rd32 (f + 136 + 4 * i) (fim s) = 0" "rd32 (f + 176) (fim s) = 0"
    and f: "f + 256 \<le> 3 * BLKSIZE \<or> fnb s * BLKSIZE \<le> f" and mx: "nblk len \<le> MAXBLOCKS"
  shows "layout s'" and "fnb s' = fnb s" and "mapped_as (fim s') f len start (blockof (fpos s))"
    and "fpos s' = fpos s + (if nblk len < NDIRECT then 0 else BLKSIZE)" and "\<And>a. \<not> touched f s s' a \<Longrightarrow> dm (fim s') a = dm (fim s) a"
proof -
  have n: "nat (rup32 (int len)) div BLKSIZE = nblk len" using rup32_nat [OF len] by (simp add: BLKSIZE_def)
  define s2 where "s2 = fold (put_direct f start) [0..<min (nblk len) NDIRECT] (fput32 (f + 128) (of_nat len) s)"
  have e2: "finishfile f start (int len) s = (if NDIRECT \<le> nblk len then do {
       (ind, t) \<leftarrow> fmt_alloc 4096 s2;
       Some (fold (put_indirect ind start) [NDIRECT..<nblk len] (fput32 (f + 176) (of_nat (blockof ind)) t))
     } else Some s2)"
    unfolding finishfile_def Let_def n s2_def by simp
  have d: "direct_done f start len s s2" unfolding s2_def by (rule finish_direct [OF z(1)])
  have d': "fpos s2 = fpos s" "fnb s2 = fnb s" using d by (simp_all add: direct_done_def)
  have "fnb s' = fnb s \<and> mapped_as (fim s') f len start (blockof (fpos s)) \<and> blockof (fpos s') < fnb s \<and>
      fpos s' = fpos s + (if nblk len < NDIRECT then 0 else BLKSIZE) \<and> (\<forall>a. \<not> touched f s s' a \<longrightarrow> dm (fim s') a = dm (fim s) a)"
  proof (cases "nblk len < NDIRECT")
    case True
    then have s': "s' = s2" using e e2 by simp
    have "rd32 (f + 176) (fim s2) = 0" using z(2) d rd32_cong [of "fim s2" "f + 176" "fim s"] by (auto simp: direct_done_def)
    then show ?thesis using True d l s' by (auto simp: mapped_as_def direct_done_def touched_def layout_def)
  next
    case False
    have r: "rup32 4096 = 4096" by (simp add: rup32_def u32i_def)
    have a: "blockof (fpos s + BLKSIZE) < fnb s"
      and s': "s' = fold (put_indirect (fpos s) start) [NDIRECT..<nblk len] (fput32 (f + 176) (of_nat (blockof (fpos s))) (s2\<lparr>fpos := fpos s + BLKSIZE\<rparr>))"
      using e e2 False d' by (auto simp: Let_def fmt_alloc_def r BLKSIZE_def split: if_splits)
    show ?thesis using finish_indirect [OF d l f _ mx a s'] False a by auto
  qed
  note big = this
  then show "fnb s' = fnb s" "mapped_as (fim s') f len start (blockof (fpos s))"
    "fpos s' = fpos s + (if nblk len < NDIRECT then 0 else BLKSIZE)" "\<And>a. \<not> touched f s s' a \<Longrightarrow> dm (fim s') a = dm (fim s) a" by auto
  have b: "blockof (fpos s') < fnb s" using big by blast
  note q = \<open>fnb s' = fnb s\<close> \<open>fpos s' = fpos s + (if nblk len < NDIRECT then 0 else BLKSIZE)\<close>
  obtain k where "fpos s = k * BLKSIZE" using l by (auto simp: layout_def)
  then have "fpos s' = (k + (if nblk len < NDIRECT then 0 else 1)) * BLKSIZE" using q(2) by simp
  then have "fpos s' = blockof (fpos s') * BLKSIZE" using blockof_mult by presburger
  moreover have "dm (fim s') a = 0" if "fpos s' \<le> a" "a < fnb s' * BLKSIZE" for a
  proof -
    have "\<not> touched f s s' a" using that f q l by (auto simp: touched_def layout_def)
    then show ?thesis using \<open>\<And>a. \<not> touched f s s' a \<Longrightarrow> dm (fim s') a = dm (fim s) a\<close> that q l by (auto simp: layout_def split: if_splits)
  qed
  ultimately show "layout s'" using l b q by (auto simp: layout_def)
qed

section \<open>A file on the image\<close>

definition entry_as :: "fsm \<Rightarrow> nat \<Rightarrow> u8 list \<Rightarrow> u8 list \<Rightarrow> nat \<Rightarrow> nat \<Rightarrow> nat \<Rightarrow> bool" where
  "entry_as t e name c start ind L \<longleftrightarrow> mapped_as t e (length c) start ind \<and> rd32 (e + 132) t = FTYPE_REG \<and>
     (\<forall>i < length name. dm t (e + i) = name ! i) \<and> dm t (e + length name) = 0 \<and>
     (\<forall>p < length c. dm t (start * BLKSIZE + p) = c ! p) \<and> 3 \<le> start \<and> start + nblk (length c) \<le> L \<and>
     (NDIRECT \<le> nblk (length c) \<longrightarrow> start + nblk (length c) \<le> ind \<and> ind < L)"

lemma block_in: "p < n \<Longrightarrow> start * BLKSIZE + p < (start + nblk n) * BLKSIZE"
proof -
  assume "p < n"
  moreover have "n \<le> nblk n * BLKSIZE" using nblk_Suc [of "n - 1"] mod_less_divisor [of 4096 "n - 1"] calculation by (cases n) auto
  ultimately show ?thesis by (simp add: algebra_simps)
qed

text \<open>It stays one when its structure moves and later blocks are written.\<close>

lemma entry_as_move:
  assumes e: "entry_as t e name c start ind L" and n: "length name < 128" and mx: "nblk (length c) \<le> MAXBLOCKS"
    and st: "\<And>i. i < 256 \<Longrightarrow> dm t' (e' + i) = dm t (e + i)"
    and im: "\<And>a. 3 * BLKSIZE \<le> a \<Longrightarrow> a < L * BLKSIZE \<Longrightarrow> dm t' a = dm t a" and L: "L \<le> L'"
  shows "entry_as t' e' name c start ind L'"
proof -
  have rd: "rd32 (e' + k) t' = rd32 (e + k) t" if "k \<le> 252" for k
    unfolding rd32_def using st [of "k + _"] that by (intro le32_cong) (simp add: add.assoc)
  have b: "3 \<le> start" "start + nblk (length c) \<le> L" "NDIRECT \<le> nblk (length c) \<Longrightarrow> start + nblk (length c) \<le> ind \<and> ind < L"
    using e by (auto simp: entry_as_def)
  have lo: "3 * BLKSIZE \<le> start * BLKSIZE" using b(1) by simp
  have data: "dm t' (start * BLKSIZE + p) = dm t (start * BLKSIZE + p)" if "p < length c" for p
  proof -
    have "(start + nblk (length c)) * BLKSIZE \<le> L * BLKSIZE" using b(2) by (rule mult_right_mono) simp
    then show ?thesis using block_in [OF that, of start] lo by (intro im) linarith+
  qed
  have ind: "rd32 (ind * BLKSIZE + 4 * (i - NDIRECT)) t' = rd32 (ind * BLKSIZE + 4 * (i - NDIRECT)) t"
    if "NDIRECT \<le> nblk (length c)" "i < MAXBLOCKS" for i
  proof (rule rd32_cong)
    fix j :: nat
    assume j: "j < 4"
    have "3 \<le> ind" "Suc ind \<le> L" using b(1) b(3) [OF that(1)] by auto
    then have "3 * BLKSIZE \<le> ind * BLKSIZE" "Suc ind * BLKSIZE \<le> L * BLKSIZE" by (intro mult_right_mono; simp)+
    moreover have "4 * (i - NDIRECT) + j < BLKSIZE" using that(2) j by (simp add: MAXBLOCKS_def NDIRECT_def BLKSIZE_def)
    ultimately show "dm t' (ind * BLKSIZE + 4 * (i - NDIRECT) + j) = dm t (ind * BLKSIZE + 4 * (i - NDIRECT) + j)" by (intro im) (linarith, simp)
  qed
  have "mapped_as t' e' (length c) start ind"
    using e rd [of 128] rd [of 176] rd [of "136 + 4 * _"] ind by (auto simp: entry_as_def mapped_as_def add.assoc NDIRECT_def)
  moreover have "rd32 (e' + 132) t' = FTYPE_REG" using e rd [of 132] by (simp add: entry_as_def)
  moreover have "dm t' (e' + i) = dm t (e + i)" if "i \<le> length name" for i using st [of i] that n by simp
  ultimately show ?thesis using e data L b by (auto simp: entry_as_def)
qed

text \<open>
  The image while files are being written: \<open>fs\<close> are on it, their structures are in the table, the
  rest of the table is zero, and the blocks before the data are those of \<open>opendisk\<close>.
\<close>

definition written :: "(nat \<Rightarrow> u8) \<Rightarrow> (u8 list \<times> u8 list) list \<Rightarrow> fimg \<Rightarrow> bool" where
  "written low fs s \<longleftrightarrow> layout s \<and>
     (\<forall>i < length fs. \<exists>start ind. entry_as (fim s) (ents s + 256 * i) (last_name (fst (fs ! i))) (snd (fs ! i)) start ind (blockof (fpos s))) \<and>
     (\<forall>a. ents s + 256 * length fs \<le> a \<longrightarrow> dm (fim s) a = 0) \<and> (\<forall>a < 3 * BLKSIZE. dm (fim s) a = low a)"

definition good_file :: "u8 list \<times> u8 list \<Rightarrow> bool" where
  "good_file x \<longleftrightarrow> length (last_name (fst x)) < 128"

lemma max_blocks: "n < MAXFILESIZE \<Longrightarrow> nblk n \<le> MAXBLOCKS \<and> n < 2 ^ 31"
  by (simp add: MAXFILESIZE_def nblk_def MAXBLOCKS_def BLKSIZE_def)

text \<open>The state before \<open>finishfile\<close>: name and type are in the table, the bytes on the image.\<close>

lemma file_data:
  fixes v :: u32
  assumes l: "layout s" and f: "ents s \<le> f" and z: "\<forall>a. f \<le> a \<longrightarrow> dm (fim s) a = 0" and ln: "length name < 128"
    and b: "blockof (fpos s) + nblk (length c) < fnb s"
  defines "s3 \<equiv> fput (fpos s) c ((fput32 (f + 132) v (fput f (name @ [0]) s))\<lparr>fpos := fpos s + nblk (length c) * BLKSIZE\<rparr>)"
  shows "layout s3" and "\<And>a. \<not> (f \<le> a \<and> a < f + 136) \<Longrightarrow> \<not> (fpos s \<le> a \<and> a < fpos s3) \<Longrightarrow> dm (fim s3) a = dm (fim s) a"
    and "\<And>p. p < length c \<Longrightarrow> dm (fim s3) (fpos s + p) = c ! p" and "\<And>i. i \<le> length name \<Longrightarrow> dm (fim s3) (f + i) = (name @ [0]) ! i"
    and "rd32 (f + 132) (fim s3) = v" and "fpos s3 = (blockof (fpos s) + nblk (length c)) * BLKSIZE" and "fnb s3 = fnb s"
proof -
  define k where "k = blockof (fpos s)"
  have k: "fpos s = k * BLKSIZE" "3 \<le> k" using l by (auto simp: layout_def k_def blockof_def BLKSIZE_def)
  show p3: "fpos s3 = (blockof (fpos s) + nblk (length c)) * BLKSIZE" "fnb s3 = fnb s"
    using k by (simp_all add: s3_def add_mult_distrib)
  have fit: "length c \<le> nblk (length c) * BLKSIZE"
    using block_in [of "length c - 1" "length c" 0] by (cases "length c") auto
  have "(k + nblk (length c)) * BLKSIZE \<le> fnb s * BLKSIZE" using b k_def by (intro mult_right_mono) auto
  then have img: "fpos s + nblk (length c) * BLKSIZE \<le> ents s" using k by (simp add: ents_def algebra_simps)
  have dm3: "dm (fim s3) a = (if fpos s \<le> a \<and> a < fpos s + length c then c ! (a - fpos s)
      else dm (wr32 (f + 132) v (wr_bytes f (name @ [0]) (fim s))) a)" for a
    by (simp add: s3_def dm_wr_bytes)
  show out: "dm (fim s3) a = dm (fim s) a" if "\<not> (f \<le> a \<and> a < f + 136)" "\<not> (fpos s \<le> a \<and> a < fpos s3)" for a
  proof -
    have "\<not> (fpos s \<le> a \<and> a < fpos s + length c)" using that(2) fit k p3 by (auto simp: add_mult_distrib)
    then show ?thesis using that(1) ln by (auto simp: dm3 dm_wr32 dm_wr_bytes)
  qed
  show "dm (fim s3) (fpos s + p) = c ! p" if "p < length c" for p using that by (simp add: dm3)
  show "dm (fim s3) (f + i) = (name @ [0]) ! i" if "i \<le> length name" for i
    using that ln img f fit by (auto simp: dm3 dm_wr32 dm_wr_bytes)
  have "rd32 (f + 132) (fim s3) = rd32 (f + 132) (wr32 (f + 132) v (wr_bytes f (name @ [0]) (fim s)))"
    using img f fit by (intro rd32_cong) (auto simp: dm3)
  then show "rd32 (f + 132) (fim s3) = v" by simp
  have "dm (fim s3) a = 0" if "fpos s3 \<le> a" "a < fnb s3 * BLKSIZE" for a
    using out [of a] that l p3 f k by (auto simp: layout_def ents_def add_mult_distrib)
  moreover have "3 * BLKSIZE \<le> fpos s3" using k p3 k_def by simp
  ultimately show "layout s3" using l b p3 by (simp add: layout_def)
qed

definition with_data :: "nat \<Rightarrow> u8 list \<Rightarrow> u8 list \<Rightarrow> fimg \<Rightarrow> fimg" where
  "with_data f name c s =
     fput (fpos s) c ((fput32 (f + 132) FTYPE_REG (fput f (name @ [0]) s))\<lparr>fpos := fpos s + nblk (length c) * BLKSIZE\<rparr>)"

lemma writefile_unfold:
  assumes l: "layout s" and e: "writefile n x s = Some (n', s')"
  shows "length (snd x) < MAXFILESIZE" and "n' = n + 1" and "blockof (fpos s) + nblk (length (snd x)) < fnb s"
    and "finishfile (ents s + 256 * n) (blockof (fpos s)) (int (length (snd x)))
      (with_data (ents s + 256 * n) (last_name (fst x)) (snd x) s) = Some s'"
proof -
  let ?name = "last_name (fst x)" and ?c = "snd x" and ?f = "ents s + 256 * n"
  show lc: "length ?c < MAXFILESIZE" using e by (auto simp: writefile_def split: if_splits prod.splits)
  define s1 where "s1 = fput32 (?f + 132) FTYPE_REG (fput ?f (?name @ [0]) s)"
  obtain start s2 where a: "fmt_alloc (int (length ?c)) s1 = Some (start, s2)" and n': "n' = n + 1"
      and ff: "finishfile ?f (blockof start) (int (length ?c)) (fput start ?c s2) = Some s'"
    using e lc by (auto simp: writefile_def diradd_def s1_def Let_def bind_eq_Some_conv split: if_splits prod.splits)
  show "n' = n + 1" by (rule n')
  note al = fmt_alloc_nat [OF a] max_blocks [OF lc]
  have "fpos s = blockof (fpos s) * BLKSIZE" using l by (simp add: layout_def)
  then show "blockof (fpos s) + nblk (length ?c) < fnb s"
    using al blockof_mult [of "blockof (fpos s) + nblk (length ?c)"] by (simp add: s1_def add_mult_distrib)
  show "finishfile ?f (blockof (fpos s)) (int (length ?c)) (with_data ?f ?name ?c s) = Some s'"
    using ff al by (simp add: with_data_def s1_def)
qed

lemma writefile_image:
  assumes l: "layout s" and e: "writefile n x s = Some (n', s')" and g: "good_file x"
    and zz: "\<forall>a. ents s + 256 * n \<le> a \<longrightarrow> dm (fim s) a = 0"
  shows "layout s'" and "fnb s' = fnb s" and "fpos s \<le> fpos s'" and "fpos s' \<le> ents s" and "blockof (fpos s) \<le> blockof (fpos s')"
    and "\<And>a. \<not> (ents s + 256 * n \<le> a \<and> a < ents s + 256 * n + 256) \<Longrightarrow> \<not> (fpos s \<le> a \<and> a < fpos s') \<Longrightarrow> dm (fim s') a = dm (fim s) a"
    and "\<exists>start ind. entry_as (fim s') (ents s + 256 * n) (last_name (fst x)) (snd x) start ind (blockof (fpos s'))"
proof -
  let ?name = "last_name (fst x)" and ?c = "snd x" and ?f = "ents s + 256 * n" and ?k = "blockof (fpos s)"
  note z = zz [rule_format]
  note u = writefile_unfold [OF l e]
  note mx = max_blocks [OF u(1), THEN conjunct1] max_blocks [OF u(1), THEN conjunct2]
  have k: "fpos s = ?k * BLKSIZE" "3 \<le> ?k" using l by (auto simp: layout_def blockof_def BLKSIZE_def)
  have ln: "length ?name < 128" using g by (simp add: good_file_def)
  define s3 where "s3 = with_data ?f ?name ?c s"
  note fd = file_data [where f = "?f" and v = FTYPE_REG, OF l le_add1 zz ln u(3), folded with_data_def, folded s3_def]
  have z3: "rd32 (?f + 136 + j) (fim s3) = 0" for j
  proof (rule rd32_zero)
    fix i
    have "fpos s3 \<le> ents s" using fd(6) u(3) by (simp add: ents_def)
    then show "dm (fim s3) (?f + 136 + j + i) = 0" using fd(2) [of "?f + 136 + j + i"] z [of "?f + 136 + j + i"] by auto
  qed
  have fh: "?f + 256 \<le> 3 * BLKSIZE \<or> fnb s3 * BLKSIZE \<le> ?f" using fd(7) by (simp add: ents_def)
  have "rd32 (?f + 176) (fim s3) = 0" using z3 [of 40] by (simp add: add.assoc)
  have "\<forall>i < NDIRECT. rd32 (?f + 136 + 4 * i) (fim s3) = 0" using z3 by blast
  note ff = finishfile_spec [OF u(4) [folded s3_def] mx(2) fd(1) this \<open>rd32 (?f + 176) (fim s3) = 0\<close> fh mx(1)]
  show "layout s'" by (rule ff(1))
  show nb: "fnb s' = fnb s" using ff(2) fd(7) by simp
  have k3: "blockof (fpos s3) = ?k + nblk (length ?c)" using fd(6) by simp
  have kk: "?k + nblk (length ?c) \<le> blockof (fpos s')" "NDIRECT \<le> nblk (length ?c) \<Longrightarrow> ?k + nblk (length ?c) < blockof (fpos s')"
    using ff(4) fd(6) by (auto simp: blockof_def BLKSIZE_def)
  have low: "fpos s \<le> fpos s3" "fpos s3 \<le> fpos s'" using fd(6) k ff(4) by (auto simp: add_mult_distrib)
  have "fpos s' \<le> fnb s * BLKSIZE" using ff(1) nb mult_right_mono [of "blockof (fpos s')" "fnb s" BLKSIZE] by (simp add: layout_def)
  then show top: "fpos s' \<le> ents s" by (simp add: ents_def)
  show "fpos s \<le> fpos s'" "blockof (fpos s) \<le> blockof (fpos s')" using low kk(1) by simp_all
  show "dm (fim s') a = dm (fim s) a" if "\<not> (?f \<le> a \<and> a < ?f + 256)" "\<not> (fpos s \<le> a \<and> a < fpos s')" for a
    using ff(5) [of a] fd(2) [of a] that low by (auto simp: touched_def)
  have same: "dm (fim s') a = dm (fim s3) a" if "?f \<le> a \<and> a < ?f + 128 \<or> ?f + 132 \<le> a \<and> a < ?f + 136 \<or> a < fpos s3" for a
    using ff(5) [of a] that top low by (auto simp: touched_def)
  have "entry_as (fim s') ?f ?name ?c ?k (blockof (fpos s3)) (blockof (fpos s'))"
  proof -
    have "rd32 (?f + 132) (fim s') = FTYPE_REG" using fd(5) rd32_cong [of "fim s'" "?f + 132" "fim s3"] same by auto
    moreover have "dm (fim s') (?f + i) = (?name @ [0]) ! i" if "i \<le> length ?name" for i using same fd(4) that ln by auto
    moreover have "dm (fim s') (?k * BLKSIZE + p) = ?c ! p" if "p < length ?c" for p
      using same [of "fpos s + p"] fd(3) [OF that] block_in [OF that, of ?k] fd(6) k by simp
    ultimately show ?thesis using ff(3) k kk k3 by (auto simp: entry_as_def nth_append)
  qed
  then show "\<exists>start ind. entry_as (fim s') ?f ?name ?c start ind (blockof (fpos s'))" by blast
qed

lemma writefile_spec:
  assumes w: "written low fs s" and e: "writefile (length fs) x s = Some (n', s')" and g: "\<forall>y \<in> set (x # fs). good_file y"
    and c: "\<forall>y \<in> set fs. length (snd y) < MAXFILESIZE"
  shows "written low (fs @ [x]) s'" and "fnb s' = fnb s"
proof -
  have l: "layout s" and zz: "\<forall>a. ents s + 256 * length fs \<le> a \<longrightarrow> dm (fim s) a = 0" using w by (auto simp: written_def)
  have k: "fpos s = blockof (fpos s) * BLKSIZE" using l by (simp add: layout_def)
  have "good_file x" using g by simp
  note i = writefile_image [OF l e this zz]
  show "fnb s' = fnb s" by (rule i(2))
  then have en: "ents s' = ents s" by (simp add: ents_def)
  have "\<exists>start ind. entry_as (fim s') (ents s + 256 * j) (last_name (fst (fs ! j))) (snd (fs ! j)) start ind (blockof (fpos s'))"
    if j: "j < length fs" for j
  proof -
    obtain start ind where o: "entry_as (fim s) (ents s + 256 * j) (last_name (fst (fs ! j))) (snd (fs ! j)) start ind (blockof (fpos s))"
      using w j by (auto simp: written_def)
    have "good_file (fs ! j)" "length (snd (fs ! j)) < MAXFILESIZE" using g c j by (auto simp: nth_mem)
    then have "entry_as (fim s') (ents s + 256 * j) (last_name (fst (fs ! j))) (snd (fs ! j)) start ind (blockof (fpos s'))"
      using j i(3-5) k max_blocks by (intro entry_as_move [OF o] i(6)) (auto simp: good_file_def)
    then show ?thesis by blast
  qed
  then have "\<exists>start ind. entry_as (fim s') (ents s' + 256 * j) (last_name (fst ((fs @ [x]) ! j))) (snd ((fs @ [x]) ! j)) start ind (blockof (fpos s'))"
    if "j < length (fs @ [x])" for j
    using that i(7) unfolding en by (cases "j < length fs") (auto simp: nth_append less_Suc_eq)
  moreover have "dm (fim s') a = 0" if "ents s' + 256 * length (fs @ [x]) \<le> a" for a
    using i(4) i(6) [of a] zz that unfolding en by auto
  moreover have "dm (fim s') a = low a" if "a < 3 * BLKSIZE" for a
    using i(3,4) i(6) [of a] that w l by (auto simp: written_def layout_def)
  ultimately show "written low (fs @ [x]) s'" using i(1) by (simp add: written_def)
qed

lemma writefiles_spec:
  assumes "writefiles xs (length fs) s = Some (n', s')" and "written low fs s" and "\<forall>y \<in> set (xs @ fs). good_file y"
    and "\<forall>y \<in> set fs. length (snd y) < MAXFILESIZE"
  shows "n' = length (fs @ xs) \<and> written low (fs @ xs) s' \<and> fnb s' = fnb s \<and> (\<forall>y \<in> set (fs @ xs). length (snd y) < MAXFILESIZE)"
  using assms
proof (induction xs arbitrary: fs s)
  case (Cons x xs)
  then obtain m s1 where s1: "writefile (length fs) x s = Some (m, s1)" "writefiles xs m s1 = Some (n', s')"
    by (auto simp: bind_eq_Some_conv)
  have "layout s" using Cons.prems(2) by (simp add: written_def)
  note u = writefile_unfold [OF this s1(1)]
  note wf = writefile_spec [OF Cons.prems(2) s1(1)]
  have "n' = length ((fs @ [x]) @ xs) \<and> written low ((fs @ [x]) @ xs) s' \<and> fnb s' = fnb s1 \<and>
      (\<forall>y \<in> set ((fs @ [x]) @ xs). length (snd y) < MAXFILESIZE)"
    using Cons.prems s1(2) u(1,2) wf by (intro Cons.IH) auto
  then show ?case using wf Cons.prems by simp
qed simp

section \<open>The finished image\<close>

text \<open>What \<open>opendisk\<close> leaves in the first three blocks.\<close>

definition low_ok :: "nat \<Rightarrow> (nat \<Rightarrow> u8) \<Rightarrow> bool" where
  "low_ok nb m \<longleftrightarrow> le32 (\<lambda>i. m (BLKSIZE + i)) = FS_MAGIC \<and> le32 (\<lambda>i. m (BLKSIZE + 4 + i)) = of_nat nb \<and>
     le32 (\<lambda>i. m (s_root + 132 + i)) = FTYPE_DIR \<and> (\<forall>a. s_root + 136 \<le> a \<longrightarrow> a < s_root + 180 \<longrightarrow> m a = 0) \<and>
     (\<forall>a. 2 * BLKSIZE \<le> a \<longrightarrow> a < 3 * BLKSIZE \<longrightarrow> m a = 0xFF)"

lemma opendisk_spec:
  assumes e: "opendisk (\<lambda>_. 0) nb = Some s" and nb: "nb \<le> 10240"
  shows "written (dm (fim s)) [] s" and "fnb s = nb" and "low_ok nb (dm (fim s))" and "fpos s = 3 * BLKSIZE"
proof -
  have r: "rup32 4096 = 4096" by (simp add: rup32_def u32i_def)
  have z: "(\<lambda>a. if a < nb * BLKSIZE then 0 else 0 :: u8) = (\<lambda>_. 0)" by (rule ext) simp
  let ?s0 = "\<lparr>fim = \<lparr>dm = (\<lambda>_. 0 :: u8), disk = (\<lambda>_. 0)\<rparr>, fpos = 2 * BLKSIZE, fnb = nb\<rparr>"
  have "0 < nb" using e by (cases nb) (auto simp: opendisk_def fmt_alloc_def)
  then have one: "(nb + 32768 - 1) div 32768 = 1" using nb by (intro div_nat_eqI) auto
  define s1 where "s1 = fput (BLKSIZE + 8) [0x2F, 0] (fput32 (BLKSIZE + 8 + 132) FTYPE_DIR (fput32 (BLKSIZE + 4) (of_nat nb) (fput32 BLKSIZE FS_MAGIC ?s0)))"
  have s: "s = fput (2 * BLKSIZE) (replicate BLKSIZE 0xFF) (s1\<lparr>fpos := 3 * BLKSIZE\<rparr>)" and b: "3 < nb"
    using e unfolding opendisk_def Let_def one z
    by (auto simp: fmt_alloc_def r Let_def s1_def blockof_def BLKSIZE_def fput_def fput32_def split: if_splits)
  have dm: "dm (fim s) a = (if 2 * BLKSIZE \<le> a \<and> a < 3 * BLKSIZE then 0xFF else dm (fim s1) a)" for a
    by (auto simp: s dm_wr_bytes)
  have rd: "rd32 x (fim s) = rd32 x (fim s1)" if "x + 4 \<le> 2 * BLKSIZE" for x
    using that by (intro rd32_cong) (auto simp: dm)
  have hi: "dm (fim s1) a = 0" if "BLKSIZE + 8 + 136 \<le> a" for a using that by (simp add: s1_def dm_wr_bytes dm_wr32)
  have "rd32 BLKSIZE (fim s1) = FS_MAGIC" "rd32 (BLKSIZE + 4) (fim s1) = of_nat nb" "rd32 (BLKSIZE + 8 + 132) (fim s1) = FTYPE_DIR"
    by (simp_all add: s1_def rd32_wr_bytes_other rd32_wr32_other)
  then show "low_ok nb (dm (fim s))"
    using rd [of BLKSIZE] rd [of "BLKSIZE + 4"] rd [of "BLKSIZE + 8 + 132"] dm hi
    by (simp add: low_ok_def rd32_def s_root_def BLKSIZE_def)
  have top: "dm (fim s) a = 0" if "3 * BLKSIZE \<le> a" for a using dm [of a] hi [of a] that by (simp add: BLKSIZE_def)
  show pos: "fpos s = 3 * BLKSIZE" "fnb s = nb" by (simp_all add: s s1_def)
  have "layout s" using b nb top unfolding layout_def pos blockof_mult by simp
  moreover have "3 * BLKSIZE \<le> a" if "ents s \<le> a" for a
    using that b by (simp add: ents_def pos BLKSIZE_def)
  ultimately show "written (dm (fim s)) [] s" using top by (simp add: written_def)
qed

text \<open>The table holds at most \<open>MAX_DIR_ENTS\<close> entries.\<close>

lemma writefiles_max:
  "writefiles xs n s = Some (n', s') \<Longrightarrow> n \<le> MAX_DIR_ENTS \<Longrightarrow> n' \<le> MAX_DIR_ENTS"
proof (induction xs arbitrary: n s)
  case (Cons x xs)
  then obtain m s1 where s1: "writefile n x s = Some (m, s1)" "writefiles xs m s1 = Some (n', s')"
    by (auto simp: bind_eq_Some_conv)
  have "m \<le> MAX_DIR_ENTS"
    using s1(1) by (auto simp: writefile_def diradd_def Let_def bind_eq_Some_conv split: if_splits prod.splits)
  then show ?case using Cons.IH s1(2) by blast
qed simp

end
