(* ===== verification/Fsformat_Spec.thy ===== *)
theory Fsformat_Spec
  imports Fsformat
begin

text \<open>
  The finished image: the directory, the bitmap, and what the file system finds on it when it is
  mounted.
\<close>

section \<open>The bitmap\<close>

lemma is_free_clear:
  "is_free (fim (clear_bit32 b s)) c = (is_free (fim s) c \<and> c \<noteq> b)"
proof (cases "b div 32 = c div 32")
  case True
  then have w: "bitmap_word c = bitmap_word b" by (simp add: bitmap_word_def)
  show ?thesis using div_mod_32 [OF True]
    by (auto simp: clear_bit32_def is_free_def w bit_and_iff bit_not_iff bit_push_bit_iff bit_1_iff bit_exp_iff possible_bit_word)
next
  case False
  then show ?thesis using rd32_wr32_other [OF bitmap_word_other [OF False]] by (auto simp: is_free_def clear_bit32_def)
qed

lemma finishdisk_fold:
  assumes "k \<le> 32768"
  shows "(\<forall>b. is_free (fim (fold clear_bit32 [0..<k] s)) b \<longleftrightarrow> is_free (fim s) b \<and> k \<le> b) \<and>
    (\<forall>a. a < 2 * BLKSIZE \<or> 3 * BLKSIZE \<le> a \<longrightarrow> dm (fim (fold clear_bit32 [0..<k] s)) a = dm (fim s) a)"
  using assms
proof (induction k)
  case (Suc k)
  let ?t = "fold clear_bit32 [0..<k] s"
  have f: "fold clear_bit32 [0..<Suc k] s = clear_bit32 k ?t" by simp
  have "2 * BLKSIZE \<le> bitmap_word k" "bitmap_word k + 4 \<le> 3 * BLKSIZE" using Suc.prems by (simp_all add: bitmap_word_def BLKSIZE_def)
  then have "dm (fim (clear_bit32 k ?t)) a = dm (fim ?t) a" if "a < 2 * BLKSIZE \<or> 3 * BLKSIZE \<le> a" for a
    using that unfolding clear_bit32_def fput_simps by (intro dm_wr32) auto
  then show ?case using Suc unfolding f is_free_clear by auto
qed simp

lemma all_free:
  assumes "\<And>a. 2 * BLKSIZE \<le> a \<Longrightarrow> a < 3 * BLKSIZE \<Longrightarrow> dm t a = 0xFF" and "b < 32768"
  shows "is_free t b"
proof -
  have r: "2 * BLKSIZE \<le> bitmap_word b" "bitmap_word b + 4 \<le> 3 * BLKSIZE" using assms(2) by (simp_all add: bitmap_word_def BLKSIZE_def)
  have "rd32 (bitmap_word b) t = le32 (\<lambda>_. 0xFF)" unfolding rd32_def using r by (intro le32_cong assms(1)) auto
  moreover have "le32 (\<lambda>_. 0xFF) = mask 32" by (simp add: le32_def mask_eq_exp_minus_1)
  ultimately show ?thesis by (simp add: is_free_def bit_mask_iff possible_bit_word)
qed

section \<open>The directory\<close>

definition dir_done :: "(nat \<Rightarrow> u8) \<Rightarrow> (u8 list \<times> u8 list) list \<Rightarrow> nat \<Rightarrow> fimg \<Rightarrow> bool" where
  "dir_done low fs d s \<longleftrightarrow> layout s \<and> 3 \<le> d \<and> d + nblk (256 * length fs) = blockof (fpos s) \<and>
     mapped_as (fim s) s_root (nblk (256 * length fs) * BLKSIZE) d (blockof (fpos s)) \<and>
     (\<forall>i < length fs. \<exists>start ind. entry_as (fim s) (d * BLKSIZE + 256 * i) (last_name (fst (fs ! i))) (snd (fs ! i)) start ind d) \<and>
     (\<forall>a. d * BLKSIZE + 256 * length fs \<le> a \<longrightarrow> a < fpos s \<longrightarrow> dm (fim s) a = 0) \<and>
     (\<forall>a < 3 * BLKSIZE. \<not> (s_root + 128 \<le> a \<and> a < s_root + 132) \<longrightarrow> \<not> (s_root + 136 \<le> a \<and> a < s_root + 180) \<longrightarrow> dm (fim s) a = low a)"

lemma dir_blocks: "n \<le> MAX_DIR_ENTS \<Longrightarrow> nblk (256 * n) < NDIRECT"
  by (simp add: nblk_def NDIRECT_def BLKSIZE_def MAX_DIR_ENTS_def less_mult_imp_div_less)

text \<open>The table is copied to the next free blocks.\<close>

definition with_dir :: "nat \<Rightarrow> fimg \<Rightarrow> fimg" where
  "with_dir sz s = fput (fpos s) (map (dm (fim s)) [ents s..<ents s + sz]) (s\<lparr>fpos := fpos s + nblk sz * BLKSIZE\<rparr>)"

lemma with_dir_spec:
  assumes l: "layout s" and b: "blockof (fpos s) + nblk sz < fnb s"
  shows "layout (with_dir sz s)" and "fpos (with_dir sz s) = (blockof (fpos s) + nblk sz) * BLKSIZE" and "fnb (with_dir sz s) = fnb s"
    and "\<And>a. dm (fim (with_dir sz s)) a = (if fpos s \<le> a \<and> a < fpos s + sz then dm (fim s) (ents s + (a - fpos s)) else dm (fim s) a)"
proof -
  define k where "k = blockof (fpos s)"
  have k: "fpos s = k * BLKSIZE" "3 \<le> k" using l by (auto simp: layout_def k_def blockof_def BLKSIZE_def)
  show p: "fpos (with_dir sz s) = (blockof (fpos s) + nblk sz) * BLKSIZE" "fnb (with_dir sz s) = fnb s"
    using k by (simp_all add: with_dir_def add_mult_distrib)
  show dm: "dm (fim (with_dir sz s)) a = (if fpos s \<le> a \<and> a < fpos s + sz then dm (fim s) (ents s + (a - fpos s)) else dm (fim s) a)" for a
    by (auto simp: with_dir_def dm_wr_bytes)
  have fit: "fpos s + sz \<le> fpos (with_dir sz s)"
    using block_in [of "sz - 1" sz k] k p by (cases sz) (auto simp: k_def [symmetric])
  have "dm (fim (with_dir sz s)) a = 0" if "fpos (with_dir sz s) \<le> a" "a < fnb s * BLKSIZE" for a
    using that fit l dm [of a] by (auto simp: layout_def)
  moreover have "3 * BLKSIZE \<le> fpos (with_dir sz s)" using k p k_def by simp
  ultimately show "layout (with_dir sz s)" using l b p by (simp add: layout_def)
qed

lemma finishdir_unfold:
  assumes l: "layout s" and e: "finishdir n s = Some s'" and n: "0 < n" "n \<le> MAX_DIR_ENTS"
  shows "blockof (fpos s) + nblk (256 * n) < fnb s"
    and "finishfile s_root (blockof (fpos s)) (int (nblk (256 * n) * BLKSIZE)) (with_dir (256 * n) s) = Some s'"
proof -
  have small: "256 * n < 2 ^ 31" using n by (simp add: MAX_DIR_ENTS_def)
  obtain start s1 where a: "fmt_alloc (int (256 * n)) s = Some (start, s1)"
    and ff: "finishfile s_root (blockof start) (rup_int (int (256 * n))) (fput start (map (dm (fim s1)) [ents s1..<ents s1 + 256 * n]) s1) = Some s'"
    using e by (auto simp: finishdir_def Let_def bind_eq_Some_conv)
  note al = fmt_alloc_nat [OF a small]
  have "fpos s = blockof (fpos s) * BLKSIZE" using l by (simp add: layout_def)
  then show "blockof (fpos s) + nblk (256 * n) < fnb s"
    using al blockof_mult [of "blockof (fpos s) + nblk (256 * n)"] by (simp add: add_mult_distrib)
  have "ents s1 = ents s" "fim s1 = fim s" using al(2) by (simp_all add: ents_def)
  then show "finishfile s_root (blockof (fpos s)) (int (nblk (256 * n) * BLKSIZE)) (with_dir (256 * n) s) = Some s'"
    using ff al rup_int_nat [of "256 * n"] n unfolding with_dir_def by simp
qed

lemma finishdir_image:
  assumes l: "layout s" and e: "finishdir n s = Some s'" and n: "0 < n" "n \<le> MAX_DIR_ENTS"
    and zero: "\<And>a. s_root + 136 \<le> a \<Longrightarrow> a < s_root + 180 \<Longrightarrow> dm (fim s) a = 0"
  shows "layout s'" and "fnb s' = fnb s" and "fpos s' = (blockof (fpos s) + nblk (256 * n)) * BLKSIZE"
    and "mapped_as (fim s') s_root (nblk (256 * n) * BLKSIZE) (blockof (fpos s)) (blockof (fpos s'))"
    and "\<And>a. \<not> (s_root + 128 \<le> a \<and> a < s_root + 132) \<Longrightarrow> \<not> (s_root + 136 \<le> a \<and> a < s_root + 180) \<Longrightarrow>
      dm (fim s') a = (if fpos s \<le> a \<and> a < fpos s + 256 * n then dm (fim s) (ents s + (a - fpos s)) else dm (fim s) a)"
proof -
  let ?s1 = "with_dir (256 * n) s" and ?k = "blockof (fpos s)"
  note u = finishdir_unfold [OF l e n]
  note d = with_dir_spec [OF l u(1)]
  have z: "dm (fim ?s1) a = 0" if "s_root + 136 \<le> a" "a < s_root + 180" for a
    using d(4) [of a] zero [of a] that l by (simp add: layout_def s_root_def BLKSIZE_def)
  have z1: "\<forall>i < NDIRECT. rd32 (s_root + 136 + 4 * i) (fim ?s1) = 0" by (intro allI impI rd32_zero z) (simp_all add: NDIRECT_def)
  have z2: "rd32 (s_root + 176) (fim ?s1) = 0" by (intro rd32_zero z) simp_all
  have b: "nblk (nblk (256 * n) * BLKSIZE) < NDIRECT" using dir_blocks [OF n(2)] by simp
  then have m: "nblk (nblk (256 * n) * BLKSIZE) \<le> MAXBLOCKS" "nblk (256 * n) * BLKSIZE < 2 ^ 31"
    using dir_blocks [OF n(2)] by (simp_all add: NDIRECT_def MAXBLOCKS_def BLKSIZE_def)
  have h: "s_root + 256 \<le> 3 * BLKSIZE \<or> fnb ?s1 * BLKSIZE \<le> s_root" by (simp add: s_root_def BLKSIZE_def)
  note ff = finishfile_spec [OF u(2) m(2) d(1) z1 z2 h m(1)]
  show "layout s'" "fnb s' = fnb s" by (rule ff(1)) (simp add: ff(2) d(3))
  have p: "fpos s' = fpos ?s1" using ff(4) b by simp
  then show "fpos s' = (?k + nblk (256 * n)) * BLKSIZE" by (simp add: d(2))
  show "mapped_as (fim s') s_root (nblk (256 * n) * BLKSIZE) ?k (blockof (fpos s'))" using ff(3) p by simp
  show "dm (fim s') a = (if fpos s \<le> a \<and> a < fpos s + 256 * n then dm (fim s) (ents s + (a - fpos s)) else dm (fim s) a)"
    if "\<not> (s_root + 128 \<le> a \<and> a < s_root + 132)" "\<not> (s_root + 136 \<le> a \<and> a < s_root + 180)" for a
    using ff(5) [of a] that p d(4) [of a] by (auto simp: touched_def)
qed

lemma finishdir_spec:
  assumes w: "written low fs s" and e: "finishdir (length fs) s = Some s'" and n: "0 < length fs" "length fs \<le> MAX_DIR_ENTS"
    and g: "\<forall>y \<in> set fs. good_file y \<and> length (snd y) < MAXFILESIZE" and lo: "low_ok nb low"
  shows "dir_done low fs (blockof (fpos s)) s'" and "fnb s' = fnb s"
proof -
  let ?sz = "256 * length fs" and ?k = "blockof (fpos s)"
  have l: "layout s" and lw: "\<And>a. a < 3 * BLKSIZE \<Longrightarrow> dm (fim s) a = low a" using w by (auto simp: written_def)
  have k: "fpos s = ?k * BLKSIZE" "3 \<le> ?k" using l by (auto simp: layout_def blockof_def BLKSIZE_def)
  have "dm (fim s) a = 0" if "s_root + 136 \<le> a" "a < s_root + 180" for a
    using lw [of a] lo that by (simp add: low_ok_def s_root_def BLKSIZE_def)
  note i = finishdir_image [OF l e n this]
  show "fnb s' = fnb s" by (rule i(2))
  have hi: "dm (fim s') a = (if fpos s \<le> a \<and> a < fpos s + ?sz then dm (fim s) (ents s + (a - fpos s)) else dm (fim s) a)"
    if "3 * BLKSIZE \<le> a" for a using that by (intro i(5)) (simp_all add: s_root_def BLKSIZE_def)
  have copy: "dm (fim s') (?k * BLKSIZE + j) = dm (fim s) (ents s + j)" if "j < ?sz" for j
    using hi [of "fpos s + j"] that k l by (simp add: layout_def)
  have "\<exists>start ind. entry_as (fim s') (?k * BLKSIZE + 256 * i) (last_name (fst (fs ! i))) (snd (fs ! i)) start ind ?k" if i: "i < length fs" for i
  proof -
    obtain start ind where o: "entry_as (fim s) (ents s + 256 * i) (last_name (fst (fs ! i))) (snd (fs ! i)) start ind ?k"
      using w i by (auto simp: written_def)
    have "good_file (fs ! i)" "length (snd (fs ! i)) < MAXFILESIZE" using g i by (auto simp: nth_mem)
    then have "entry_as (fim s') (?k * BLKSIZE + 256 * i) (last_name (fst (fs ! i))) (snd (fs ! i)) start ind ?k"
      using i k max_blocks copy [of "256 * i + _"] hi by (intro entry_as_move [OF o]) (auto simp: good_file_def add.assoc)
    then show ?thesis by blast
  qed
  moreover have "dm (fim s') a = 0" if "?k * BLKSIZE + ?sz \<le> a" "a < fpos s'" for a
  proof -
    have "fpos s' \<le> fnb s * BLKSIZE"
      using i(1,2) mult_right_mono [of "blockof (fpos s')" "fnb s" BLKSIZE] by (simp add: layout_def)
    then show ?thesis using hi [of a] l that k by (auto simp: layout_def)
  qed
  moreover have "dm (fim s') a = low a" if "a < 3 * BLKSIZE" "\<not> (s_root + 128 \<le> a \<and> a < s_root + 132)" "\<not> (s_root + 136 \<le> a \<and> a < s_root + 180)" for a
    using i(5) [of a] lw that l by (simp add: layout_def)
  moreover have "blockof (fpos s') = ?k + nblk ?sz" using i(3) by simp
  ultimately show "dir_done low fs ?k s'" using i(1,4) k by (simp add: dir_done_def)
qed

section \<open>The image as a file system\<close>

definition image_of :: "(u8 list \<times> u8 list) list \<Rightarrow> nat \<Rightarrow> nat \<Rightarrow> nat \<Rightarrow> fsm \<Rightarrow> bool" where
  "image_of fs nb d L t \<longleftrightarrow> 3 \<le> d \<and> d + nblk (256 * length fs) = L \<and> L < nb \<and> nb \<le> 10240 \<and>
     rd32 BLKSIZE t = FS_MAGIC \<and> s_nblocks t = nb \<and> f_type s_root t = FTYPE_DIR \<and> (\<forall>b < 32768. is_free t b \<longleftrightarrow> L \<le> b) \<and>
     mapped_as t s_root (nblk (256 * length fs) * BLKSIZE) d L \<and>
     (\<forall>i < length fs. \<exists>start ind. entry_as t (d * BLKSIZE + 256 * i) (last_name (fst (fs ! i))) (snd (fs ! i)) start ind d) \<and>
     (\<forall>a. d * BLKSIZE + 256 * length fs \<le> a \<longrightarrow> a < L * BLKSIZE \<longrightarrow> dm t a = 0)"

lemma mapped_small_cong:
  assumes "mapped_as t f len start ind" and "nblk len < NDIRECT" and "\<And>k. k \<le> 176 \<Longrightarrow> rd32 (f + k) t' = rd32 (f + k) t"
  shows "mapped_as t' f len start ind"
  using assms(1,2) assms(3) [of 128] assms(3) [of 176] assms(3) [of "136 + 4 * _"]
  by (auto simp: mapped_as_def add.assoc NDIRECT_def)

lemma finishdisk_spec:
  assumes d: "dir_done low fs d s" and lo: "low_ok nb low" and nb: "fnb s = nb" and n: "length fs \<le> MAX_DIR_ENTS"
    and g: "\<forall>y \<in> set fs. good_file y \<and> length (snd y) < MAXFILESIZE"
  shows "image_of fs nb d (blockof (fpos s)) (fim (finishdisk s))"
proof -
  let ?t = "fim (finishdisk s)" and ?L = "blockof (fpos s)"
  have l: "layout s" using d by (simp add: dir_done_def)
  have fin: "\<And>b. is_free ?t b \<longleftrightarrow> is_free (fim s) b \<and> ?L \<le> b" "\<And>a. a < 2 * BLKSIZE \<or> 3 * BLKSIZE \<le> a \<Longrightarrow> dm ?t a = dm (fim s) a"
    using finishdisk_fold [of ?L s] l by (auto simp: finishdisk_def layout_def)
  have low: "dm (fim s) a = low a" if "a < 3 * BLKSIZE" "a < s_root + 128 \<or> s_root + 132 \<le> a \<and> a < s_root + 136 \<or> s_root + 180 \<le> a" for a
    using d that by (auto simp: dir_done_def)
  have "dm (fim s) a = 0xFF" if "2 * BLKSIZE \<le> a" "a < 3 * BLKSIZE" for a
    using low [of a] lo that by (auto simp: low_ok_def s_root_def BLKSIZE_def)
  then have "is_free (fim s) b" if "b < 32768" for b using that by (rule all_free)
  then have "\<forall>b < 32768. is_free ?t b \<longleftrightarrow> ?L \<le> b" using fin(1) by simp
  moreover have r: "rd32 a ?t = le32 (\<lambda>j. low (a + j))" if "a + 4 \<le> s_root + 128 \<or> a = s_root + 132" for a
    unfolding rd32_def using that fin(2) low by (intro le32_cong) (auto simp: s_root_def BLKSIZE_def)
  have "rd32 BLKSIZE ?t = FS_MAGIC" "s_nblocks ?t = nb" "f_type s_root ?t = FTYPE_DIR"
    using r [of BLKSIZE] r [of "BLKSIZE + 4"] r [of "s_root + 132"] lo l nb
    by (simp_all add: low_ok_def s_nblocks_def f_type_def s_root_def BLKSIZE_def layout_def unat_of_nat)
  moreover have "mapped_as ?t s_root (nblk (256 * length fs) * BLKSIZE) d ?L"
  proof (rule mapped_small_cong)
    show "mapped_as (fim s) s_root (nblk (256 * length fs) * BLKSIZE) d ?L" using d by (simp add: dir_done_def)
    show "nblk (nblk (256 * length fs) * BLKSIZE) < NDIRECT" using dir_blocks [OF n] by simp
    show "rd32 (s_root + k) ?t = rd32 (s_root + k) (fim s)" if "k \<le> 176" for k
      using that fin(2) by (intro rd32_cong) (auto simp: s_root_def BLKSIZE_def)
  qed
  moreover have "\<exists>start ind. entry_as ?t (d * BLKSIZE + 256 * i) (last_name (fst (fs ! i))) (snd (fs ! i)) start ind d" if i: "i < length fs" for i
  proof -
    obtain start ind where o: "entry_as (fim s) (d * BLKSIZE + 256 * i) (last_name (fst (fs ! i))) (snd (fs ! i)) start ind d"
      using d i by (auto simp: dir_done_def)
    have "3 * BLKSIZE \<le> d * BLKSIZE" using d by (simp add: dir_done_def)
    then have st: "dm ?t (d * BLKSIZE + 256 * i + j) = dm (fim s) (d * BLKSIZE + 256 * i + j)" for j by (intro fin(2)) linarith
    have "good_file (fs ! i)" "length (snd (fs ! i)) < MAXFILESIZE" using g i by (auto simp: nth_mem)
    then have "entry_as ?t (d * BLKSIZE + 256 * i) (last_name (fst (fs ! i))) (snd (fs ! i)) start ind d"
      using max_blocks st fin(2) by (intro entry_as_move [OF o]) (auto simp: good_file_def)
    then show ?thesis by blast
  qed
  moreover have "dm ?t a = 0" if "d * BLKSIZE + 256 * length fs \<le> a" "a < ?L * BLKSIZE" for a
  proof -
    have "3 * BLKSIZE \<le> d * BLKSIZE" "fpos s = ?L * BLKSIZE" using d l by (simp_all add: dir_done_def layout_def)
    moreover from calculation(1) have "dm ?t a = dm (fim s) a" using that by (intro fin(2)) linarith
    ultimately show ?thesis using that d by (simp add: dir_done_def)
  qed
  ultimately show ?thesis using d l nb by (simp add: image_of_def dir_done_def layout_def)
qed

text \<open>A successful run of the program.\<close>

lemma fsformat_image:
  assumes e: "fsformat (\<lambda>_. 0) nb fs = Some s" and n: "fs \<noteq> []" and g: "\<forall>y \<in> set fs. good_file y"
  shows "\<exists>d L. image_of fs nb d L (fim s)"
proof -
  obtain s0 m s1 s2 where r: "opendisk (\<lambda>_. 0) nb = Some s0" "writefiles fs 0 s0 = Some (m, s1)" "finishdir m s1 = Some s2" "s = finishdisk s2"
    and nb: "nb \<le> 10240"
    using e by (auto simp: fsformat_def bind_eq_Some_conv split: if_splits prod.splits)
  note o = opendisk_spec [OF r(1) nb]
  have w: "m = length fs" "written (dm (fim s0)) fs s1" "fnb s1 = fnb s0" "\<forall>y \<in> set fs. length (snd y) < MAXFILESIZE"
    using writefiles_spec [of fs "[]" s0 m s1, OF _ o(1)] r(2) g by auto
  have mx: "length fs \<le> MAX_DIR_ENTS" using writefiles_max [OF r(2)] w(1) by simp
  have g': "\<forall>y \<in> set fs. good_file y \<and> length (snd y) < MAXFILESIZE" using g w(4) by blast
  have "0 < length fs" using n by simp
  note f = finishdir_spec [OF w(2) _ this mx g' o(3)]
  have "image_of fs nb (blockof (fpos s1)) (blockof (fpos s2)) (fim s)"
    unfolding r(4) using f r(3) w(1,3) o(2) by (intro finishdisk_spec [OF _ o(3) _ mx g']) auto
  then show ?thesis by blast
qed

lemma image_of_cong:
  assumes i: "image_of fs nb d L t" and same: "\<And>a. a < nb * BLKSIZE \<Longrightarrow> dm t' a = dm t a" and n: "length fs \<le> MAX_DIR_ENTS"
    and g: "\<forall>y \<in> set fs. good_file y \<and> length (snd y) < MAXFILESIZE"
  shows "image_of fs nb d L t'"
proof -
  have L: "3 \<le> d" "d + nblk (256 * length fs) = L" "L < nb" using i by (simp_all add: image_of_def)
  have top: "3 * BLKSIZE \<le> d * BLKSIZE" "d * BLKSIZE \<le> L * BLKSIZE" "L * BLKSIZE \<le> nb * BLKSIZE" using L by (simp_all add: mult_right_mono)
  have r: "rd32 a t' = rd32 a t" if "a + 4 \<le> 3 * BLKSIZE" for a using that top by (intro rd32_cong same) linarith
  have im: "dm t' a = dm t a" if "a < L * BLKSIZE" for a using that top by (intro same) linarith
  have w: "bitmap_word b + 4 \<le> 3 * BLKSIZE" if "b < 32768" for b using that by (simp add: bitmap_word_def BLKSIZE_def)
  have "\<forall>b < 32768. is_free t' b \<longleftrightarrow> L \<le> b" using i r w by (simp add: image_of_def is_free_def)
  moreover have "rd32 BLKSIZE t' = FS_MAGIC" "s_nblocks t' = nb" "f_type s_root t' = FTYPE_DIR"
    using i r [of BLKSIZE] r [of "BLKSIZE + 4"] r [of "s_root + 132"] by (simp_all add: image_of_def s_nblocks_def f_type_def s_root_def BLKSIZE_def)
  moreover have "mapped_as t' s_root (nblk (256 * length fs) * BLKSIZE) d L"
  proof (rule mapped_small_cong)
    show "mapped_as t s_root (nblk (256 * length fs) * BLKSIZE) d L" using i by (simp add: image_of_def)
    show "nblk (nblk (256 * length fs) * BLKSIZE) < NDIRECT" using dir_blocks [OF n] by simp
    show "rd32 (s_root + k) t' = rd32 (s_root + k) t" if "k \<le> 176" for k using that by (intro r) (simp add: s_root_def BLKSIZE_def)
  qed
  moreover have "\<exists>start ind. entry_as t' (d * BLKSIZE + 256 * i) (last_name (fst (fs ! i))) (snd (fs ! i)) start ind d" if k: "i < length fs" for i
  proof -
    obtain start ind where o: "entry_as t (d * BLKSIZE + 256 * i) (last_name (fst (fs ! i))) (snd (fs ! i)) start ind d"
      using i k by (auto simp: image_of_def)
    have "256 * i + 255 < 256 * length fs" using k by simp
    from block_in [OF this, of d] have "d * BLKSIZE + 256 * i + 255 < nb * BLKSIZE" using top(3) unfolding L(2) by linarith
    then have st: "dm t' (d * BLKSIZE + 256 * i + j) = dm t (d * BLKSIZE + 256 * i + j)" if "j < 256" for j using that by (intro same) linarith
    have "good_file (fs ! i)" "length (snd (fs ! i)) < MAXFILESIZE" using g k by (auto simp: nth_mem)
    then have "entry_as t' (d * BLKSIZE + 256 * i) (last_name (fst (fs ! i))) (snd (fs ! i)) start ind d"
      using max_blocks st im [OF order_less_le_trans [OF _ top(2)]] by (intro entry_as_move [OF o]) (auto simp: good_file_def)
    then show ?thesis by blast
  qed
  moreover have "dm t' a = 0" if "d * BLKSIZE + 256 * length fs \<le> a" "a < L * BLKSIZE" for a
    using i that im [of a] by (simp add: image_of_def)
  ultimately show ?thesis using i by (simp add: image_of_def)
qed

section \<open>The file system on the image\<close>

lemma image_fs_ok:
  assumes i: "image_of fs nb d L t"
  shows "fs_ok t" and "data_block t b \<longleftrightarrow> 3 \<le> b \<and> b < L" and "good_disk (dm t)"
proof -
  have n: "s_nblocks t = nb" "3 < nb" "nb \<le> 10240" "3 \<le> L" "L < nb" and f: "\<And>b. b < 32768 \<Longrightarrow> is_free t b \<longleftrightarrow> L \<le> b"
    and m: "rd32 BLKSIZE t = FS_MAGIC" using i by (auto simp: image_of_def)
  have "(nb + 32767) div 32768 = 1" using n by (intro div_nat_eqI) auto
  then have fd: "first_data t = 3" using n by (simp add: first_data_def)
  show "fs_ok t" using n f by (simp add: fs_ok_def fd DISKSIZE_def BLKSIZE_def)
  show "data_block t b \<longleftrightarrow> 3 \<le> b \<and> b < L" using n f by (auto simp: data_block_def fd)
  have c: "c_nblocks (dm t) = nb" "\<And>b. b < 32768 \<Longrightarrow> c_free (dm t) b \<longleftrightarrow> L \<le> b"
    using n(1) f by (auto simp: c_nblocks_def s_nblocks_def rd32_def c_free_def is_free_def bitmap_word_def)
  have "j = 0" if "j * 32768 < nb" for j using that n by (cases j) auto
  then show "good_disk (dm t)" using m n c by (auto simp: good_disk_def fs_valid_def rd32_def DISKSIZE_def BLKSIZE_def)
qed

lemma sint_nat: "n < 2 ^ 31 \<Longrightarrow> sint (of_nat n :: u32) = int n"
  by (simp add: signed_of_nat signed_take_bit_int_eq_self)

lemma mapped_blocks:
  assumes m: "mapped_as t f len start ind" and b: "start + nblk len \<le> 10240"
    and ind: "NDIRECT \<le> nblk len \<Longrightarrow> 0 < ind \<and> ind < 10240"
  shows "find_ind t f = (if nblk len < NDIRECT then 0 else ind)"
    and "j < MAXBLOCKS \<Longrightarrow> fblk t f j = (if j < nblk len then start + j else 0)"
proof -
  have small: "unat (of_nat k :: u32) = k" if "k < 10240" for k using that by (simp add: unat_of_nat)
  show fi: "find_ind t f = (if nblk len < NDIRECT then 0 else ind)"
    using m ind small by (auto simp: mapped_as_def find_ind_def f_indirect_def)
  have "rd32 (slot t f j) t = (if j < nblk len then of_nat (start + j) else 0)" if "j < MAXBLOCKS" "j < NDIRECT \<or> NDIRECT \<le> nblk len"
    using that m fi by (auto simp: mapped_as_def slot_def f_direct_def)
  then show "fblk t f j = (if j < nblk len then start + j else 0)" if "j < MAXBLOCKS"
    using that fi ind b small [of "start + j"] by (auto simp: fblk_def)
qed

text \<open>A file of the image is well formed and holds its bytes.\<close>

lemma entry_place:
  assumes i: "image_of fs nb d L t" and k: "k < length fs"
  shows "place_ok t (d * BLKSIZE + 256 * k)" and "d \<le> (d * BLKSIZE + 256 * k) div BLKSIZE"
proof -
  have q: "(d * BLKSIZE + 256 * k) div BLKSIZE = d + k div 16" by (simp add: BLKSIZE_def div_mult2_eq [of "256 * k" 256 16, simplified])
  have "256 * k mod BLKSIZE = 256 * (k mod 16)" using mult_mod_right [of 256 k 16] by (simp add: BLKSIZE_def)
  then have r: "(d * BLKSIZE + 256 * k) mod BLKSIZE + 256 \<le> BLKSIZE" using mod_less_divisor [of 16 k] by (simp add: BLKSIZE_def)
  have "(256 * k) div BLKSIZE < nblk (256 * length fs)" using k by (intro nblk_cover) simp
  then have "d + k div 16 < L" using i by (simp add: image_of_def BLKSIZE_def div_mult2_eq [of "256 * k" 256 16, simplified])
  moreover have "3 \<le> d" using i by (simp add: image_of_def)
  ultimately show "place_ok t (d * BLKSIZE + 256 * k)" using r q image_fs_ok(2) [OF i] by (simp add: place_ok_def)
  show "d \<le> (d * BLKSIZE + 256 * k) div BLKSIZE" by (simp add: q)
qed

lemma entry_file_ok:
  assumes i: "image_of fs nb d L t" and e: "entry_as t f name c start ind d" and f: "place_ok t f" "d \<le> f div BLKSIZE"
  shows "file_ok t f" and "length c < MAXFILESIZE \<Longrightarrow> p < length c \<Longrightarrow> fmapped t f p \<and> fbyte t f p = c ! p"
proof -
  have b: "3 \<le> start" "start + nblk (length c) \<le> d" "NDIRECT \<le> nblk (length c) \<Longrightarrow> start + nblk (length c) \<le> ind \<and> ind < d"
    and m: "mapped_as t f (length c) start ind" using e by (auto simp: entry_as_def)
  have dl: "d \<le> L" "d < 10240" using i by (auto simp: image_of_def)
  have "start + nblk (length c) \<le> 10240" "NDIRECT \<le> nblk (length c) \<Longrightarrow> 0 < ind \<and> ind < 10240" using b dl by auto
  note fi = mapped_blocks(1) [OF m this] and fb = mapped_blocks(2) [OF m this]
  show "file_ok t f"
    unfolding file_ok_def using image_fs_ok [OF i] f fi fb b dl by (auto split: if_splits)
  show "fmapped t f p \<and> fbyte t f p = c ! p" if "length c < MAXFILESIZE" "p < length c"
  proof -
    have "p div BLKSIZE < nblk (length c)" "nblk (length c) \<le> MAXBLOCKS" using that max_blocks nblk_cover by auto
    then have "fblk t f (p div BLKSIZE) = start + p div BLKSIZE" using fb by simp
    moreover have "(start + p div BLKSIZE) * BLKSIZE + p mod BLKSIZE = start * BLKSIZE + p" by (simp add: add_mult_distrib)
    ultimately show ?thesis using e that b by (simp add: fmapped_def fbyte_def entry_as_def MAXFILESIZE_eq)
  qed
qed

lemma entry_read:
  assumes i: "image_of fs nb d L t" and e: "entry_as t f name c start ind d" and f: "place_ok t f" "d \<le> f div BLKSIZE"
    and c: "length c < MAXFILESIZE" and n: "n < 2 ^ 64"
  shows "f_size f t = int (length c)"
    and "file_read f (int n) (int off) t = Some (int (length (take n (drop off c))), take n (drop off c), t)"
proof -
  have "rd32 (f + 128) t = of_nat (length c)" using e by (simp add: entry_as_def mapped_as_def)
  then show z: "f_size f t = int (length c)" using c by (simp add: f_size_def MAXFILESIZE_def sint_nat)
  note ok = entry_file_ok [OF i e f]
  have m: "map (fbyte t f) [off..<min (length c) (off + n)] = take n (drop off c)"
  proof (rule nth_equalityI)
    fix i
    assume l: "i < length (map (fbyte t f) [off..<min (length c) (off + n)])"
    then have "off + i < min (length c) (off + n)" unfolding length_map length_upt by linarith
    moreover from this have "[off..<min (length c) (off + n)] ! i = off + i" by (rule nth_upt)
    ultimately show "map (fbyte t f) [off..<min (length c) (off + n)] ! i = take n (drop off c) ! i" using ok(2) [OF c] l by simp
  qed simp
  have "file_read f (int n) (int off) t = Some (int (min (length c) (off + n) - off), map (fbyte t f) [off..<min (length c) (off + n)], t)"
    using ok(2) [OF c] c n by (intro file_read_spec [OF ok(1) z]) auto
  then show "file_read f (int n) (int off) t = Some (int (length (take n (drop off c))), take n (drop off c), t)"
    unfolding m using arg_cong [OF m, of length] by simp
qed

section \<open>Looking a file up\<close>

lemma name_eq_iff: "name_eq a name t \<longleftrightarrow> (\<forall>i < length name. dm t (a + i) = name ! i) \<and> dm t (a + length name) = 0"
proof (induction name arbitrary: a)
  case (Cons c cs)
  have "(\<forall>i < length (c # cs). dm t (a + i) = (c # cs) ! i) \<longleftrightarrow> dm t a = c \<and> (\<forall>i < length cs. dm t (a + 1 + i) = cs ! i)"
    by (auto simp: All_less_Suc2)
  then show ?case using Cons.IH [of "a + 1"] by simp
qed simp

lemma name_eq_unique: "name_eq a x t \<Longrightarrow> name_eq a y t \<Longrightarrow> 0 \<notin> set x \<Longrightarrow> 0 \<notin> set y \<Longrightarrow> x = y"
proof (induction x arbitrary: a y)
  case Nil
  then show ?case by (cases y) auto
next
  case (Cons c cs)
  then show ?case by (cases y) auto
qed

lemma entries_flat:
  assumes "\<forall>j < k. fblk t f j = b + j"
  shows "entries t f [0..<k] = map (\<lambda>i. b * BLKSIZE + 256 * i) [0..<16 * k]"
  using assms
proof (induction k)
  case (Suc k)
  have "[0..<16 * Suc k] = [0..<16 * k] @ map (\<lambda>e. e + 16 * k) [0..<16]"
    using upt_add_eq_append [of 0 "16 * k" 16] map_add_upt [of "16 * k" 16] by (simp add: add.commute)
  moreover have "entries t f [0..<Suc k] = entries t f [0..<k] @ map (\<lambda>e. fblk t f k * BLKSIZE + 256 * e) [0..<BLKFILES]"
    by (simp add: entries_def)
  moreover have "map (\<lambda>e. fblk t f k * BLKSIZE + 256 * e) [0..<BLKFILES] = map (\<lambda>e. b * BLKSIZE + 256 * (e + 16 * k)) [0..<16]"
    using Suc.prems by (simp add: BLKFILES_def BLKSIZE_def add_mult_distrib2)
  ultimately show ?case using Suc by simp
qed (simp add: entries_def)

lemma image_root:
  assumes i: "image_of fs nb d L t" and n: "length fs \<le> MAX_DIR_ENTS"
  shows "dir_ok t s_root (nblk (256 * length fs))"
    and "entries t s_root [0..<nblk (256 * length fs)] = map (\<lambda>i. d * BLKSIZE + 256 * i) [0..<16 * nblk (256 * length fs)]"
proof -
  let ?k = "nblk (256 * length fs)"
  have m: "mapped_as t s_root (?k * BLKSIZE) d L" and d: "3 \<le> d" "d + ?k = L" "L < 10240" using i by (auto simp: image_of_def)
  have k: "?k < NDIRECT" by (rule dir_blocks [OF n])
  have fi: "find_ind t s_root = 0" and fb: "\<And>j. j < MAXBLOCKS \<Longrightarrow> fblk t s_root j = (if j < ?k then d + j else 0)"
    using mapped_blocks [OF m] d k by auto
  have p: "s_root div BLKSIZE = 1" "s_root mod BLKSIZE = 8" "8 + 256 \<le> BLKSIZE" by (simp_all add: s_root_def BLKSIZE_def)
  have "file_ok t s_root"
    unfolding file_ok_def place_ok_def using image_fs_ok [OF i] fi fb d p by (auto split: if_splits)
  moreover have "f_size s_root t = int (?k * BLKSIZE)"
    using m k sint_nat [of "?k * BLKSIZE"] by (simp add: f_size_def mapped_as_def NDIRECT_def BLKSIZE_def)
  moreover have km: "?k \<le> MAXBLOCKS" using k by (simp add: NDIRECT_def MAXBLOCKS_def)
  ultimately show "dir_ok t s_root ?k" using fb d by (simp add: dir_ok_def)
  show "entries t s_root [0..<?k] = map (\<lambda>i. d * BLKSIZE + 256 * i) [0..<16 * ?k]"
    using fb km by (intro entries_flat) simp
qed

lemma image_open:
  assumes i: "image_of fs nb d L t" and n: "length fs \<le> MAX_DIR_ENTS" and k: "k < length fs"
    and s: "\<forall>x \<in> set fs. simple_name (last_name (fst x))" and dist: "distinct (map (\<lambda>x. last_name (fst x)) fs)"
  shows "file_open (last_name (fst (fs ! k))) t = Some (0, Some (d * BLKSIZE + 256 * k), t)"
proof -
  let ?name = "\<lambda>j. last_name (fst (fs ! j))" and ?a = "\<lambda>j. d * BLKSIZE + 256 * j"
  have nm: "name_eq (?a j) (?name j) t" if j: "j < length fs" for j
  proof -
    obtain start ind where "entry_as t (?a j) (?name j) (snd (fs ! j)) start ind d" using i j by (auto simp: image_of_def)
    then show ?thesis by (simp add: name_eq_iff entry_as_def)
  qed
  have z: "0 \<notin> set (?name j)" "simple_name (?name j)" if "j < length fs" for j using s that by (auto simp: simple_name_def)
  have ne: "\<not> name_eq (?a j) (?name k) t" if "j < k" for j
  proof
    assume "name_eq (?a j) (?name k) t"
    then have "?name k = ?name j" using name_eq_unique nm [of j] z that k by auto
    then show False using dist that k by (auto simp: distinct_conv_nth)
  qed
  have "k < 16 * nblk (256 * length fs)" using nblk_cover [of "256 * k" "256 * length fs"] k
    by (simp add: BLKSIZE_def div_mult2_eq [of "256 * k" 256 16, simplified])
  then have "find (\<lambda>a. name_eq a (?name k) t) (entries t s_root [0..<nblk (256 * length fs)]) = Some (?a k)"
    using nm [OF k] ne unfolding image_root(2) [OF i n] find_Some_iff by (intro exI [of _ k]) auto
  moreover have "f_type s_root t = FTYPE_DIR" using i by (simp add: image_of_def)
  ultimately show ?thesis using walk_simple [OF z(2) [OF k] image_root(1) [OF i n]] by (simp add: file_open_def)
qed

end
