(* ===== verification/Fsformat_Theorems.thy ===== *)
theory Fsformat_Theorems
  imports Fsformat_Spec Cache_Theorems
begin

text \<open>The properties of the disk image builder, together with the file server that mounts the image.\<close>

text \<open>
  A file put on the image by \<open>fsformat\<close> is found by the file server that mounts the image and has
  its bytes.
\<close>

lemma image_serves:
  assumes i: "image_of fs nb d L t" and n: "length fs \<le> MAX_DIR_ENTS" and k: "k < length fs"
    and s: "\<forall>x \<in> set fs. simple_name (last_name (fst x))" and dist: "distinct (map (\<lambda>x. last_name (fst x)) fs)"
    and c: "length (snd (fs ! k)) < MAXFILESIZE" and cnt: "cnt < 2 ^ 64"
  shows "\<exists>f. file_open (last_name (fst (fs ! k))) t = Some (0, Some f, t) \<and> f_size f t = int (length (snd (fs ! k))) \<and>
    file_read f (int cnt) (int off) t = Some (int (length (take cnt (drop off (snd (fs ! k))))), take cnt (drop off (snd (fs ! k))), t)"
proof -
  obtain start ind where e: "entry_as t (d * BLKSIZE + 256 * k) (last_name (fst (fs ! k))) (snd (fs ! k)) start ind d"
    using i k by (auto simp: image_of_def)
  show ?thesis using image_open [OF i n k s dist] entry_read [OF i e entry_place [OF i k] c cnt] by blast
qed

lemma fsformat_bounds:
  assumes e: "fsformat (\<lambda>_. 0) nb fs = Some s" and g: "\<forall>y \<in> set fs. good_file y"
  shows "length fs \<le> MAX_DIR_ENTS" and "\<forall>y \<in> set fs. good_file y \<and> length (snd y) < MAXFILESIZE"
proof -
  obtain s0 m s1 where r: "opendisk (\<lambda>_. 0) nb = Some s0" "writefiles fs 0 s0 = Some (m, s1)" and nb: "nb \<le> 10240"
    using e by (auto simp: fsformat_def bind_eq_Some_conv split: if_splits prod.splits)
  note o = opendisk_spec [OF r(1) nb]
  have w: "m = length fs" "\<forall>y \<in> set fs. length (snd y) < MAXFILESIZE"
    using writefiles_spec [of fs "[]" s0 m s1, OF _ o(1)] r(2) g by auto
  show "length fs \<le> MAX_DIR_ENTS" using writefiles_max [OF r(2)] w(1) by simp
  show "\<forall>y \<in> set fs. good_file y \<and> length (snd y) < MAXFILESIZE" using g w(2) by blast
qed


definition hi_drive :: "(nat \<Rightarrow> u8) \<Rightarrow> bcache" where
  "hi_drive m = boot_cache\<lparr>bc_ide := (bc_ide boot_cache)\<lparr>ide_data := (\<lambda>_. m)\<rparr>\<rparr>"

lemma fsformat_hi: "\<exists>img. fsformat (\<lambda>_. 0) 8 [([97, 0x2F, 98], [104, 105])] = Some img"
proof -
  have r: "rup32 4096 = 4096" "rup32 2 = 4096" "rup32 256 = 4096" by (simp_all add: rup32_def u32i_def)
  have n: "rup_int 256 = 4096" using rup_int_nat [of 256] by (simp add: nblk_def BLKSIZE_def)
  show ?thesis
    by (simp add: put_direct_def fsformat_def opendisk_def fmt_alloc_def r n Let_def blockof_def BLKSIZE_def writefile_def diradd_def
        finishfile_def finishdir_def MAX_DIR_ENTS_def MAXFILESIZE_def last_name_def NDIRECT_def)
qed


text \<open>The image built from no files.\<close>

lemma empty_image:
  assumes "fsformat (\<lambda>_. 0) nb [] = Some img"
  shows "mapped_as (fim img) s_root 4096 3 3" and "\<And>b. b < 32768 \<Longrightarrow> is_free (fim img) b \<longleftrightarrow> 3 \<le> b"
    and "s_nblocks (fim img) = nb" and "3 < nb" and "nb \<le> 10240"
proof -
  have ru: "rup32 0 = 0" "rup_int 0 = 4096" by (simp_all add: rup32_def rup_int_def u32i_def signed_modulo_int_def)
  obtain s0 s2 where o: "opendisk (\<lambda>_. 0) nb = Some s0" and nb: "nb \<le> 10240" and img: "img = finishdisk s2"
    and f: "finishfile s_root (blockof (fpos s0)) (int 4096) s0 = Some s2"
    using assms by (auto simp: fsformat_def finishdir_def fmt_alloc_def Let_def ru fput_nil bind_eq_Some_conv split: if_splits prod.splits)
  note os = opendisk_spec [OF o nb]
  have l: "layout s0" and p: "fpos s0 = 3 * BLKSIZE" using os(1) os(4) by (auto simp: written_def)
  have z: "dm (fim s0) a = 0" if "s_root + 136 \<le> a" "a < s_root + 180" for a using os(3) that by (simp add: low_ok_def)
  have z1: "\<forall>i < NDIRECT. rd32 (s_root + 136 + 4 * i) (fim s0) = 0" by (intro allI impI rd32_zero z) (simp_all add: NDIRECT_def)
  have z2: "rd32 (s_root + 176) (fim s0) = 0" by (intro rd32_zero z) simp_all
  have h: "s_root + 256 \<le> 3 * BLKSIZE \<or> fnb s0 * BLKSIZE \<le> s_root" by (simp add: s_root_def BLKSIZE_def)
  have nk: "nblk 4096 = 1" by (simp add: nblk_def BLKSIZE_def)
  have "nblk 4096 \<le> MAXBLOCKS" by (simp add: nk MAXBLOCKS_def)
  note ff = finishfile_spec [OF f _ l z1 z2 h this]
  have m: "mapped_as (fim s2) s_root 4096 3 3" "fpos s2 = 3 * BLKSIZE" "fnb s2 = nb" using ff(2-4) nk p os(2) by (simp_all add: NDIRECT_def)
  have fin: "\<And>b. is_free (fim img) b \<longleftrightarrow> is_free (fim s2) b \<and> 3 \<le> b" "\<And>a. a < 2 * BLKSIZE \<or> 3 * BLKSIZE \<le> a \<Longrightarrow> dm (fim img) a = dm (fim s2) a"
    using finishdisk_fold [of 3 s2] m(2) by (auto simp: finishdisk_def img)
  show "mapped_as (fim img) s_root 4096 3 3"
  proof (rule mapped_small_cong [OF m(1)])
    show "nblk 4096 < NDIRECT" by (simp add: nk NDIRECT_def)
    show "rd32 (s_root + k) (fim img) = rd32 (s_root + k) (fim s2)" if "k \<le> 176" for k
      using that fin(2) by (intro rd32_cong) (auto simp: s_root_def BLKSIZE_def)
  qed
  have same: "dm (fim s2) a = dm (fim s0) a" if "a < s_root + 128 \<or> s_root + 180 \<le> a" for a
    using that ff(4) nk by (intro ff(5)) (auto simp: touched_def NDIRECT_def)
  have "dm (fim s2) a = 0xFF" if "2 * BLKSIZE \<le> a" "a < 3 * BLKSIZE" for a
    using same [of a] os(3) that by (simp add: low_ok_def s_root_def BLKSIZE_def)
  then show "is_free (fim img) b \<longleftrightarrow> 3 \<le> b" if "b < 32768" for b using all_free [OF _ that] fin(1) by auto
  have "rd32 (BLKSIZE + 4) (fim img) = le32 (\<lambda>j. dm (fim s0) (BLKSIZE + 4 + j))"
    unfolding rd32_def using fin(2) same by (intro le32_cong) (simp add: s_root_def BLKSIZE_def)
  then show "s_nblocks (fim img) = nb" using os(3) nb by (simp add: s_nblocks_def low_ok_def unat_of_nat)
  show "nb \<le> 10240" by (rule nb)
  show "3 < nb" using l p os(2) by (simp add: layout_def)
qed

text \<open>
  An image built from no files at all is broken: the size of the empty directory is rounded
  up to one block by the signed \<open>ROUNDUP\<close>, while \<open>alloc\<close> rounds it to zero bytes without sign.
  The root directory of the image therefore has a size of one block and block 3 as that block,
  but block 3 is marked free, and the first block the file server allocates is block 3.
\<close>

theorem fsformat_no_files:
  assumes "fsformat (\<lambda>_. 0) nb [] = Some img"
  shows "f_size s_root (fim img) = 4096 \<and> fblk (fim img) s_root 0 = 3 \<and> block_is_free 3 (fim img) \<and>
    (\<exists>s'. alloc_block (fim img) = Some (3, s'))"
proof -
  note i = empty_image [OF assms]
  have nk: "nblk 4096 = 1" by (simp add: nblk_def BLKSIZE_def)
  have "(nb + 32767) div 32768 = 1" using i(4,5) by (intro div_nat_eqI) auto
  then have ok: "fs_ok (fim img)" using i(2-5) by (simp add: fs_ok_def first_data_def DISKSIZE_def BLKSIZE_def)
  have fs: "free_set (fim img) = {3..<nb}" using i(2,3,5) by (auto simp: free_set_def)
  have "Min {3..<nb} = 3" using i(4) by (intro Min_eqI) simp_all
  then have "\<exists>s'. alloc_block (fim img) = Some (3, s')" using alloc_block_spec(2) [OF ok] i(4) unfolding fs by auto
  moreover have "fblk (fim img) s_root 0 = 3" using mapped_blocks(2) [OF i(1), of 0] by (simp add: nk NDIRECT_def MAXBLOCKS_def)
  moreover have "f_size s_root (fim img) = 4096" using i(1) sint_nat [of 4096] by (simp add: f_size_def mapped_as_def)
  moreover have "block_is_free 3 (fim img)" using i(2) [of 3] i(3,4) by (simp add: block_is_free_def is_free_def)
  ultimately show ?thesis by blast
qed

theorem fsformat_no_files_witness: "\<exists>img. fsformat (\<lambda>_. 0) 8 [] = Some img \<and> fblk (fim img) s_root 0 = 3 \<and> block_is_free 3 (fim img)"
proof -
  have r: "rup32 4096 = 4096" "rup32 0 = 0" "rup_int 0 = 4096" by (simp_all add: rup32_def rup_int_def u32i_def signed_modulo_int_def)
  obtain img where "fsformat (\<lambda>_. 0) 8 [] = Some img"
    by (simp add: put_direct_def fsformat_def opendisk_def fmt_alloc_def r Let_def blockof_def BLKSIZE_def finishfile_def finishdir_def NDIRECT_def)
  then show ?thesis using fsformat_no_files [of 8 img] by blast
qed

end
