(* ===== verification/Fork.thy ===== *)
theory Fork
  imports Env_Spec
begin

text \<open>
  The user-level \<open>fork\<close> with copy-on-write (lib/fork.c, lib/pgfault.c) on top of the kernel: the
  library runs in the current environment, reads its page tables through the arrays \<open>vpml4e\<close>,
  \<open>vpde\<close>, \<open>vpd\<close> and \<open>vpt\<close>, its memory through the tables in \<open>cr3\<close>, and a system call is the
  kernel's handler. \<open>None\<close> is a panic or a fault.
\<close>

section \<open>What the library reads and writes\<close>

definition PTE_COW :: u64 where [jos_consts]: "PTE_COW = 0x800"
definition PTE_SHARE :: u64 where [jos_consts]: "PTE_SHARE = 0x400"
definition PTE_USER :: u64 where [jos_consts]: "PTE_USER = PTE_AVAIL OR PTE_P OR PTE_W OR PTE_U"
definition FEC_WR :: u64 where [jos_consts]: "FEC_WR = 2"

text \<open>
  \<open>vpt[VPN(va)]\<close>: the processor finds it through the three upper tables, whose entries are
  \<open>vpml4e[VPML4E(va)]\<close>, \<open>vpde[VPDPE(va)]\<close> and \<open>vpd[VPD(va)]\<close>; where one of them is not
  present the read faults.
\<close>

definition vpt :: "u64 \<Rightarrow> kstate \<Rightarrow> u64 option" where
  "vpt va s =
     (let e4 = phys s (unat (PPN (cr3 s))) (PML4 va);
          e3 = phys s (unat (PPN e4)) (PDPE va);
          e2 = phys s (unat (PPN e3)) (PDX va)
      in if e4 AND PTE_P = 0 \<or> e3 AND PTE_P = 0 \<or> e2 AND PTE_P = 0 then None
         else Some (phys s (unat (PPN e2)) (PTX va)))"

definition uload :: "u64 \<Rightarrow> kstate \<Rightarrow> u8 option" where
  "uload va s = do {
     (p, fl) \<leftarrow> mmu (unat (PPN (cr3 s))) va s;
     if fl AND PTE_U = 0 then None else Some (phys_byte s p (unat (PGOFF va)))
   }"

definition ustore :: "u64 \<Rightarrow> u8 \<Rightarrow> kstate \<Rightarrow> kstate option" where
  "ustore va b s = do {
     (p, fl) \<leftarrow> mmu (unat (PPN (cr3 s))) va s;
     if fl AND PTE_U = 0 \<or> fl AND PTE_W = 0 then None else Some (wr_byte p (unat (PGOFF va)) b s)
   }"

text \<open>
  \<open>memmove\<close> in the memory of the environment, from the end where the source overlaps, in steps
  of one byte: the steps of four bytes the code takes between aligned addresses move the same
  bytes in the same direction (Strings has both).
\<close>

definition ucopy :: "u64 \<Rightarrow> u64 \<Rightarrow> nat \<Rightarrow> kstate \<Rightarrow> kstate option" where
  "ucopy dst src i s = do { b \<leftarrow> uload (src + of_nat i) s; ustore (dst + of_nat i) b s }"

definition umemmove :: "u64 \<Rightarrow> u64 \<Rightarrow> nat \<Rightarrow> kstate \<Rightarrow> kstate option" where
  "umemmove dst src n s =
     (if src < dst \<and> dst < src + of_nat n then foldM (ucopy dst src) (rev [0..<n]) s
      else foldM (ucopy dst src) [0..<n] s)"

section \<open>The page fault handler\<close>

text \<open>\<open>pgfault\<close>, for the address and the error code of the trap frame.\<close>

definition pgfault :: "u64 \<Rightarrow> u64 \<Rightarrow> kstate \<Rightarrow> kstate option" where
  "pgfault addr err s =
     (if err AND FEC_WR = 0 then None
      else do {
        pte \<leftarrow> vpt addr s;
        if pte AND PTE_COW = 0 then None
        else do {
          (r, s) \<leftarrow> sys_page_alloc 0 PFTEMP (ucast (PTE_P OR PTE_U OR PTE_W)) s;
          if r < 0 then None
          else do {
            let rounded = ROUNDDOWN addr PGSIZE;
            s \<leftarrow> umemmove PFTEMP rounded 4096 s;
            (r, s) \<leftarrow> sys_page_map 0 PFTEMP 0 rounded (ucast (PTE_P OR PTE_U OR PTE_W)) s;
            if r < 0 then None
            else do {
              (r, s) \<leftarrow> sys_page_unmap 0 PFTEMP s;
              if r < 0 then None else Some s
            }
          }
        }
      })"

text \<open>
  \<open>installed\<close> says that \<open>_pgfault_handler\<close> is not 0, \<open>upcall\<close> is the address of the assembly
  routine \<open>_pgfault_upcall\<close>. The result of the first allocation is overwritten.
\<close>

definition set_pgfault_handler :: "u64 \<Rightarrow> bool \<Rightarrow> kstate \<Rightarrow> kstate option" where
  "set_pgfault_handler upcall installed s =
     (if installed then Some s
      else do {
        envid \<leftarrow> sys_getenvid s;
        (r, s) \<leftarrow> sys_page_alloc (word_of_int envid) (UXSTACKTOP - PGSIZE) (ucast (PTE_P OR PTE_U OR PTE_W)) s;
        (r, s) \<leftarrow> sys_page_alloc (word_of_int envid) (UXSTACKTOP - 2 * PGSIZE) (ucast (PTE_P OR PTE_U OR PTE_W)) s;
        if r < 0 then None
        else do {
          (r, s) \<leftarrow> sys_env_set_pgfault_upcall (word_of_int envid) upcall s;
          if r < 0 then None else Some s
        }
      })"

section \<open>fork\<close>

definition duppage :: "envid_t \<Rightarrow> u32 \<Rightarrow> kstate \<Rightarrow> (int \<times> kstate) option" where
  "duppage envid pn s = do {
     let addr = push_bit 12 (ucast pn);
     pte \<leftarrow> vpt addr s;
     let perm = ucast (pte AND 0xFFF);
     let perm_share = ucast (pte AND PTE_USER);
     if pte AND PTE_USER AND PTE_SHARE \<noteq> 0 then do {
       (r, s) \<leftarrow> sys_page_map 0 addr envid addr perm_share s;
       Some (if r < 0 then r else 0, s)
     }
     else if pte AND PTE_W \<noteq> 0 \<or> pte AND PTE_COW \<noteq> 0 then do {
       (r, s) \<leftarrow> sys_page_map 0 addr envid addr (ucast (PTE_P OR PTE_U OR PTE_COW)) s;
       if r < 0 then Some (r, s)
       else sys_page_map 0 addr 0 addr (ucast (PTE_P OR PTE_U OR PTE_COW)) s
     }
     else sys_page_map 0 addr envid addr perm s
   }"

text \<open>One turn of the loop: the result of \<open>duppage\<close> is not looked at.\<close>

definition fork_page :: "envid_t \<Rightarrow> u64 \<Rightarrow> kstate \<Rightarrow> kstate option" where
  "fork_page envid va s =
     (if va = UXSTACKTOP - PGSIZE then Some s
      else case vpt va s of
        None \<Rightarrow> Some s
      | Some pte \<Rightarrow>
          if pte AND PTE_P = 0 then Some s
          else do { (r, s) \<leftarrow> duppage envid (ucast (PPN va)) s; Some s })"

definition fork_range :: "u64 list" where
  "fork_range = map (\<lambda>k. UTEXT + of_nat k * PGSIZE) [0..<unat ((USTACKTOP - PGSIZE - UTEXT) div PGSIZE)]"

text \<open>The parent's side; the child starts at the return of \<open>sys_exofork\<close> with the result 0.\<close>

definition fork :: "u64 \<Rightarrow> bool \<Rightarrow> kstate \<Rightarrow> (int \<times> kstate) option" where
  "fork upcall installed s = do {
     s \<leftarrow> set_pgfault_handler upcall installed s;
     (envid, s) \<leftarrow> sys_exofork s;
     if envid < 0 then None
     else do {
       let id = word_of_int envid;
       (r, s) \<leftarrow> sys_page_alloc id (UXSTACKTOP - PGSIZE) (ucast (PTE_P OR PTE_U OR PTE_W)) s;
       s \<leftarrow> foldM (fork_page id) fork_range s;
       (r, s) \<leftarrow> duppage id (ucast (PPN (USTACKTOP - PGSIZE))) s;
       c \<leftarrow> curenv s;
       (r, s) \<leftarrow> sys_env_set_pgfault_upcall id (env_pgfault_upcall (envs s c)) s;
       (r, s) \<leftarrow> sys_env_set_status id 2 s;
       if r < 0 then None else Some (envid, s)
     }
   }"

section \<open>The tables the processor reads\<close>

lemma and_sub: "x AND 7 = 7 \<Longrightarrow> 7 AND m = m \<Longrightarrow> x AND m = (m :: u64)"
  by (metis and.assoc)

lemma and7: "x AND 7 = 7 \<Longrightarrow> x AND PTE_P = PTE_P" "x AND 7 = 7 \<Longrightarrow> x AND PTE_W = PTE_W" "x AND 7 = 7 \<Longrightarrow> x AND PTE_U = PTE_U"
  by (rule and_sub; simp add: jos_consts)+

text \<open>The entries on the way to a user address.\<close>

definition ent4 :: "kstate \<Rightarrow> u64 \<Rightarrow> u64" where "ent4 s a = phys s (unat (PPN (cr3 s))) (PML4 a)"
definition ent3 :: "kstate \<Rightarrow> u64 \<Rightarrow> u64" where "ent3 s a = phys s (unat (PPN (ent4 s a))) (PDPE a)"
definition ent2 :: "kstate \<Rightarrow> u64 \<Rightarrow> u64" where "ent2 s a = phys s (unat (PPN (ent3 s a))) (PDX a)"
definition ent1 :: "kstate \<Rightarrow> u64 \<Rightarrow> u64" where "ent1 s a = phys s (unat (PPN (ent2 s a))) (PTX a)"

lemma vpt_ent:
  "vpt a s = (if ent4 s a AND PTE_P = 0 \<or> ent3 s a AND PTE_P = 0 \<or> ent2 s a AND PTE_P = 0 then None else Some (ent1 s a))"
  unfolding vpt_def Let_def ent1_def ent2_def ent3_def ent4_def ..

lemma mmu_ent:
  "mmu (unat (PPN (cr3 s))) a s =
     (if ent4 s a AND PTE_P = 0 \<or> ent3 s a AND PTE_P = 0 \<or> ent2 s a AND PTE_P = 0 \<or> ent1 s a AND PTE_P = 0 then None
      else Some (tgt (ent1 s a), ent4 s a AND ent3 s a AND ent2 s a AND ent1 s a))"
  unfolding mmu_def Let_def ent1_def ent2_def ent3_def ent4_def tgt_def ..

lemma user_walk:
  assumes k: "kinv s xs es g" and c: "live s c" and r: "cr3 s = env_cr3 (envs s c)" and a: "a < UTOP"
  shows "env_pte s c a = (if ent4 s a = 0 \<or> ent3 s a = 0 \<or> ent2 s a = 0 then 0 else ent1 s a)"
    and "ent4 s a \<noteq> 0 \<Longrightarrow> ent4 s a AND 7 = 7" and "ent4 s a \<noteq> 0 \<Longrightarrow> ent3 s a \<noteq> 0 \<Longrightarrow> ent3 s a AND 7 = 7"
    and "ent4 s a \<noteq> 0 \<Longrightarrow> ent3 s a \<noteq> 0 \<Longrightarrow> ent2 s a \<noteq> 0 \<Longrightarrow> ent2 s a AND 7 = 7"
proof -
  obtain root where rt: "env_pml4e (envs s c) = Some root" "env_cr3 (envs s c) = page2pa root" "lev g root = 4"
      "addr_ok s g root a"
    using kinvD(6) [OF k c] a by (auto elim!: space_okE)
  have inv: "vm_inv s xs g" by (rule kinvD(1) [OF k])
  note T = vm_invD(2) [OF inv]
  have "root < 2 ^ 52" using vm_invD(5) [OF inv, of root] vm_invD(3) [OF inv] rt(3) by simp
  then have cr: "unat (PPN (cr3 s)) = root" using r rt(2) by simp
  have e: "phys s root (PML4 a) = ent4 s a" "phys s (tgt (ent4 s a)) (PDPE a) = ent3 s a"
    "phys s (tgt (ent3 s a)) (PDX a) = ent2 s a" "phys s (tgt (ent2 s a)) (PTX a) = ent1 s a"
    by (simp_all add: ent4_def ent3_def ent2_def ent1_def cr tgt_def)
  show "env_pte s c a = (if ent4 s a = 0 \<or> ent3 s a = 0 \<or> ent2 s a = 0 then 0 else ent1 s a)"
    using rt(1) by (simp add: env_pte_def pte_at_def path_def e)
  have o: "own g root (PML4 a)" "ent4 s a \<noteq> 0 \<Longrightarrow> own g (tgt (ent4 s a)) (PDPE a)"
    "ent4 s a \<noteq> 0 \<Longrightarrow> ent3 s a \<noteq> 0 \<Longrightarrow> own g (tgt (ent3 s a)) (PDX a)"
    using rt(4) by (simp_all add: addr_ok_def path_def e)
  show "ent4 s a AND 7 = 7" if "ent4 s a \<noteq> 0" using tree_invD(3) [OF T _ o(1)] rt(3) e that by simp
  have l3: "lev g (tgt (ent4 s a)) = 3" if "ent4 s a \<noteq> 0" using tree_invD(1) [OF T _ o(1)] rt(3) e that by simp
  show "ent3 s a AND 7 = 7" if "ent4 s a \<noteq> 0" "ent3 s a \<noteq> 0"
    using tree_invD(3) [OF T _ o(2)] l3 e that by simp
  have l2: "lev g (tgt (ent3 s a)) = 2" if "ent4 s a \<noteq> 0" "ent3 s a \<noteq> 0"
    using tree_invD(1) [OF T _ o(2)] l3 e that by simp
  show "ent2 s a AND 7 = 7" if "ent4 s a \<noteq> 0" "ent3 s a \<noteq> 0" "ent2 s a \<noteq> 0"
    using tree_invD(3) [OF T _ o(3)] l2 e that by simp
qed

lemma vpt_mapped:
  assumes "kinv s xs es g" and "live s c" and "cr3 s = env_cr3 (envs s c)" and "a < UTOP" and "env_pte s c a \<noteq> 0"
  shows "vpt a s = Some (env_pte s c a)"
proof -
  note w = user_walk [OF assms(1-4)]
  have nz: "ent4 s a \<noteq> 0" "ent3 s a \<noteq> 0" "ent2 s a \<noteq> 0" "env_pte s c a = ent1 s a" using assms(5) w(1) by (auto split: if_splits)
  have "PTE_P \<noteq> 0" by (simp add: jos_consts)
  then show ?thesis using and7(1) [OF w(2)] and7(1) [OF w(3)] and7(1) [OF w(4)] nz by (simp add: vpt_ent)
qed

lemma vpt_unmapped:
  assumes "kinv s xs es g" and "live s c" and "cr3 s = env_cr3 (envs s c)" and "a < UTOP" and "env_pte s c a = 0"
  shows "vpt a s = None \<or> vpt a s = Some 0"
  using user_walk(1) [OF assms(1-4)] assms(5) by (auto simp: vpt_ent split: if_splits)

lemma mmu_env:
  assumes "kinv s xs es g" and "live s c" and "cr3 s = env_cr3 (envs s c)" and "a < UTOP" and "env_pte s c a AND PTE_P \<noteq> 0"
  obtains fl where "mmu (unat (PPN (cr3 s))) a s = Some (tgt (env_pte s c a), fl)"
    "fl AND PTE_U = env_pte s c a AND PTE_U" "fl AND PTE_W = env_pte s c a AND PTE_W"
proof -
  note w = user_walk [OF assms(1-4)]
  have nz: "ent4 s a \<noteq> 0" "ent3 s a \<noteq> 0" "ent2 s a \<noteq> 0" "env_pte s c a = ent1 s a" using assms(5) w(1) by (auto split: if_splits)
  note f = w(2) [OF nz(1)] w(3) [OF nz(1,2)] w(4) [OF nz(1-3)]
  have up: "(e4 AND e3 AND e2 AND e1) AND m = e1 AND m" if "e4 AND m = m" "e3 AND m = m" "e2 AND m = m" for m e4 e3 e2 e1 :: u64
  proof -
    have "(e4 AND e3 AND e2 AND e1) AND m = e1 AND (e2 AND (e3 AND (e4 AND m)))" by (simp add: ac_simps)
    then show ?thesis using that by simp
  qed
  have "PTE_P \<noteq> 0" by (simp add: jos_consts)
  then have "mmu (unat (PPN (cr3 s))) a s = Some (tgt (env_pte s c a), ent4 s a AND ent3 s a AND ent2 s a AND ent1 s a)"
    using assms(5) nz(4) and7(1) [OF f(1)] and7(1) [OF f(2)] and7(1) [OF f(3)] by (simp add: mmu_ent)
  from that [OF this] show thesis
    using up and7(2,3) [OF f(1)] and7(2,3) [OF f(2)] and7(2,3) [OF f(3)] nz(4) by simp
qed

end
