(* ===== verification/Fork_Spec.thy ===== *)
theory Fork_Spec
  imports Fork
begin

text \<open>
  What \<open>duppage\<close> and the loop of \<open>fork\<close> do to the mappings of all environments, and that no
  mapped page changes its contents.
\<close>

section \<open>duppage\<close>

definition shared :: "u64 \<Rightarrow> bool" where
  "shared pte \<longleftrightarrow> pte AND PTE_USER AND PTE_SHARE \<noteq> 0"

definition copied :: "u64 \<Rightarrow> bool" where
  "copied pte \<longleftrightarrow> \<not> shared pte \<and> (pte AND PTE_W \<noteq> 0 \<or> pte AND PTE_COW \<noteq> 0)"

definition cow_perm :: u32 where
  "cow_perm = ucast (PTE_P OR PTE_U OR PTE_COW)"

text \<open>The entries of parent and child after the page has been duplicated.\<close>

definition child_pte :: "u64 \<Rightarrow> u64" where
  "child_pte pte = leaf_pte (tgt pte)
     (if shared pte then ucast (pte AND PTE_USER) else if copied pte then cow_perm else ucast (pte AND 0xFFF))"

definition parent_pte :: "u64 \<Rightarrow> u64" where
  "parent_pte pte = (if copied pte then leaf_pte (tgt pte) cow_perm else pte)"

lemma and_less: "ucast (x AND 0xFFF :: u64) < (4096 :: u32)" "ucast (x AND PTE_USER :: u64) < (4096 :: u32)"
proof -
  have b: "unat (x AND m) < 4096" if "unat m < 4096" for m
  proof -
    have "x AND m \<le> m" by (rule word_and_le1)
    then show ?thesis using that by (simp add: word_le_nat_alt)
  qed
  show "ucast (x AND 0xFFF :: u64) < (4096 :: u32)" "ucast (x AND PTE_USER :: u64) < (4096 :: u32)"
    using b [of "0xFFF"] b [of PTE_USER]
    by (simp_all add: word_less_nat_alt unsigned_ucast_eq unsigned_take_bit_eq take_bit_nat_eq_self jos_consts)
qed

lemma cow_small: "cow_perm < 4096"
  by (simp add: cow_perm_def jos_consts)

lemma page_number:
  assumes "\<not> bad_va va"
  shows "push_bit 12 (ucast (ucast (PPN va) :: u32)) = va"
proof -
  have v: "va < UTOP" "ROUNDDOWN va PGSIZE = va" using good_va [OF assms] by simp_all
  have u: "unat va < 0xEF800000" using v(1) unat_UTOP by (simp add: word_less_nat_alt)
  have d: "unat (PPN va) = unat va div 4096" by (simp add: PPN_def drop_bit_eq_div unat_div_distrib)
  have "unat (ucast (ucast (PPN va) :: u32) :: u64) = unat va div 4096"
    using u d by (simp add: unsigned_ucast_eq unsigned_take_bit_eq take_bit_nat_eq_self)
  then have "unat (push_bit 12 (ucast (ucast (PPN va) :: u32) :: u64)) = unat va div 4096 * 4096"
    using u by (simp add: push_bit_eq_mult unat_word_ariths mod_less)
  moreover have "4096 dvd unat va"
    using ROUNDDOWN_aligned [of PGSIZE va] v(2) by (simp add: jos_consts)
  ultimately show ?thesis by (simp add: word_unat_eq_iff)
qed

lemma env_pte_path: "path a = path b \<Longrightarrow> env_pte s e a = env_pte s e b"
  by (simp add: env_pte_def pte_at_def split: option.split)

lemma self_name: "curenv s = Some c \<Longrightarrow> may_name s 0 b c"
  by (simp add: may_name_def)

text \<open>One call of \<open>sys_page_map\<close> that cannot fail.\<close>

definition enough :: "nat \<Rightarrow> nat \<Rightarrow> nat list \<Rightarrow> kstate \<Rightarrow> bool" where
  "enough n k xs s \<longleftrightarrow> n \<le> length xs \<and> (\<forall>p. unat (pp_ref (pages s p)) + k < 65535)"

lemma enoughD: "enough n k xs s \<Longrightarrow> n \<le> length xs" "enough n k xs s \<Longrightarrow> unat (pp_ref (pages s p)) + k < 65535"
  by (simp_all add: enough_def)

lemma enough_mono:
  assumes "enough n k xs s" and "n' \<le> n" and "k' \<le> k"
  shows "enough n' k' xs s"
proof -
  have "unat (pp_ref (pages s p)) + k' < 65535" for p using enoughD(2) [OF assms(1), of p] assms(3) by linarith
  then show ?thesis using enoughD(1) [OF assms(1)] assms(2) by (simp add: enough_def)
qed

lemma enough_spends: "enough (n + n') (k + k') xs s \<Longrightarrow> spends n k xs s xs' s' \<Longrightarrow> enough n' k' xs' s'"
proof -
  assume e: "enough (n + n') (k + k') xs s" and p: "spends n k xs s xs' s'"
  have "unat (pp_ref (pages s' q)) + k' < 65535" for q
  proof -
    have "unat (pp_ref (pages s' q)) \<le> unat (pp_ref (pages s q)) + k" using p by (simp add: spends_def)
    moreover have "unat (pp_ref (pages s q)) + (k + k') < 65535" using e by (simp add: enough_def)
    ultimately show ?thesis by linarith
  qed
  then show ?thesis using e p by (simp add: enough_def spends_def)
qed

text \<open>Pages mapped by the environment \<open>c\<close> that are not page tables keep their contents.\<close>

definition keeps_user :: "nat \<Rightarrow> kstate \<Rightarrow> vm_ghost \<Rightarrow> kstate \<Rightarrow> vm_ghost \<Rightarrow> bool" where
  "keeps_user c s g s' g' \<longleftrightarrow>
     (\<forall>a < UTOP. env_pte s c a \<noteq> 0 \<longrightarrow> lev g (tgt (env_pte s c a)) = 0 \<longrightarrow>
        lev g' (tgt (env_pte s c a)) = 0 \<and> phys s' (tgt (env_pte s c a)) = phys s (tgt (env_pte s c a)))"

lemma keeps_user_trans:
  assumes "keeps_user c s g s1 g1" and "keeps_user c s1 g1 s2 g2"
    and "\<And>a. a < UTOP \<Longrightarrow> env_pte s c a \<noteq> 0 \<Longrightarrow> env_pte s1 c a \<noteq> 0 \<and> tgt (env_pte s1 c a) = tgt (env_pte s c a)"
  shows "keeps_user c s g s2 g2"
  using assms unfolding keeps_user_def by metis

lemma keeps_userI:
  assumes k: "kinv s xs es g" and c: "live s c" and d: "keeps_data xs g s s'" and sg: "same_ghost xs g g'"
  shows "keeps_user c s g s' g'"
proof -
  obtain root where r: "env_pml4e (envs s c) = Some root" using live_root [OF k c] by blast
  have "lev g' t = 0 \<and> phys s' t = phys s t" if "a < UTOP" "env_pte s c a \<noteq> 0" "lev g t = 0" "t = tgt (env_pte s c a)" for a t
    using mapped_target(4) [OF k c r that(1,2)] that(3,4) d same_ghostD(1) [OF sg, of t]
    by (auto simp: keeps_data_def fun_eq_iff)
  then show ?thesis by (simp add: keeps_user_def)
qed

lemma map_page:
  assumes k: "kinv s xs es g" and c: "curenv s = Some c" and e: "may_name s envid True e" and va: "\<not> bad_va va"
    and perm: "perm < 4096" and nz: "env_pte s c va \<noteq> 0" and en: "enough 3 2 xs s"
  obtains s' xs' g' where "sys_page_map 0 va envid va perm s = Some (0, s')" "kinv s' xs' es g'" "mm_only s s'"
    "keeps_user c s g s' g'" "spends 3 2 xs s xs' s'" "remap s s' e va (leaf_pte (tgt (env_pte s c va)) perm)"
proof -
  have lc: "live s c" by (rule kinvD(8) [OF k c])
  have "unat (pp_ref (pages s (tgt (env_pte s c va)))) < 65535" using enoughD(2) [OF en] by (rule add_lessD1)
  then have rf: "pp_ref (pages s (tgt (env_pte s c va))) \<noteq> - 1" by (auto simp: unsigned_minus_1_eq_mask mask_eq_exp_minus_1)
  have "\<not> length xs < 3" using en by (simp add: enough_def)
  then show thesis
    using sys_page_map_spec [OF k c self_name [OF c] e va va perm nz rf] that keeps_userI [OF k lc] by blast
qed

lemma duppage_spec:
  assumes k: "kinv s xs es g" and c: "curenv s = Some c" "cr3 s = env_cr3 (envs s c)" and e: "may_name s envid True e" "e \<noteq> c"
    and va: "\<not> bad_va va" and nz: "env_pte s c va \<noteq> 0" and en: "enough 6 4 xs s"
  obtains s' xs' g' where "duppage envid (ucast (PPN va)) s = Some (0, s')" "kinv s' xs' es g'" "mm_only s s'"
    "keeps_user c s g s' g'" "spends 6 4 xs s xs' s'"
    "\<And>e' a. live s e' \<Longrightarrow> a < UTOP \<Longrightarrow> env_pte s' e' a =
       (if e' = e \<and> path a = path va then child_pte (env_pte s c va)
        else if e' = c \<and> path a = path va then parent_pte (env_pte s c va) else env_pte s e' a)"
proof -
  let ?pte = "env_pte s c va"
  have lc: "live s c" by (rule kinvD(8) [OF k c(1)])
  have v: "vpt va s = Some ?pte" by (rule vpt_mapped [OF k lc c(2) _ nz]) (simp add: good_va [OF va])
  define perm where "perm = (if shared ?pte then ucast (?pte AND PTE_USER) else if copied ?pte then cow_perm else ucast (?pte AND 0xFFF))"
  have p: "perm < 4096" using and_less cow_small by (simp add: perm_def)
  have en3: "enough 3 2 xs s" by (rule enough_mono [OF en]) simp_all
  obtain s1 xs1 g1 where s1: "sys_page_map 0 va envid va perm s = Some (0, s1)" "kinv s1 xs1 es g1" "mm_only s s1"
      "keeps_user c s g s1 g1" "spends 3 2 xs s xs1 s1" "remap s s1 e va (leaf_pte (tgt ?pte) perm)"
    by (rule map_page [OF k c(1) e(1) va p nz en3])
  have ch: "leaf_pte (tgt ?pte) perm = child_pte ?pte" by (simp add: child_pte_def perm_def)
  show thesis
  proof (cases "copied ?pte")
    case False
    then have "duppage envid (ucast (PPN va)) s = Some (0, s1)"
      using s1(1) v unfolding duppage_def page_number [OF va] perm_def copied_def shared_def by (auto simp: Let_def)
    moreover have "env_pte s1 e' a = (if e' = e \<and> path a = path va then child_pte ?pte
        else if e' = c \<and> path a = path va then parent_pte ?pte else env_pte s e' a)" if "live s e'" "a < UTOP" for e' a
      using s1(6) that ch False env_pte_path [of a va s c] by (simp add: remap_def parent_pte_def)
    ultimately show thesis using that [OF _ s1(2,3,4) spends_mono [OF s1(5)]] by simp
  next
    case True
    have c1: "curenv s1 = Some c" using c(1) mm_only_fields [OF s1(3)] by simp
    have pte1: "env_pte s1 c a = env_pte s c a" if "a < UTOP" for a using s1(6) lc that e(2) by (simp add: remap_def)
    have vu: "va < UTOP" using good_va [OF va] by simp
    have nz1: "env_pte s1 c va \<noteq> 0" using pte1 [OF vu] nz by simp
    have en1: "enough 3 2 xs1 s1" using enough_spends [OF _ s1(5), of 3 2] en by simp
    obtain s2 xs2 g2 where s2: "sys_page_map 0 va 0 va cow_perm s1 = Some (0, s2)" "kinv s2 xs2 es g2" "mm_only s1 s2"
        "keeps_user c s1 g1 s2 g2" "spends 3 2 xs1 s1 xs2 s2" "remap s1 s2 c va (leaf_pte (tgt (env_pte s1 c va)) cow_perm)"
      by (rule map_page [OF s1(2) c1 self_name [OF c1] va cow_small nz1 en1])
    have "duppage envid (ucast (PPN va)) s = Some (0, s2)"
      using True s1(1) s2(1) v unfolding duppage_def page_number [OF va] perm_def copied_def shared_def cow_perm_def by (auto simp: Let_def)
    moreover have "keeps_user c s g s2 g2" by (rule keeps_user_trans [OF s1(4) s2(4)]) (simp add: pte1)
    moreover have "spends 6 4 xs s xs2 s2" using spends_trans [OF s1(5) s2(5)] by simp
    moreover have "env_pte s2 e' a = (if e' = e \<and> path a = path va then child_pte ?pte
        else if e' = c \<and> path a = path va then parent_pte ?pte else env_pte s e' a)" if "live s e'" "a < UTOP" for e' a
      using s1(6) s2(6) that live_mm [OF s1(3)] pte1 [OF vu] ch True e(2) by (auto simp: remap_def parent_pte_def)
    ultimately show thesis using that [OF _ s2(2) mm_only_trans [OF s1(3) s2(3)]] by blast
  qed
qed

end
