(* ===== verification/Fork_Loop.thy ===== *)
theory Fork_Loop
  imports Fork_Spec
begin

text \<open>The loop of \<open>fork\<close> over the pages of the parent.\<close>

section \<open>Entries\<close>

lemma tgt_small: "tgt e < 2 ^ 52"
proof -
  have "unat e < 2 ^ 64" using unsigned_less [of e] by simp
  then show ?thesis by (simp add: tgt_def PPN_def drop_bit_eq_div unat_div_distrib less_mult_imp_div_less)
qed

lemma child_tgt [simp]: "tgt (child_pte pte) = tgt pte"
  using and_less cow_small tgt_small by (simp add: child_pte_def)

lemma parent_tgt [simp]: "tgt (parent_pte pte) = tgt pte"
  using cow_small tgt_small by (simp add: parent_pte_def)

lemma parent_ne0 [simp]: "parent_pte pte \<noteq> 0 \<longleftrightarrow> copied pte \<or> pte \<noteq> 0"
  by (simp add: parent_pte_def)

section \<open>One turn\<close>

definition pres :: "kstate \<Rightarrow> nat \<Rightarrow> u64 \<Rightarrow> bool" where
  "pres s c a \<longleftrightarrow> env_pte s c a AND PTE_P \<noteq> 0"

definition dup_done :: "nat \<Rightarrow> nat \<Rightarrow> u64 list \<Rightarrow> kstate \<Rightarrow> kstate \<Rightarrow> bool" where
  "dup_done c e vs s s' \<longleftrightarrow> (\<forall>e' a. live s e' \<longrightarrow> a < UTOP \<longrightarrow> env_pte s' e' a =
     (if path a \<in> path ` set vs \<and> pres s c a \<and> e' = e then child_pte (env_pte s c a)
      else if path a \<in> path ` set vs \<and> pres s c a \<and> e' = c then parent_pte (env_pte s c a) else env_pte s e' a))"

definition pages_in :: "kstate \<Rightarrow> nat \<Rightarrow> u64 list \<Rightarrow> nat" where
  "pages_in s c vs = length (filter (pres s c) vs)"

lemma pres_path: "path a = path b \<Longrightarrow> pres s c a = pres s c b"
  using env_pte_path [of a b s c] by (simp add: pres_def)

lemma dup_done_tgt:
  assumes "dup_done c e vs s s'" and "live s c" and "e \<noteq> c" and "a < UTOP" and "env_pte s c a \<noteq> 0"
  shows "env_pte s' c a \<noteq> 0 \<and> tgt (env_pte s' c a) = tgt (env_pte s c a)"
  using assms by (auto simp: dup_done_def)

lemma fork_page_spec:
  assumes k: "kinv s xs es g" and c: "curenv s = Some c" "cr3 s = env_cr3 (envs s c)" and e: "may_name s envid True e" "e \<noteq> c"
    and v: "\<not> bad_va v" "v \<noteq> UXSTACKTOP - PGSIZE" and en: "enough (6 * pages_in s c [v]) (4 * pages_in s c [v]) xs s"
  shows "\<exists>s' xs' g'. fork_page envid v s = Some s' \<and> kinv s' xs' es g' \<and> mm_only s s' \<and> keeps_user c s g s' g' \<and>
    spends (6 * pages_in s c [v]) (4 * pages_in s c [v]) xs s xs' s' \<and> dup_done c e [v] s s'"
proof (cases "pres s c v")
  case True
  have lc: "live s c" by (rule kinvD(8) [OF k c(1)])
  have vu: "v < UTOP" using good_va [OF v(1)] by simp
  have nz: "env_pte s c v \<noteq> 0" using True by (auto simp: pres_def)
  have en6: "enough 6 4 xs s" using en True by (simp add: pages_in_def)
  obtain s' xs' g' where *: "duppage envid (ucast (PPN v)) s = Some (0, s')" "kinv s' xs' es g'" "mm_only s s'"
    "keeps_user c s g s' g'" "spends 6 4 xs s xs' s'"
    "\<And>e' a. live s e' \<Longrightarrow> a < UTOP \<Longrightarrow> env_pte s' e' a =
       (if e' = e \<and> path a = path v then child_pte (env_pte s c v)
        else if e' = c \<and> path a = path v then parent_pte (env_pte s c v) else env_pte s e' a)"
    by (rule duppage_spec [OF k c e v(1) nz en6]) blast
  have "fork_page envid v s = Some s'"
    using v(2) vpt_mapped [OF k lc c(2) vu nz] True *(1) by (simp add: fork_page_def pres_def)
  moreover have "dup_done c e [v] s s'"
    unfolding dup_done_def
  proof (intro allI impI)
    fix e' a
    assume "live s e'" "a < UTOP"
    then show "env_pte s' e' a = (if path a \<in> path ` set [v] \<and> pres s c a \<and> e' = e then child_pte (env_pte s c a)
      else if path a \<in> path ` set [v] \<and> pres s c a \<and> e' = c then parent_pte (env_pte s c a) else env_pte s e' a)"
      using *(6) [of e' a] True pres_path [of a v s c] env_pte_path [of a v s c] by auto
  qed
  ultimately show ?thesis using * True by (auto simp: pages_in_def)
next
  case False
  have lc: "live s c" by (rule kinvD(8) [OF k c(1)])
  have vu: "v < UTOP" using good_va [OF v(1)] by simp
  have "fork_page envid v s = Some s"
    using v(2) vpt_mapped [OF k lc c(2) vu] vpt_unmapped [OF k lc c(2) vu] False
    by (cases "env_pte s c v = 0") (auto simp: fork_page_def pres_def)
  moreover have "\<not> pres s c a" if "path a = path v" for a using pres_path [OF that] False by simp
  then have "dup_done c e [v] s s" by (auto simp: dup_done_def)
  ultimately show ?thesis using k False by (auto simp: keeps_user_def pages_in_def)
qed

lemma may_name_mm: "mm_only s s' \<Longrightarrow> may_name s' envid b e = may_name s envid b e"
  using live_mm [of s s'] mm_only_fields [of s s'] by (simp add: may_name_def)

lemma fork_loop_spec:
  assumes "kinv s xs es g" and "curenv s = Some c" and "cr3 s = env_cr3 (envs s c)" and "may_name s envid True e" and e: "e \<noteq> c"
    and "\<forall>v \<in> set vs. \<not> bad_va v \<and> v \<noteq> UXSTACKTOP - PGSIZE" and "distinct (map path vs)"
    and "enough (6 * pages_in s c vs) (4 * pages_in s c vs) xs s"
  shows "\<exists>s' xs' g'. foldM (fork_page envid) vs s = Some s' \<and> kinv s' xs' es g' \<and> mm_only s s' \<and> keeps_user c s g s' g' \<and>
    spends (6 * pages_in s c vs) (4 * pages_in s c vs) xs s xs' s' \<and> dup_done c e vs s s'"
  using assms(1-4,6-8)
proof (induction vs arbitrary: s xs g)
  case Nil
  then show ?case by (auto simp: pages_in_def keeps_user_def dup_done_def)
next
  case (Cons v vs)
  have cnt: "pages_in s c (v # vs) = pages_in s c [v] + pages_in s c vs" by (simp add: pages_in_def)
  have lc: "live s c" by (rule kinvD(8) [OF Cons.prems(1,2)])
  have en1: "enough (6 * pages_in s c [v]) (4 * pages_in s c [v]) xs s" using Cons.prems(7) unfolding cnt by (rule enough_mono) simp_all
  obtain s1 xs1 g1 where s1: "fork_page envid v s = Some s1" "kinv s1 xs1 es g1" "mm_only s s1" "keeps_user c s g s1 g1"
      "spends (6 * pages_in s c [v]) (4 * pages_in s c [v]) xs s xs1 s1" "dup_done c e [v] s s1"
    using fork_page_spec [OF Cons.prems(1-4) e _ _ en1] Cons.prems(5) by auto
  note f = mm_only_fields [OF s1(3)]
  have pte: "env_pte s1 e' a = env_pte s e' a" if "live s e'" "a < UTOP" "path a \<noteq> path v" for e' a
    using s1(6) that by (simp add: dup_done_def)
  have "pres s1 c w = pres s c w" if "w \<in> set vs" for w
  proof -
    have "path v \<notin> path ` set vs" "\<not> bad_va w" using Cons.prems(5,6) that by simp_all
    then have "path w \<noteq> path v" "w < UTOP" using imageI [OF that, of path] good_va [of w] by metis+
    then show ?thesis using pte [OF lc] by (simp add: pres_def)
  qed
  then have cnt1: "pages_in s1 c vs = pages_in s c vs" by (simp add: pages_in_def cong: filter_cong)
  have en2: "enough (6 * pages_in s1 c vs) (4 * pages_in s1 c vs) xs1 s1"
    unfolding cnt1 using Cons.prems(7) unfolding cnt distrib_left by (rule enough_spends) (rule s1(5))
  obtain s' xs' g' where s': "foldM (fork_page envid) vs s1 = Some s'" "kinv s' xs' es g'" "mm_only s1 s'" "keeps_user c s1 g1 s' g'"
      "spends (6 * pages_in s c vs) (4 * pages_in s c vs) xs1 s1 xs' s'" "dup_done c e vs s1 s'"
    using Cons.IH [OF s1(2) _ _ _ _ _ en2] Cons.prems(2-6) f may_name_mm [OF s1(3)] by (auto simp: cnt1)
  have "dup_done c e (v # vs) s s'"
    unfolding dup_done_def
  proof (intro allI impI)
    fix e' a
    assume a: "live s e'" "a < UTOP"
    have l1: "live s1 e'" using a(1) live_mm [OF s1(3)] by simp
    show "env_pte s' e' a = (if path a \<in> path ` set (v # vs) \<and> pres s c a \<and> e' = e then child_pte (env_pte s c a)
      else if path a \<in> path ` set (v # vs) \<and> pres s c a \<and> e' = c then parent_pte (env_pte s c a) else env_pte s e' a)"
    proof (cases "path a = path v")
      case True
      then have "path a \<notin> path ` set vs" using Cons.prems(6) by auto
      then have "env_pte s' e' a = env_pte s1 e' a" using s'(6) l1 a(2) by (simp add: dup_done_def)
      then show ?thesis using s1(6) a True by (simp add: dup_done_def)
    next
      case False
      have "pres s1 c a = pres s c a" "env_pte s1 c a = env_pte s c a" using pte [OF lc a(2) False] by (simp_all add: pres_def)
      then show ?thesis using s'(6) l1 a pte [OF a False] False by (simp add: dup_done_def)
    qed
  qed
  moreover have "keeps_user c s g s' g'" by (rule keeps_user_trans [OF s1(4) s'(4)]) (rule dup_done_tgt [OF s1(6) lc e])
  moreover have "spends (6 * pages_in s c (v # vs)) (4 * pages_in s c (v # vs)) xs s xs' s'"
    unfolding cnt distrib_left by (rule spends_trans [OF s1(5) s'(5)])
  ultimately show ?case using s1(1) s'(1,2) mm_only_trans [OF s1(3) s'(3)] by auto
qed

section \<open>The pages of the loop\<close>

lemma page_of_path:
  assumes "a < UTOP"
  shows "unat a div 4096 = (PDPE a * 512 + PDX a) * 512 + PTX a"
proof -
  have "unat a < 0xEF800000" using assms unat_UTOP by (simp add: word_less_nat_alt)
  define x where "x = unat a div 4096"
  have x: "x < 2 ^ 20" using \<open>unat a < 0xEF800000\<close> by (simp add: x_def)
  have i: "PTX a = x mod 512" "PDX a = x div 512 mod 512" "PDPE a = x div 512 div 512 mod 512"
    by (simp_all add: unat_index x_def div_mult2_eq [symmetric])
  have "x div 512 div 512 < 512" using x by (simp add: div_mult2_eq [symmetric])
  then have "PDPE a = x div 512 div 512" using i by simp
  then show ?thesis unfolding i x_def [symmetric] by simp
qed

lemma path_number: "a < UTOP \<Longrightarrow> b < UTOP \<Longrightarrow> path a = path b \<longleftrightarrow> unat a div 4096 = unat b div 4096"
proof
  assume "a < UTOP" "b < UTOP"
  show "unat a div 4096 = unat b div 4096" if "path a = path b"
    using page_of_path \<open>a < UTOP\<close> \<open>b < UTOP\<close> that by (simp add: path_def)
  assume u: "unat a div 4096 = unat b div 4096"
  have d: "x div 2 ^ 21 = x div 4096 div 2 ^ 9" "x div 2 ^ 30 = x div 4096 div 2 ^ 18" "x div 2 ^ 39 = x div 4096 div 2 ^ 27"
    "x div 2 ^ 12 = x div 4096" for x :: nat by (simp_all add: div_mult2_eq [symmetric])
  show "path a = path b" unfolding path_def unat_index d u ..
qed

definition fork_pages :: "u64 list" where
  "fork_pages = fork_range @ [USTACKTOP - PGSIZE]"

lemma fork_pages_eq: "fork_pages = map (\<lambda>k. UTEXT + of_nat k * PGSIZE) [0..<0xEEFFE]"
proof -
  have n: "unat ((USTACKTOP - PGSIZE - UTEXT) div PGSIZE) = 0xEEFFD" by (simp add: jos_consts)
  have "[0..<0xEEFFE] = [0..<0xEEFFD] @ [0xEEFFD :: nat]" using upt_Suc_append [of 0 "0xEEFFD"] by simp
  moreover have "UTEXT + of_nat 0xEEFFD * PGSIZE = USTACKTOP - PGSIZE" by (simp add: jos_consts)
  ultimately show ?thesis unfolding fork_pages_def fork_range_def n by (simp only: map_append list.map)
qed

lemma fork_page_unat: "k < 0xEEFFE \<Longrightarrow> unat (UTEXT + of_nat k * PGSIZE) = 0x800000 + k * 4096"
proof -
  assume k: "k < 0xEEFFE"
  have "UTEXT + of_nat k * PGSIZE = of_nat (0x800000 + k * 4096)" by (simp add: jos_consts)
  then show ?thesis using k by (simp only: unat_of_nat) simp
qed

lemma fork_page_ok:
  assumes "v \<in> set fork_pages"
  shows "\<not> bad_va v" and "v \<noteq> UXSTACKTOP - PGSIZE" and "v < UTOP"
proof -
  obtain k where k: "k < 0xEEFFE" "v = UTEXT + of_nat k * PGSIZE" using assms unfolding fork_pages_eq by auto
  have u: "unat v = 0x800000 + k * 4096" using fork_page_unat [OF k(1)] k(2) by simp
  show ut: "v < UTOP" using u k(1) unat_UTOP by (simp add: word_less_nat_alt)
  have "unat PGSIZE dvd unat v" using u by (simp add: jos_consts)
  moreover have "unat v + unat PGSIZE \<le> 2 ^ 64" "0 < unat PGSIZE" using u k(1) by (simp_all add: jos_consts)
  ultimately have "ROUNDUP v PGSIZE = v" using ROUNDUP_eq_self_iff by blast
  then show "\<not> bad_va v" using ut by (simp add: bad_va_def not_le)
  have "unat (UXSTACKTOP - PGSIZE) = 0xEF7FF000" by (simp add: jos_consts)
  then show "v \<noteq> UXSTACKTOP - PGSIZE" using u k(1) by auto
qed

lemma fork_pages_distinct: "distinct (map path fork_pages)"
proof -
  have "inj_on path (set fork_pages)"
  proof (rule inj_onI)
    fix a b
    assume ab: "a \<in> set fork_pages" "b \<in> set fork_pages" "path a = path b"
    then obtain k j where k: "k < 0xEEFFE" "a = UTEXT + of_nat k * PGSIZE" "j < 0xEEFFE" "b = UTEXT + of_nat j * PGSIZE"
      unfolding fork_pages_eq by auto
    have "unat a div 4096 = unat b div 4096" using path_number fork_page_ok(3) ab by blast
    then have "k = j" using fork_page_unat [OF k(1)] fork_page_unat [OF k(3)] k(2,4) by simp
    then show "a = b" using k by simp
  qed
  moreover have "inj_on (\<lambda>k. UTEXT + of_nat k * PGSIZE) (set [0..<0xEEFFE])"
    using fork_page_unat by (intro inj_onI) (metis add_left_cancel atLeastLessThan_iff mult_cancel2 set_upt zero_neq_numeral)
  then have "distinct fork_pages" unfolding fork_pages_eq distinct_map by simp
  ultimately show ?thesis by (simp add: distinct_map)
qed

text \<open>Every page from \<open>UTEXT\<close> to the top of the stack is one of them.\<close>

lemma fork_pages_cover:
  assumes "UTEXT \<le> a" and "a < USTACKTOP"
  shows "path a \<in> path ` set fork_pages"
proof -
  have u: "0x800000 \<le> unat a" "unat a < 0xEF7FE000" using assms by (simp_all add: word_le_nat_alt word_less_nat_alt jos_consts)
  define k where "k = unat a div 4096 - 0x800"
  have k: "k < 0xEEFFE" "0x800000 + k * 4096 = unat a div 4096 * 4096" using u by (simp_all add: k_def)
  let ?v = "UTEXT + of_nat k * PGSIZE"
  have v: "?v \<in> set fork_pages" using k(1) unfolding fork_pages_eq by simp
  have "a < UTOP" using u unat_UTOP by (simp add: word_less_nat_alt)
  then have "path a = path ?v" using path_number [of a ?v] fork_page_ok(3) [OF v] fork_page_unat [OF k(1)] k(2) by simp
  then show ?thesis using v by blast
qed

end
