(* ===== verification/Sample_Fork.thy ===== *)
theory Sample_Fork
  imports Sample_Kernel Fork_Loop
begin

text \<open>
  A second concrete machine: that of Sample with 64 pages, of which 19 to 63 are free, and with
  a page of stack (page 18, under the tables 16 and 17) mapped copy-on-write in the running
  environment. The page of text and that of stack hold a value each.
\<close>

definition stack_phys :: memory where
  "stack_phys p i =
     (if p = 2 \<and> i = 3 then table_pte 16
      else if p = 16 \<and> i = 379 then table_pte 17
      else if p = 17 \<and> i = 509 then leaf_pte 18 0x805
      else if p = 18 \<and> i = 511 then 42
      else if p = 5 \<and> i = 7 then 99
      else sample_phys p i)"

definition stack_page :: "nat \<Rightarrow> page" where
  "stack_page p =
     \<lparr>pp_link = (if 19 \<le> p \<and> Suc p < 64 then Some (Suc p) else None),
      pp_ref = (if 1 \<le> p \<and> p \<le> 5 \<or> 9 \<le> p \<and> p \<le> 12 \<or> 16 \<le> p \<and> p \<le> 18 then 1 else 0)\<rparr>"

definition stack_sample :: kstate where
  "stack_sample = sample\<lparr>npages := 64, pages := stack_page, page_free_list := Some 19, phys := stack_phys\<rparr>"

definition stack_ghost :: vm_ghost where
  "stack_ghost = \<lparr>lev = (\<lambda>p. if 1 \<le> p \<and> p \<le> 4 then 5 - p else if p = 12 then 4 else if p = 16 then 2 else if p = 17 then 1 else 0),
     own = (\<lambda>p i. True),
     held = (\<lambda>p. if 1 \<le> p \<and> p \<le> 4 \<or> 9 \<le> p \<and> p \<le> 12 \<or> p = 16 \<or> p = 17 then 1 else 0)\<rparr>"

lemma stack_simps [simp]:
  "npages stack_sample = 64" "pages stack_sample = stack_page" "page_free_list stack_sample = Some 19"
  "phys stack_sample = stack_phys" "envs stack_sample = envs sample" "boot_pml4e stack_sample = 9"
  "env_free_list stack_sample = env_free_list sample" "curenv stack_sample = Some 0" "cr3 stack_sample = 0x1000"
  by (simp_all add: stack_sample_def curenv_def) (simp_all add: sample_def)

lemma stack_alloc_inv: "alloc_inv stack_sample [19..<64]"
proof -
  have "chain (\<lambda>p. pp_link (pages stack_sample p)) (Some 19) [19..<64]"
    by (rule chain_upt [where m = 19]) (auto simp: stack_page_def)
  then show ?thesis by (auto simp: alloc_inv_def free_pages_def) (simp_all add: stack_page_def)
qed

lemma stack_leafs:
  "leafs stack_phys (lev stack_ghost) (own stack_ghost) q = (if q = 5 then {(4, 0)} else if q = 18 then {(17, 509)} else {})"
  by (auto simp: leafs_def stack_phys_def sample_phys_def stack_ghost_def split: if_splits)

lemma stack_entry:
  assumes "2 \<le> lev stack_ghost p" and "stack_phys p i \<noteq> 0"
  shows "(p, i, tgt (stack_phys p i)) \<in> {(1, 0, 2), (2, 0, 3), (2, 3, 16), (3, 4, 4), (16, 379, 17)} \<and> stack_phys p i AND 7 = 7"
  using assms by (simp add: stack_phys_def sample_phys_def stack_ghost_def split: if_splits)

lemma stack_tree: "tree_inv stack_phys (lev stack_ghost) (own stack_ghost)"
  unfolding tree_inv_def
proof (intro conjI allI impI)
  fix p i assume p: "2 \<le> lev stack_ghost p" "stack_phys p i \<noteq> 0"
  note e = stack_entry [OF p]
  then show "stack_phys p i AND 7 = 7" by blast
  have "lev stack_ghost 1 = 4" "lev stack_ghost 2 = 3" "lev stack_ghost 3 = 2" "lev stack_ghost 4 = 1" "lev stack_ghost 16 = 2"
    "lev stack_ghost 17 = 1" by (simp_all add: stack_ghost_def)
  then show "Suc (lev stack_ghost (tgt (stack_phys p i))) = lev stack_ghost p"
    using e by (elim conjE insertE emptyE Pair_inject) simp_all
  fix q j assume q: "2 \<le> lev stack_ghost q" "stack_phys q j \<noteq> 0" "tgt (stack_phys p i) = tgt (stack_phys q j)"
  show "p = q" "i = j" using stack_entry [OF p] stack_entry [OF q(1,2)] q(3) by auto
qed

lemma stack_vm_inv: "vm_inv stack_sample [19..<64] stack_ghost"
  unfolding vm_inv_def stack_simps stack_leafs
  using stack_alloc_inv stack_tree
  by (auto simp: stack_ghost_def stack_phys_def sample_phys_def stack_page_def split: if_splits)

lemma stack_live: "live stack_sample e \<longleftrightarrow> e = 0 \<or> e = 1"
  using sample_live [of e] by (simp add: live_def)

lemma stack_kinv: "kinv stack_sample [19..<64] [2..<NENV] stack_ghost"
proof -
  have live: "live stack_sample = live sample" by (auto simp: stack_live sample_live)
  have "kern_pdpe stack_sample = 10" by (simp add: kern_pdpe_def stack_phys_def sample_phys_def)
  moreover from this have "kern_pgdir stack_sample = 11" by (simp add: kern_pgdir_def stack_phys_def sample_phys_def)
  ultimately have "kern_ok stack_sample [19..<64] stack_ghost"
    by (simp add: kern_ok_def stack_phys_def sample_phys_def stack_ghost_def)
  note kern = this
  have "addr_ok stack_sample stack_ghost 1 a" "addr_ok stack_sample stack_ghost 12 a" for a
    by (simp_all add: addr_ok_def path_def stack_ghost_def)
  moreover have "lev stack_ghost 1 = 4" "lev stack_ghost 12 = 4" by (simp_all add: stack_ghost_def)
  ultimately have "space_ok stack_sample stack_ghost e" if "live stack_sample e" for e
    using that by (auto simp: stack_live space_ok_def sample_env_def sample_child_def page2pa_def)
  moreover have "env_chain stack_sample [2..<NENV]" using sample_chain by (simp add: env_chain_def)
  ultimately show ?thesis
    using stack_vm_inv kern kinvD(4,5,7-9) [OF sample_kinv] unfolding kinv_def live stack_simps sample_simps by blast
qed

lemma stack_pte_at: "pte_at stack_sample 1 a \<noteq> 0 \<Longrightarrow> path a = [0, 0, 4, 0] \<or> path a = [0, 3, 379, 509]"
  by (auto simp: pte_at_def path_def stack_phys_def sample_phys_def split: if_splits)

lemma stack_text: "env_pte stack_sample 0 0x800000 = leaf_pte 5 7"
  by (simp add: env_pte_def pte_at_def path_UTEXT stack_phys_def sample_phys_def)

lemma stack_pres: "pres stack_sample 0 0x800000" "pres stack_sample 0 (USTACKTOP - PGSIZE)"
  by (simp_all add: pres_def env_pte_def pte_at_def path_def PML4_def PDPE_def PDX_def PTX_def jos_consts stack_phys_def sample_phys_def
      leaf_pte_def page2pa_def)

lemma stack_stack: "env_pte stack_sample 0 (USTACKTOP - PGSIZE) = leaf_pte 18 0x805"
  by (simp add: env_pte_def pte_at_def path_def PML4_def PDPE_def PDX_def PTX_def jos_consts stack_phys_def sample_phys_def)

lemma stack_pages_in: "pages_in stack_sample 0 fork_pages \<le> 2"
proof -
  let ?xs = "filter (pres stack_sample 0) fork_pages"
  have "path ` set ?xs \<subseteq> {[0, 0, 4, 0], [0, 3, 379, 509]}"
  proof (intro image_subsetI)
    fix v assume "v \<in> set ?xs"
    then have "env_pte stack_sample 0 v \<noteq> 0" by (auto simp: pres_def)
    then show "path v \<in> {[0, 0, 4, 0], [0, 3, 379, 509]}" using stack_pte_at [of v] by (simp add: env_pte_def)
  qed
  then have "card (path ` set ?xs) \<le> card {[0, 0, 4, 0], [0, 3, 379, 509 :: nat]}" by (rule card_mono [rotated]) simp
  moreover have "distinct (map path ?xs)" by (rule distinct_map_filter [OF fork_pages_distinct])
  ultimately show ?thesis using distinct_card [of "map path ?xs"] by (simp add: pages_in_def card_insert_if)
qed

lemma stack_enough: "n \<le> 45 \<Longrightarrow> k < 65534 \<Longrightarrow> enough n k [19..<64] stack_sample"
  by (simp add: enough_def stack_page_def)

end
