(* ===== verification/Fork_Fault.thy ===== *)
theory Fork_Fault
  imports Fork_Loop
begin

text \<open>The page fault handler of \<open>fork\<close>: what its copy of a page does, and its three system calls.\<close>

section \<open>Writing a page that is not a table\<close>

definition page_written :: "nat \<Rightarrow> kstate \<Rightarrow> kstate \<Rightarrow> bool" where
  "page_written p s s' \<longleftrightarrow> (\<exists>m. s' = s\<lparr>phys := m\<rparr> \<and> (\<forall>q. q \<noteq> p \<longrightarrow> m q = phys s q))"

definition kern_pages :: "kstate \<Rightarrow> nat set" where
  "kern_pages s = {boot_pml4e s, kern_pdpe s, kern_pgdir s}"

lemma page_written_refl [simp]: "page_written p s s"
  by (auto simp: page_written_def intro!: exI [of _ "phys s"])

lemma page_written_byte: "page_written p s s' \<Longrightarrow> page_written p s (wr_byte p off b s')"
  by (auto simp: page_written_def wr_byte_def wr_def)

lemma page_written_phys: "page_written p s s' \<Longrightarrow> q \<noteq> p \<Longrightarrow> phys s' q = phys s q"
  by (auto simp: page_written_def)

lemma page_written_mm: "page_written p s s' \<Longrightarrow> mm_only s s'"
proof -
  assume "page_written p s s'"
  then obtain m where "s' = s\<lparr>phys := m\<rparr>" by (auto simp: page_written_def)
  then show ?thesis
    by (intro mm_onlyI [where pgs = "pages s" and l = "page_free_list s" and tlb = "invlpgs s" and m = m]) simp
qed

lemma page_written_vm:
  assumes inv: "vm_inv s xs g" and p: "lev g p = 0" and w: "page_written p s s'"
  shows "vm_inv s' xs g"
proof -
  have same: "phys s' q = phys s q" if "lev g q \<noteq> 0" for q using page_written_phys [OF w, of q] p that by (cases "q = p") simp_all
  have f: "pages s' = pages s" "npages s' = npages s" "page_free_list s' = page_free_list s" using w by (auto simp: page_written_def)
  have "leafs (phys s') (lev g) (own g) q = leafs (phys s) (lev g) (own g) q" for q using same by (auto simp: leafs_def)
  moreover have "tree_inv (phys s') (lev g) (own g)" by (rule tree_inv_cong [OF vm_invD(2) [OF inv]]) (simp add: same)
  moreover have "alloc_inv s' xs" using vm_invD(1) [OF inv] f by (simp add: alloc_inv_def free_pages_def)
  ultimately show ?thesis using inv same f unfolding vm_inv_def by simp
qed

lemma page_written_kinv:
  assumes k: "kinv s xs es g" and p: "lev g p = 0" "p \<notin> kern_pages s" and w: "page_written p s s'"
  shows "kinv s' xs es g" and "live s e \<Longrightarrow> a < UTOP \<Longrightarrow> env_pte s' e a = env_pte s e a"
proof -
  note inv = kinvD(1) [OF k] and f = mm_only_fields [OF page_written_mm [OF w]]
  have same: "phys s' q = phys s q" if "lev g q \<noteq> 0" for q using page_written_phys [OF w, of q] p that by (cases "q = p") simp_all
  note e = entry_same_tables [OF vm_invD(2) [OF inv], of "phys s'" "own g", OF arg_cong [OF same] refl]
  have ok: "addr_ok s' g r a" if "addr_ok s g r a" for r a using e [of r "path a"] that by (simp add: addr_ok_def)
  have "kern_pdpe s' = kern_pdpe s"
    using f page_written_phys [OF w, of "boot_pml4e s"] p(2) by (simp add: kern_pdpe_def kern_pages_def)
  moreover from this have "kern_pgdir s' = kern_pgdir s"
    using page_written_phys [OF w, of "kern_pdpe s"] p(2) by (simp add: kern_pgdir_def kern_pages_def)
  ultimately have "kern_ok s' xs g"
    using kinvD(2) [OF k] f page_written_phys [OF w] p(2) unfolding kern_ok_def kern_pages_def by simp
  moreover have "space_ok s' g e" if "space_ok s g e" for e using that ok f by (auto simp: space_ok_def)
  moreover have "env_chain s' es" using kinvD(3) [OF k] f by (simp add: env_chain_def)
  ultimately show "kinv s' xs es g"
    using page_written_vm [OF inv p(1) w] kinvD(4-9) [OF k] unfolding kinv_def live_mm [OF page_written_mm [OF w]] f by blast
  show "env_pte s' e a = env_pte s e a" if l: "live s e" "a < UTOP"
  proof -
    obtain root where r: "env_pml4e (envs s e) = Some root" "lev g root = 4" "addr_ok s g root a"
      using kinvD(6) [OF k l(1)] l(2) by (auto elim!: space_okE)
    then have "entry (phys s') root (path a) = entry (phys s) root (path a)" using e [of root "path a"] by (simp add: addr_ok_def)
    then show ?thesis using r(1) f by (simp add: env_pte_def pte_at_def entry_def)
  qed
qed

section \<open>Copying a page\<close>

lemma page_offset:
  assumes "\<not> bad_va va" and "i < 4096"
  shows "va + of_nat i < UTOP" "path (va + of_nat i) = path va" "unat (PGOFF (va + of_nat i)) = i"
proof -
  have v: "va < UTOP" "ROUNDDOWN va PGSIZE = va" using good_va [OF assms(1)] by simp_all
  have "4096 dvd unat va" using ROUNDDOWN_aligned [of PGSIZE va] v(2) by (simp add: jos_consts)
  then obtain k where k: "unat va = 4096 * k" by (auto elim: dvdE)
  have b: "unat va < 0xEF800000" using v(1) unat_UTOP by (simp add: word_less_nat_alt)
  have i: "unat (of_nat i :: u64) = i" using assms(2) by (simp add: unat_of_nat)
  have u: "unat (va + of_nat i) = 4096 * k + i" using k b i assms(2) by (subst unat_add_lem [THEN iffD1]) simp_all
  show l: "va + of_nat i < UTOP" using u b k assms(2) unat_UTOP by (simp add: word_less_nat_alt)
  show "path (va + of_nat i) = path va" using path_number [OF l v(1)] u k assms(2) by simp
  have "PGOFF x = take_bit 12 x" for x by (simp add: PGOFF_def take_bit_eq_mask mask_eq_exp_minus_1)
  then show "unat (PGOFF (va + of_nat i)) = i" using u assms(2) by (simp add: take_bit_eq_mod unat_mod_distrib)
qed

lemma get_byte_ext: "(\<And>i. i < 8 \<Longrightarrow> get_byte v i = get_byte w i) \<Longrightarrow> v = w"
proof (rule bit_word_eqI)
  fix n assume b: "\<And>i. i < 8 \<Longrightarrow> get_byte v i = get_byte w i" and n: "n < LENGTH(64)"
  have "bit x n = bit (get_byte x (n div 8)) (n mod 8)" for x
    using n by (simp add: get_byte_def bit_simps)
  then show "bit v n = bit w n" using b [of "n div 8"] n by simp
qed

lemma ucopy_byte:
  assumes k: "kinv s xs es g" and c: "live s c" "cr3 s = env_cr3 (envs s c)" and va: "\<not> bad_va src" "\<not> bad_va dst" and i: "i < 4096"
    and src: "env_pte s c src AND PTE_P \<noteq> 0" "env_pte s c src AND PTE_U \<noteq> 0"
    and dst: "env_pte s c dst AND PTE_P \<noteq> 0" "env_pte s c dst AND PTE_U \<noteq> 0" "env_pte s c dst AND PTE_W \<noteq> 0"
  shows "ucopy dst src i s = Some (wr_byte (tgt (env_pte s c dst)) i (phys_byte s (tgt (env_pte s c src)) i) s)"
proof -
  note o = page_offset [OF va(1) i] page_offset [OF va(2) i]
  have e: "env_pte s c (src + of_nat i) = env_pte s c src" "env_pte s c (dst + of_nat i) = env_pte s c dst"
    using env_pte_path o(2,5) by blast+
  obtain f1 where f1: "mmu (unat (PPN (cr3 s))) (src + of_nat i) s = Some (tgt (env_pte s c src), f1)" "f1 AND PTE_U \<noteq> 0"
    using mmu_env [OF k c o(1)] src unfolding e by metis
  obtain f2 where f2: "mmu (unat (PPN (cr3 s))) (dst + of_nat i) s = Some (tgt (env_pte s c dst), f2)" "f2 AND PTE_U \<noteq> 0" "f2 AND PTE_W \<noteq> 0"
    using mmu_env [OF k c o(4)] dst unfolding e by metis
  show ?thesis using f1 f2 o(3,6) by (simp add: ucopy_def uload_def ustore_def)
qed

lemma copy_page:
  assumes k: "kinv s xs es g" and c: "live s c" "cr3 s = env_cr3 (envs s c)" and va: "\<not> bad_va src" "\<not> bad_va dst"
    and src: "env_pte s c src AND PTE_P \<noteq> 0" "env_pte s c src AND PTE_U \<noteq> 0" "tgt (env_pte s c src) = t"
    and dst: "env_pte s c dst AND PTE_P \<noteq> 0" "env_pte s c dst AND PTE_U \<noteq> 0" "env_pte s c dst AND PTE_W \<noteq> 0" "tgt (env_pte s c dst) = p"
    and p: "lev g p = 0" "p \<notin> kern_pages s" "t \<noteq> p"
  shows "(\<forall>i \<in> set js. i < 4096) \<Longrightarrow> \<exists>s'. foldM (ucopy dst src) js s = Some s' \<and> page_written p s s' \<and>
     (\<forall>i. phys_byte s' p i = (if i \<in> set js then phys_byte s t i else phys_byte s p i))"
proof (induction js rule: rev_induct)
  case (snoc j js)
  then obtain s1 where s1: "foldM (ucopy dst src) js s = Some s1" "page_written p s s1"
    "\<And>i. phys_byte s1 p i = (if i \<in> set js then phys_byte s t i else phys_byte s p i)" by auto
  note w = page_written_kinv [OF k p(1,2) s1(2)] and f = mm_only_fields [OF page_written_mm [OF s1(2)]]
  have u: "src < UTOP" "dst < UTOP" using good_va va by blast+
  have "ucopy dst src j s1 = Some (wr_byte p j (phys_byte s1 t j) s1)"
    using ucopy_byte [OF w(1) _ _ va, of c j] live_mm [OF page_written_mm [OF s1(2)]] c f w(2) [OF c(1)] u src dst snoc.prems by simp
  moreover have "phys_byte s1 t j = phys_byte s t j" using page_written_phys [OF s1(2) p(3)] by (simp add: phys_byte_def)
  ultimately show ?case
    using s1 page_written_byte [OF s1(2)] by (auto simp: foldM_append phys_byte_wr_byte)
qed auto

lemma umemmove_page:
  assumes k: "kinv s xs es g" and c: "live s c" "cr3 s = env_cr3 (envs s c)" and va: "\<not> bad_va src" "\<not> bad_va dst"
    and src: "env_pte s c src AND PTE_P \<noteq> 0" "env_pte s c src AND PTE_U \<noteq> 0" "tgt (env_pte s c src) = t"
    and dst: "env_pte s c dst AND PTE_P \<noteq> 0" "env_pte s c dst AND PTE_U \<noteq> 0" "env_pte s c dst AND PTE_W \<noteq> 0" "tgt (env_pte s c dst) = p"
    and p: "lev g p = 0" "p \<notin> kern_pages s" "t \<noteq> p"
  obtains s' where "umemmove dst src 4096 s = Some s'" "page_written p s s'" "\<forall>i < 512. phys s' p i = phys s t i"
proof -
  define js where "js = (if src < dst \<and> dst < src + of_nat 4096 then rev [0..<4096] else [0..<4096])"
  have js: "\<forall>i \<in> set js. i < 4096" by (simp add: js_def)
  obtain s' where s': "foldM (ucopy dst src) js s = Some s'" "page_written p s s'"
      "\<And>i. phys_byte s' p i = (if i \<in> set js then phys_byte s t i else phys_byte s p i)"
    using copy_page [OF assms js] by blast
  have "phys s' p i = phys s t i" if "i < 512" for i
  proof (rule get_byte_ext)
    fix b :: nat assume b: "b < 8"
    have "i * 8 + b \<in> set js" using that b by (simp add: js_def)
    then show "get_byte (phys s' p i) b = get_byte (phys s t i) b" using s'(3) [of "i * 8 + b"] b by (simp add: phys_byte_def)
  qed
  moreover have "umemmove dst src 4096 s = Some s'" using s'(1) unfolding umemmove_def js_def by (simp only: simp_thms split: if_splits)
  ultimately show thesis using that s'(2) by blast
qed

section \<open>The handler\<close>

lemma pftemp: "\<not> bad_va PFTEMP" "PFTEMP < UTOP"
  by (simp_all add: bad_va_def ROUNDUP_def ROUNDDOWN_def jos_consts)

lemma bit_low: "take_bit 12 (m :: u64) = m \<Longrightarrow> bit m n \<Longrightarrow> n < 12"
  by (metis bit_take_bit_iff)

lemma low_and: "take_bit 12 m = m \<Longrightarrow> take_bit 12 (x AND m) = (x AND m :: u64)"
  by (intro bit_word_eqI) (auto simp: bit_simps dest: bit_low)

lemma leaf_and:
  assumes m: "take_bit 12 m = m" and x: "take_bit 12 x = x"
  shows "leaf_pte p (ucast x) AND m = (x OR PTE_P) AND m"
proof -
  have "page2pa p AND m = 0"
    by (intro bit_word_eqI) (auto simp: page2pa_def bit_simps dest: bit_low [OF m])
  moreover have "scast (ucast x :: u32) = x"
    by (intro bit_word_eqI) (auto simp: bit_simps min_def split: if_splits dest: bit_low [OF x])
  ultimately show ?thesis by (simp add: leaf_pte_def bit.conj_disj_distrib2)
qed

lemma leaf7: "leaf_pte p 7 AND PTE_P \<noteq> 0" "leaf_pte p 7 AND PTE_U \<noteq> 0" "leaf_pte p 7 AND PTE_W \<noteq> 0"
proof -
  have "leaf_pte p (ucast (7 :: u64)) AND 7 = 7" by (subst leaf_and) (simp_all add: jos_consts)
  from and7 [OF this] show "leaf_pte p 7 AND PTE_P \<noteq> 0" "leaf_pte p 7 AND PTE_U \<noteq> 0" "leaf_pte p 7 AND PTE_W \<noteq> 0"
    by (simp_all add: jos_consts)
qed

lemma fresh_kern:
  assumes k: "kinv s xs es g" and m: "mm_only s s'" and kd: "keeps_data xs g s s'" and p: "p \<in> set xs"
  shows "p \<notin> kern_pages s'"
proof -
  have f: "q \<notin> set xs \<and> lev g q = 0" if "q \<in> {boot_pml4e s, kern_pdpe s, kern_pgdir s}" for q
    using bspec [OF conjunct1 [OF kinvD(2) [OF k, unfolded kern_ok_def]] that] by simp
  have same: "phys s' q j = phys s q j" if "q \<in> {boot_pml4e s, kern_pdpe s, kern_pgdir s}" for q j
    using f [OF that] kd by (simp add: keeps_data_def)
  have "boot_pml4e s' = boot_pml4e s" using mm_only_fields [OF m] by simp
  moreover from this have "kern_pdpe s' = kern_pdpe s" using same by (simp add: kern_pdpe_def)
  moreover from this have "kern_pgdir s' = kern_pgdir s" using same by (simp add: kern_pgdir_def)
  ultimately show ?thesis using f p by (auto simp: kern_pages_def)
qed

lemma mapped_not_free:
  assumes k: "kinv s xs es g" and "live s e" and "a < UTOP" and "env_pte s e a \<noteq> 0"
  shows "tgt (env_pte s e a) \<notin> set xs"
  using live_root [OF assms(1,2)] mapped_target(4) [OF assms(1,2) _ assms(3,4)] by blast

text \<open>\<open>sys_page_alloc\<close> at \<open>PFTEMP\<close> and the copy.\<close>

lemma fault_copy:
  assumes k: "kinv s xs es g" and c: "curenv s = Some c" "cr3 s = env_cr3 (envs s c)" and va: "\<not> bad_va va" "path va \<noteq> path PFTEMP"
    and pte: "env_pte s c va AND PTE_P \<noteq> 0" "env_pte s c va AND PTE_U \<noteq> 0" "lev g (tgt (env_pte s c va)) = 0"
    and en: "enough (4 + n) (2 + m) xs s"
  obtains s1 s2 xs2 g2 p where "sys_page_alloc 0 PFTEMP 7 s = Some (0, s1)" "umemmove PFTEMP va 4096 s1 = Some s2" "kinv s2 xs2 es g2"
    "mm_only s s2" "p \<in> set xs" "p \<notin> set xs2" "lev g2 p = 0" "\<forall>i < 512. phys s2 p i = phys s (tgt (env_pte s c va)) i"
    "\<forall>q. q \<notin> set xs \<longrightarrow> lev g q = 0 \<longrightarrow> phys s2 q = phys s q" "same_ghost xs g g2" "remap s s2 c PFTEMP (leaf_pte p 7)" "enough n m xs2 s2"
proof -
  let ?t = "tgt (env_pte s c va)"
  have lc: "live s c" by (rule kinvD(8) [OF k c(1)])
  have perm: "\<not> bad_perm 7" by (simp add: bad_perm_def jos_consts)
  have "\<not> length xs < 4" using enoughD(1) [OF en] by simp
  then obtain s1 xs1 g1 p where s1: "sys_page_alloc 0 PFTEMP 7 s = Some (0, s1)" "kinv s1 xs1 es g1" "mm_only s s1" "keeps_data xs g s s1"
      "p \<in> set xs" "p \<notin> set xs1" "same_ghost xs g g1" "lev g1 p = 0" "spends 4 2 xs s xs1 s1" "remap s s1 c PFTEMP (leaf_pte p 7)"
    using sys_page_alloc_spec [OF k c(1) self_name [OF c(1)] pftemp(1) perm] by blast
  have v: "va < UTOP" using good_va [OF va(1)] by simp
  have t: "?t \<notin> set xs" by (rule mapped_not_free [OF k lc v]) (use pte(1) in auto)
  have l1: "live s1 c" using live_mm [OF s1(3)] lc by simp
  have e: "env_pte s1 c va = env_pte s c va" "env_pte s1 c PFTEMP = leaf_pte p 7" using s1(10) lc v pftemp(2) va(2) by (auto simp: remap_def)
  have pp: "p < 2 ^ 52" using alloc_invD(5) [OF vm_invD(1) [OF kinvD(1) [OF k]] s1(5)] vm_invD(3) [OF kinvD(1) [OF k]] by simp
  have c1: "cr3 s1 = env_cr3 (envs s1 c)" using mm_only_fields [OF s1(3)] c(2) by simp
  obtain s2 where s2: "umemmove PFTEMP va 4096 s1 = Some s2" "page_written p s1 s2" "\<forall>i < 512. phys s2 p i = phys s1 ?t i"
    by (rule umemmove_page [OF s1(2) l1 c1 va(1) pftemp(1), of ?t p])
      (use e pte leaf7 pp t s1(5,8) fresh_kern [OF k s1(3,4,5)] in auto)
  note w = page_written_kinv [OF s1(2,8) fresh_kern [OF k s1(3,4,5)] s2(2)]
  show thesis
  proof (rule that [OF s1(1) s2(1) w(1)])
    show "mm_only s s2" by (rule mm_only_trans [OF s1(3) page_written_mm [OF s2(2)]])
    have d: "phys s1 q = phys s q" if "q \<notin> set xs" "lev g q = 0" for q using s1(4) that by (auto simp: keeps_data_def)
    show "\<forall>i < 512. phys s2 p i = phys s ?t i" using s2(3) d [OF t pte(3)] by simp
    show "\<forall>q. q \<notin> set xs \<longrightarrow> lev g q = 0 \<longrightarrow> phys s2 q = phys s q" using d page_written_phys [OF s2(2)] s1(5) by metis
    show "remap s s2 c PFTEMP (leaf_pte p 7)" using s1(10) w(2) live_mm [OF s1(3)] by (simp add: remap_def)
    have "enough n m xs1 s1" by (rule enough_spends [OF _ s1(9)], rule enough_mono [OF en]) simp_all
    then show "enough n m xs1 s2" using s2(2) by (auto simp: enough_def page_written_def)
  qed (use s1 in simp_all)
qed

lemma page_start:
  assumes "addr < UTOP"
  shows "\<not> bad_va (ROUNDDOWN addr PGSIZE)" "path (ROUNDDOWN addr PGSIZE) = path addr"
proof -
  let ?va = "ROUNDDOWN addr PGSIZE"
  have r: "unat ?va = unat addr div 4096 * 4096" by (simp add: ROUNDDOWN_eq jos_consts)
  have l: "?va < UTOP" using ROUNDDOWN_le assms by (rule order.strict_trans1)
  show "path ?va = path addr" using path_number [OF l assms] r by simp
  have "unat ?va < 0xEF800000" using l unat_UTOP by (simp add: word_less_nat_alt)
  then have "ROUNDUP ?va PGSIZE = ?va" using r by (subst ROUNDUP_eq_self_iff) (simp_all add: jos_consts)
  then show "\<not> bad_va ?va" using l by (simp add: bad_va_def)
qed

text \<open>\<open>sys_page_map\<close> of the copy to its address and \<open>sys_page_unmap\<close> of \<open>PFTEMP\<close>.\<close>

lemma fault_move:
  assumes k: "kinv s xs es g" and c: "curenv s = Some c" and va: "\<not> bad_va va" "path va \<noteq> path PFTEMP"
    and p: "env_pte s c PFTEMP = leaf_pte p 7" "p < 2 ^ 52" "p \<notin> set xs" "lev g p = 0" and en: "enough 3 2 xs s"
  obtains s1 s' xs' g' where "sys_page_map 0 PFTEMP 0 va 7 s = Some (0, s1)" "sys_page_unmap 0 PFTEMP s1 = Some (0, s')" "kinv s' xs' es g'"
    "mm_only s s'" "lev g' p = 0" "phys s' p = phys s p"
    "\<And>e b. live s e \<Longrightarrow> b < UTOP \<Longrightarrow> env_pte s' e b =
       (if e = c \<and> path b = path va then leaf_pte p 7 else if e = c \<and> path b = path PFTEMP then 0 else env_pte s e b)"
    "\<And>e b. live s e \<Longrightarrow> b < UTOP \<Longrightarrow> env_pte s e b \<noteq> 0 \<Longrightarrow> \<not> (e = c \<and> (path b = path va \<or> path b = path PFTEMP)) \<Longrightarrow>
       lev g (tgt (env_pte s e b)) = 0 \<Longrightarrow> phys s' (tgt (env_pte s e b)) = phys s (tgt (env_pte s e b))"
proof -
  have lc: "live s c" by (rule kinvD(8) [OF k c])
  have t: "tgt (env_pte s c PFTEMP) = p" using p(1,2) by simp
  have "unat (pp_ref (pages s p)) < 65535" using enoughD(2) [OF en] by (rule add_lessD1)
  then have rf: "pp_ref (pages s p) \<noteq> - 1" by (auto simp: unsigned_minus_1_eq_mask mask_eq_exp_minus_1)
  have "\<not> length xs < 3" using enoughD(1) [OF en] by simp
  then obtain s1 xs1 g1 where s1: "sys_page_map 0 PFTEMP 0 va 7 s = Some (0, s1)" "kinv s1 xs1 es g1" "mm_only s s1" "keeps_data xs g s s1"
      "p \<notin> set xs1" "same_ghost xs g g1" "remap s s1 c va (leaf_pte p 7)"
    using sys_page_map_spec [OF k c self_name [OF c] self_name [OF c] pftemp(1) va(1), of 7] p(1) rf unfolding t by auto
  have c1: "curenv s1 = Some c" using mm_only_fields [OF s1(3)] c by simp
  have l1: "live s1 x = live s x" for x using live_mm [OF s1(3)] by simp
  have e1: "env_pte s1 c PFTEMP = leaf_pte p 7" using s1(7) lc pftemp(2) va(2) p(1) by (simp add: remap_def)
  obtain s' xs' where s': "sys_page_unmap 0 PFTEMP s1 = Some (0, s')" "mm_only s1 s'" "keeps_data xs1 g1 s1 s'" "kinv s' xs' es g1"
      "remap s1 s' c PFTEMP 0"
    using sys_page_unmap_spec [OF s1(2) c1 self_name [OF c1] pftemp(1)] e1 by auto
  have lp: "lev g1 q = lev g q" if "q \<notin> set xs" for q by (rule same_ghostD(1) [OF s1(6) that])
  have keep: "phys s' q = phys s q" if "q \<notin> set xs" "q \<notin> set xs1" "lev g q = 0" for q
    using s1(4) s'(3) lp [OF that(1)] that by (auto simp: keeps_data_def fun_eq_iff)
  show thesis
  proof (rule that [OF s1(1) s'(1,4) mm_only_trans [OF s1(3) s'(2)] _ keep [OF p(3) s1(5) p(4)]])
    show "lev g1 p = 0" using lp [OF p(3)] p(4) by simp
    show "env_pte s' e b = (if e = c \<and> path b = path va then leaf_pte p 7 else if e = c \<and> path b = path PFTEMP then 0 else env_pte s e b)"
      if "live s e" "b < UTOP" for e b
      using s1(7) s'(5) that l1 va(2) by (auto simp: remap_def)
    fix e b assume h: "live s e" "b < UTOP" "env_pte s e b \<noteq> 0" "\<not> (e = c \<and> (path b = path va \<or> path b = path PFTEMP))"
      "lev g (tgt (env_pte s e b)) = 0"
    have "env_pte s1 e b = env_pte s e b" using s1(7) h(1,2,4) by (auto simp: remap_def)
    then show "phys s' (tgt (env_pte s e b)) = phys s (tgt (env_pte s e b))"
      using keep [OF mapped_not_free [OF k h(1-3)] _ h(5)] mapped_not_free [OF s1(2) _ h(2), of e] h(1,3) l1 by simp
  qed
qed

lemma pgfault_spec:
  assumes k: "kinv s xs es g" and c: "curenv s = Some c" "cr3 s = env_cr3 (envs s c)" and a: "addr < UTOP" "path addr \<noteq> path PFTEMP"
    and err: "err AND FEC_WR \<noteq> 0"
    and pte: "env_pte s c addr AND PTE_P \<noteq> 0" "env_pte s c addr AND PTE_U \<noteq> 0" "env_pte s c addr AND PTE_COW \<noteq> 0"
    and t: "lev g (tgt (env_pte s c addr)) = 0" and en: "enough 7 4 xs s"
  shows "\<exists>s' xs' g' p. pgfault addr err s = Some s' \<and> kinv s' xs' es g' \<and> mm_only s s' \<and> p \<in> set xs \<and> lev g' p = 0 \<and>
    (\<forall>i < 512. phys s' p i = phys s (tgt (env_pte s c addr)) i) \<and>
    (\<forall>e b. live s e \<longrightarrow> b < UTOP \<longrightarrow> env_pte s' e b =
       (if e = c \<and> path b = path addr then leaf_pte p 7 else if e = c \<and> path b = path PFTEMP then 0 else env_pte s e b)) \<and>
    (\<forall>e b. live s e \<longrightarrow> b < UTOP \<longrightarrow> env_pte s e b \<noteq> 0 \<longrightarrow> \<not> (e = c \<and> (path b = path addr \<or> path b = path PFTEMP)) \<longrightarrow>
       tgt (env_pte s e b) \<noteq> p \<and> (lev g (tgt (env_pte s e b)) = 0 \<longrightarrow> phys s' (tgt (env_pte s e b)) = phys s (tgt (env_pte s e b))))"
proof -
  let ?va = "ROUNDDOWN addr PGSIZE"
  have lc: "live s c" by (rule kinvD(8) [OF k c(1)])
  note va = page_start [OF a(1)]
  have e: "env_pte s c ?va = env_pte s c addr" by (rule env_pte_path [OF va(2)])
  have v: "vpt addr s = Some (env_pte s c addr)" by (rule vpt_mapped [OF k lc c(2) a(1)]) (use pte(1) in auto)
  obtain s1 s2 xs2 g2 p where s2: "sys_page_alloc 0 PFTEMP 7 s = Some (0, s1)" "umemmove PFTEMP ?va 4096 s1 = Some s2" "kinv s2 xs2 es g2"
    "mm_only s s2" "p \<in> set xs" "p \<notin> set xs2" "lev g2 p = 0" "\<forall>i < 512. phys s2 p i = phys s (tgt (env_pte s c ?va)) i"
    "\<forall>q. q \<notin> set xs \<longrightarrow> lev g q = 0 \<longrightarrow> phys s2 q = phys s q" "same_ghost xs g g2" "remap s s2 c PFTEMP (leaf_pte p 7)" "enough 3 2 xs2 s2"
    by (rule fault_copy [OF k c va(1), of 3 2]) (use a(2) va(2) e pte t en in auto)
  have pp: "p < 2 ^ 52" using alloc_invD(5) [OF vm_invD(1) [OF kinvD(1) [OF k]] s2(5)] vm_invD(3) [OF kinvD(1) [OF k]] by simp
  have c2: "curenv s2 = Some c" using mm_only_fields [OF s2(4)] c(1) by simp
  have l2: "live s2 x = live s x" for x using live_mm [OF s2(4)] by simp
  have e2: "env_pte s2 e b = (if e = c \<and> path b = path PFTEMP then leaf_pte p 7 else env_pte s e b)" if "live s e" "b < UTOP" for e b
    using s2(11) that by (simp add: remap_def)
  have ne: "path ?va \<noteq> path PFTEMP" using a(2) va(2) by simp
  have e2p: "env_pte s2 c PFTEMP = leaf_pte p 7" using e2 [OF lc pftemp(2)] by simp
  obtain s3 s4 xs4 g4 where s4: "sys_page_map 0 PFTEMP 0 ?va 7 s2 = Some (0, s3)" "sys_page_unmap 0 PFTEMP s3 = Some (0, s4)" "kinv s4 xs4 es g4"
    "mm_only s2 s4" "lev g4 p = 0" "phys s4 p = phys s2 p"
    "\<And>e b. live s2 e \<Longrightarrow> b < UTOP \<Longrightarrow> env_pte s4 e b =
       (if e = c \<and> path b = path ?va then leaf_pte p 7 else if e = c \<and> path b = path PFTEMP then 0 else env_pte s2 e b)"
    "\<And>e b. live s2 e \<Longrightarrow> b < UTOP \<Longrightarrow> env_pte s2 e b \<noteq> 0 \<Longrightarrow> \<not> (e = c \<and> (path b = path ?va \<or> path b = path PFTEMP)) \<Longrightarrow>
       lev g2 (tgt (env_pte s2 e b)) = 0 \<Longrightarrow> phys s4 (tgt (env_pte s2 e b)) = phys s2 (tgt (env_pte s2 e b))"
    by (rule fault_move [OF s2(3) c2 va(1) ne e2p pp s2(6,7,12)]) blast
  have P: "pgfault addr err s = Some s4"
    using err v pte(3) s2(1,2) s4(1,2) by (simp add: pgfault_def Let_def PTE_P_def PTE_U_def PTE_W_def)
  have E: "env_pte s4 e b =
      (if e = c \<and> path b = path addr then leaf_pte p 7 else if e = c \<and> path b = path PFTEMP then 0 else env_pte s e b)"
    if "live s e" "b < UTOP" for e b
    using s4(7) [of e b] e2 [OF that] that l2 va(2) by auto
  have C: "\<forall>i < 512. phys s4 p i = phys s (tgt (env_pte s c addr)) i" using s2(8) s4(6) e by simp
  have "tgt (env_pte s e b) \<noteq> p \<and> (lev g (tgt (env_pte s e b)) = 0 \<longrightarrow> phys s4 (tgt (env_pte s e b)) = phys s (tgt (env_pte s e b)))"
    if h: "live s e" "b < UTOP" "env_pte s e b \<noteq> 0" "\<not> (e = c \<and> (path b = path addr \<or> path b = path PFTEMP))" for e b
  proof -
    have n: "tgt (env_pte s e b) \<notin> set xs" by (rule mapped_not_free [OF k h(1-3)])
    have "env_pte s2 e b = env_pte s e b" using e2 [OF h(1,2)] h(4) by auto
    then show ?thesis
      using s4(8) [of e b] h va(2) l2 same_ghostD(1) [OF s2(10) n] s2(5,9) n by auto
  qed
  then show ?thesis
    using P C E s2(5) s4(3,5) mm_only_trans [OF s2(4) s4(4)]
    by (intro exI [of _ s4] exI [of _ xs4] exI [of _ g4] exI [of _ p]) blast
qed

end
