(* ===== verification/Fork_Theorems.thy ===== *)
theory Fork_Theorems
  imports Sample_Fork Fork_Fault
begin

text \<open>The properties of \<open>fork\<close> and of its page fault handler.\<close>

section \<open>The parts of fork\<close>

lemma stack_present:
  assumes k: "kinv s xs es g" and c: "curenv s = Some c" "cr3 s = env_cr3 (envs s c)" and e: "may_name s envid True e" "e \<noteq> c"
    and st: "pres s c (USTACKTOP - PGSIZE)" and en: "enough (6 * pages_in s c fork_pages) (4 * pages_in s c fork_pages) xs s"
  shows "\<exists>s1 r s' xs' g'. foldM (fork_page envid) fork_range s = Some s1 \<and>
    duppage envid (ucast (PPN (USTACKTOP - PGSIZE))) s1 = Some (r, s') \<and> kinv s' xs' es g' \<and> mm_only s s' \<and> keeps_user c s g s' g' \<and>
    spends (6 * pages_in s c fork_pages) (4 * pages_in s c fork_pages) xs s xs' s' \<and> dup_done c e fork_pages s s'"
proof -
  let ?v = "USTACKTOP - PGSIZE"
  have ok: "\<forall>v \<in> set fork_pages. \<not> bad_va v \<and> v \<noteq> UXSTACKTOP - PGSIZE" using fork_page_ok by blast
  obtain s' xs' g' where s': "foldM (fork_page envid) fork_pages s = Some s'" "kinv s' xs' es g'" "mm_only s s'" "keeps_user c s g s' g'"
      "spends (6 * pages_in s c fork_pages) (4 * pages_in s c fork_pages) xs s xs' s'" "dup_done c e fork_pages s s'"
    using fork_loop_spec [OF k c e ok fork_pages_distinct en] by blast
  then obtain s1 where s1: "foldM (fork_page envid) fork_range s = Some s1" "fork_page envid ?v s1 = Some s'"
    by (auto simp: fork_pages_def foldM_append split: option.splits)
  have "\<forall>v \<in> set fork_range. \<not> bad_va v \<and> v \<noteq> UXSTACKTOP - PGSIZE" "distinct (map path fork_range)" "path ?v \<notin> path ` set fork_range"
    using ok fork_pages_distinct by (auto simp: fork_pages_def)
  moreover have "enough (6 * pages_in s c fork_range) (4 * pages_in s c fork_range) xs s"
    using en by (rule enough_mono) (simp_all add: fork_pages_def pages_in_def)
  ultimately obtain xs1 g1 where k1: "kinv s1 xs1 es g1" "mm_only s s1" "dup_done c e fork_range s s1"
    using fork_loop_spec [OF k c e] s1(1) by fastforce
  have v: "?v < UTOP" "?v \<noteq> UXSTACKTOP - PGSIZE" using fork_page_ok(2,3) by (simp_all add: fork_pages_def)
  have lc: "live s c" by (rule kinvD(8) [OF k c(1)])
  have "env_pte s1 c ?v = env_pte s c ?v"
    using k1(3) lc v(1) \<open>path ?v \<notin> path ` set fork_range\<close> by (simp add: dup_done_def)
  then have nz: "env_pte s1 c ?v AND PTE_P \<noteq> 0" using st by (simp add: pres_def)
  then have "vpt ?v s1 = Some (env_pte s1 c ?v)"
    using mm_only_fields [OF k1(2)] c live_mm [OF k1(2)] lc v(1) by (intro vpt_mapped [OF k1(1)]) auto
  then obtain r where "duppage envid (ucast (PPN ?v)) s1 = Some (r, s')"
    using s1(2) v(2) nz by (auto simp: fork_page_def split: Option.bind_splits)
  then show ?thesis using s1(1) s' by blast
qed

lemma finish_child:
  assumes k: "kinv s xs es g" and c: "curenv s = Some c" and e: "may_name s cid True e" "e \<noteq> c"
  defines "s' \<equiv> upd_env e (\<lambda>v. v\<lparr>env_status := ENV_RUNNABLE\<rparr>) (upd_env e (\<lambda>v. v\<lparr>env_pgfault_upcall := env_pgfault_upcall (envs s c)\<rparr>) s)"
  shows "(do { c \<leftarrow> curenv s; (r, s) \<leftarrow> sys_env_set_pgfault_upcall cid (env_pgfault_upcall (envs s c)) s;
      (r, s) \<leftarrow> sys_env_set_status cid 2 s; if r < 0 then None else Some (i, s) }) = Some (i, s')"
    and "kinv s' xs es g" and "env_pte s' x a = env_pte s x a" and "phys s' = phys s"
proof -
  let ?s = "upd_env e (\<lambda>v. v\<lparr>env_pgfault_upcall := env_pgfault_upcall (envs s c)\<rparr>) s"
  have le: "live s e" by (rule may_name_live [OF k e(1)])
  have m: "may_name ?s cid True e" using e(1) by (auto simp: may_name_def live_def split: if_splits)
  show "(do { c \<leftarrow> curenv s; (r, s) \<leftarrow> sys_env_set_pgfault_upcall cid (env_pgfault_upcall (envs s c)) s;
      (r, s) \<leftarrow> sys_env_set_status cid 2 s; if r < 0 then None else Some (i, s) }) = Some (i, s')"
    using c envid2env_named [OF c e(1)] envid2env_named [OF _ m, of c]
    by (simp add: sys_env_set_pgfault_upcall_def sys_env_set_status_def s'_def)
  have "kinv ?s xs es g" by (rule kinv_upd_env [OF k]) simp_all
  then show "kinv s' xs es g"
    unfolding s'_def by (rule kinv_upd_env) (use le in \<open>simp_all add: live_def\<close>)
  show "env_pte s' x a = env_pte s x a" unfolding s'_def by (simp add: env_pte_upd_env)
  show "phys s' = phys s" by (simp add: s'_def)
qed

lemma ux_page: "\<not> bad_va (UXSTACKTOP - PGSIZE)" "UXSTACKTOP - PGSIZE < UTOP" "path (UXSTACKTOP - PGSIZE) \<notin> path ` set fork_pages"
proof -
  have u: "unat (UXSTACKTOP - PGSIZE) = 0xEF7FF000" by (simp add: jos_consts)
  show t: "UXSTACKTOP - PGSIZE < UTOP" by (simp add: jos_consts)
  show "\<not> bad_va (UXSTACKTOP - PGSIZE)" by (simp add: bad_va_def ROUNDUP_def ROUNDDOWN_def jos_consts)
  show "path (UXSTACKTOP - PGSIZE) \<notin> path ` set fork_pages"
  proof
    assume "path (UXSTACKTOP - PGSIZE) \<in> path ` set fork_pages"
    then obtain v where v: "v \<in> set fork_pages" "path (UXSTACKTOP - PGSIZE) = path v" by blast
    then obtain j where j: "j < 0xEEFFE" "v = UTEXT + of_nat j * PGSIZE" unfolding fork_pages_eq by auto
    have "unat (UXSTACKTOP - PGSIZE) div 4096 = unat v div 4096" using path_number [OF t fork_page_ok(3) [OF v(1)]] v(2) by blast
    then show False using u j fork_page_unat [OF j(1)] by simp
  qed
qed

text \<open>The mappings \<open>fork\<close> leaves: \<open>q\<close> is the child's exception stack.\<close>

definition forked :: "nat \<Rightarrow> nat \<Rightarrow> nat \<Rightarrow> kstate \<Rightarrow> kstate \<Rightarrow> bool" where
  "forked c e q s s' \<longleftrightarrow> (\<forall>a < UTOP.
     (if path a \<in> path ` set fork_pages \<and> pres s c a
      then env_pte s' e a = child_pte (env_pte s c a) \<and> env_pte s' c a = parent_pte (env_pte s c a)
      else env_pte s' e a = (if path a = path (UXSTACKTOP - PGSIZE) then leaf_pte q 7 else 0) \<and> env_pte s' c a = env_pte s c a) \<and>
     (\<forall>e'. live s e' \<longrightarrow> e' \<noteq> c \<longrightarrow> env_pte s' e' a = env_pte s e' a))"

lemma fork_start:
  assumes k: "kinv s (p # p2 # p3 # ps) (e # es) g" and c: "curenv s = Some c" "cr3 s = env_cr3 (envs s c)"
    and en: "enough (7 + n) (3 + m) (p # p2 # p3 # ps) s"
  shows "\<exists>s1 s2 xs2 g2 q. sys_exofork s = Some (sint (env_id (envs s1 e)), s1) \<and>
    sys_page_alloc (env_id (envs s1 e)) (UXSTACKTOP - PGSIZE) 7 s1 = Some (0, s2) \<and> kinv s2 xs2 es g2 \<and> \<not> live s e \<and>
    envs s2 = envs s1 \<and> may_name s2 (env_id (envs s1 e)) True e \<and> 0 < sint (env_id (envs s1 e)) \<and>
    env_parent_id (envs s1 e) = env_id (envs s c) \<and>
    env_tf (envs s1 e) = (env_tf (envs s c))\<lparr>tf_regs := (tf_regs (env_tf (envs s c)))\<lparr>reg_rax := 0\<rparr>\<rparr> \<and>
    (\<forall>x. x \<noteq> e \<longrightarrow> envs s1 x = envs s x) \<and> curenv s2 = Some c \<and> cr3 s2 = cr3 s \<and> q \<in> set (p # p2 # p3 # ps) \<and>
    (\<forall>a < UTOP. env_pte s2 e a = (if path a = path (UXSTACKTOP - PGSIZE) then leaf_pte q 7 else 0)) \<and> same_maps s s2 \<and>
    keeps_user c s g s2 g2 \<and> enough n m xs2 s2"
proof -
  let ?ux = "UXSTACKTOP - PGSIZE"
  have lc: "live s c" by (rule kinvD(8) [OF k c(1)])
  obtain s1 g1 where s1: "sys_exofork s = Some (sint (env_id (envs s1 e)), s1)" "kinv s1 ps es g1" "\<not> live s e" "live s1 e"
      "ENVX (env_id (envs s1 e)) = e" "0 < sint (env_id (envs s1 e))" "env_parent_id (envs s1 e) = env_id (envs s c)"
      "env_tf (envs s1 e) = (env_tf (envs s c))\<lparr>tf_regs := (tf_regs (env_tf (envs s c)))\<lparr>reg_rax := 0\<rparr>\<rparr>"
      "\<forall>a < UTOP. env_pte s1 e a = 0" "same_maps s s1" "\<forall>x. x \<noteq> e \<longrightarrow> envs s1 x = envs s x" "curenv s1 = curenv s" "cr3 s1 = cr3 s"
      "keeps_data (p # p2 # p3 # ps) g s s1" "same_ghost (p # p2 # p3 # ps) g g1" "spends 3 1 (p # p2 # p3 # ps) s ps s1"
    using sys_exofork_spec [OF k c(1)] by blast
  have ec: "e \<noteq> c" using s1(3) lc by auto
  have m1: "may_name s1 (env_id (envs s1 e)) True e" using s1(4-7,11,12) c(1) ec by (auto simp: may_name_def)
  have en1: "enough (4 + n) (2 + m) ps s1" by (rule enough_spends [OF _ s1(16)], rule enough_mono [OF en]) simp_all
  have perm: "\<not> bad_perm 7" by (simp add: bad_perm_def jos_consts)
  have "\<not> length ps < 4" using enoughD(1) [OF en1] by simp
  then obtain s2 xs2 g2 q where s2: "sys_page_alloc (env_id (envs s1 e)) ?ux 7 s1 = Some (0, s2)" "kinv s2 xs2 es g2" "mm_only s1 s2"
      "keeps_data ps g1 s1 s2" "q \<in> set ps" "same_ghost ps g1 g2" "spends 4 2 ps s1 xs2 s2" "remap s1 s2 e ?ux (leaf_pte q 7)"
    using sys_page_alloc_spec [OF s1(2) _ m1 ux_page(1) perm] s1(12) c(1) by fastforce
  have lv: "live s1 x \<and> x \<noteq> e" if "live s x" for x using that s1(3,11) by (auto simp: live_def)
  have sm: "same_maps s s2" using s1(10) s2(8) lv by (auto simp: remap_def same_maps_def)
  have "keeps_user c s g s2 g2"
    using keeps_user_trans [OF keeps_userI [OF k lc s1(14,15)] keeps_userI [OF s1(2) _ s2(4,6)]] lv [OF lc] s1(10) lc
    by (auto simp: same_maps_def)
  moreover have "enough n m xs2 s2" by (rule enough_spends [OF _ s2(7)], rule enough_mono [OF en1]) simp_all
  moreover have "\<forall>a < UTOP. env_pte s2 e a = (if path a = path ?ux then leaf_pte q 7 else 0)"
    using s2(8) s1(4,9) by (simp add: remap_def)
  ultimately show ?thesis
    using s1(1,3,6-8,11-13) s2(1,2,5) sm m1 may_name_mm [OF s2(3)] mm_only_fields [OF s2(3)] c(1) by fastforce
qed

lemma forkedI:
  assumes d: "dup_done c e fork_pages s2 s4" and m: "same_maps s s2" and lc: "live s c" and e: "\<not> live s e"
    and l: "\<forall>x. live s x \<or> x = e \<longrightarrow> live s2 x" and s': "\<And>x a. env_pte s' x a = env_pte s4 x a"
    and z: "\<forall>a < UTOP. env_pte s2 e a = (if path a = path (UXSTACKTOP - PGSIZE) then leaf_pte q 7 else 0)"
  shows "forked c e q s s'"
  unfolding forked_def
proof (intro allI impI)
  fix a assume a: "a < UTOP"
  have ec: "e \<noteq> c" using e lc by auto
  have same: "env_pte s2 x a = env_pte s x a" if "live s x" for x using m that a by (simp add: same_maps_def)
  have p: "pres s2 c a = pres s c a" by (simp add: pres_def same [OF lc])
  have o: "env_pte s' x a = env_pte s x a" if "live s x" "x \<noteq> c" for x
    using d l a that e same [OF that(1)] s' by (auto simp: dup_done_def)
  have "env_pte s' e a = (if path a \<in> path ` set fork_pages \<and> pres s c a then child_pte (env_pte s c a) else env_pte s2 e a)"
    using d l a same [OF lc] s' p ec by (auto simp: dup_done_def)
  moreover have "env_pte s' c a = (if path a \<in> path ` set fork_pages \<and> pres s c a then parent_pte (env_pte s c a) else env_pte s c a)"
    using d l lc a same [OF lc] s' p ec by (auto simp: dup_done_def)
  ultimately show "(if path a \<in> path ` set fork_pages \<and> pres s c a
      then env_pte s' e a = child_pte (env_pte s c a) \<and> env_pte s' c a = parent_pte (env_pte s c a)
      else env_pte s' e a = (if path a = path (UXSTACKTOP - PGSIZE) then leaf_pte q 7 else 0) \<and> env_pte s' c a = env_pte s c a) \<and>
     (\<forall>e'. live s e' \<longrightarrow> e' \<noteq> c \<longrightarrow> env_pte s' e' a = env_pte s e' a)"
    using z a o by (simp only: split: if_split) blast
qed

lemma fork_spec:
  assumes k: "kinv s (p # p2 # p3 # ps) (e # es) g" and c: "curenv s = Some c" "cr3 s = env_cr3 (envs s c)"
    and st: "pres s c (USTACKTOP - PGSIZE)"
    and en: "enough (7 + (6 * pages_in s c fork_pages + n)) (3 + (4 * pages_in s c fork_pages + m)) (p # p2 # p3 # ps) s"
  shows "\<exists>s' xs' g' q. fork upcall True s = Some (sint (env_id (envs s' e)), s') \<and> kinv s' xs' es g' \<and> \<not> live s e \<and> live s' e \<and>
    0 < sint (env_id (envs s' e)) \<and> env_parent_id (envs s' e) = env_id (envs s c) \<and> env_status (envs s' e) = ENV_RUNNABLE \<and>
    env_tf (envs s' e) = (env_tf (envs s c))\<lparr>tf_regs := (tf_regs (env_tf (envs s c)))\<lparr>reg_rax := 0\<rparr>\<rparr> \<and>
    env_pgfault_upcall (envs s' e) = env_pgfault_upcall (envs s c) \<and> (\<forall>x. x \<noteq> e \<longrightarrow> envs s' x = envs s x) \<and>
    q \<in> set (p # p2 # p3 # ps) \<and> keeps_user c s g s' g' \<and> forked c e q s s' \<and> enough n m xs' s'"
proof -
  let ?N = "pages_in s c fork_pages"
  have lc: "live s c" by (rule kinvD(8) [OF k c(1)])
  obtain s1 s2 xs2 g2 q where i: "sys_exofork s = Some (sint (env_id (envs s1 e)), s1)"
      "sys_page_alloc (env_id (envs s1 e)) (UXSTACKTOP - PGSIZE) 7 s1 = Some (0, s2)" "kinv s2 xs2 es g2" "\<not> live s e"
      "envs s2 = envs s1" "may_name s2 (env_id (envs s1 e)) True e" "0 < sint (env_id (envs s1 e))"
      "env_parent_id (envs s1 e) = env_id (envs s c)"
      "env_tf (envs s1 e) = (env_tf (envs s c))\<lparr>tf_regs := (tf_regs (env_tf (envs s c)))\<lparr>reg_rax := 0\<rparr>\<rparr>"
      "\<forall>x. x \<noteq> e \<longrightarrow> envs s1 x = envs s x" "curenv s2 = Some c" "cr3 s2 = cr3 s" "q \<in> set (p # p2 # p3 # ps)"
      "\<forall>a < UTOP. env_pte s2 e a = (if path a = path (UXSTACKTOP - PGSIZE) then leaf_pte q 7 else 0)" "same_maps s s2"
      "keeps_user c s g s2 g2" "enough (6 * ?N + n) (4 * ?N + m) xs2 s2"
    using fork_start [OF k c en] by blast
  define cid where "cid = env_id (envs s1 e)"
  have ec: "e \<noteq> c" using i(4) lc by auto
  have same: "env_pte s2 c a = env_pte s c a" if "a < UTOP" for a using i(15) lc that by (simp add: same_maps_def)
  have N: "pages_in s2 c fork_pages = ?N"
    using same fork_page_ok(3) by (auto simp: pages_in_def pres_def intro!: arg_cong [where f = length] filter_cong)
  have en2: "enough (6 * ?N) (4 * ?N) xs2 s2" by (rule enough_mono [OF i(17)]) simp_all
  have "pres s2 c (USTACKTOP - PGSIZE)" using st same fork_page_ok(3) by (simp add: pres_def fork_pages_def)
  then obtain s3 r s4 xs4 g4 where s4: "foldM (fork_page cid) fork_range s2 = Some s3"
      "duppage cid (ucast (PPN (USTACKTOP - PGSIZE))) s3 = Some (r, s4)" "kinv s4 xs4 es g4" "mm_only s2 s4" "keeps_user c s2 g2 s4 g4"
      "dup_done c e fork_pages s2 s4" "spends (6 * ?N) (4 * ?N) xs2 s2 xs4 s4"
    using stack_present [OF i(3,11) _ i(6) ec, unfolded N, OF _ _ en2, folded cid_def] c(2) i(5,10,12) ec by fastforce
  have c4: "curenv s4 = Some c" "envs s4 = envs s1" using mm_only_fields [OF s4(4)] i(5,11) by auto
  have m4: "may_name s4 cid True e" using may_name_mm [OF s4(4)] i(6) by (simp add: cid_def)
  define s' where "s' = upd_env e (\<lambda>v. v\<lparr>env_status := ENV_RUNNABLE\<rparr>) (upd_env e (\<lambda>v. v\<lparr>env_pgfault_upcall := env_pgfault_upcall (envs s4 c)\<rparr>) s4)"
  note f = finish_child [OF s4(3) c4(1) m4 ec, folded s'_def]
  have w: "word_of_int (sint cid) = cid" "sint cid > 0" using i(7) by (simp_all add: cid_def)
  have F: "fork upcall True s = Some (sint cid, s')"
    unfolding fork_def set_pgfault_handler_def Let_def
    using i(1,2) w s4(1,2) f(1) by (simp add: cid_def [symmetric] PTE_P_def PTE_U_def PTE_W_def)
  have l2: "\<forall>x. live s x \<or> x = e \<longrightarrow> live s2 x"
    using may_name_live [OF i(3,6)] i(4,5,10) by (auto simp: live_def)
  have l': "live s' e" using may_name_live [OF s4(3) m4] by (auto simp: s'_def live_def)
  have fk: "forked c e q s s'" by (rule forkedI [OF s4(6) i(15) lc i(4) l2 f(3) i(14)])
  have "keeps_user c s g s4 g4" by (rule keeps_user_trans [OF i(16) s4(5)]) (simp add: same)
  then have ku: "keeps_user c s g s' g4" by (simp add: keeps_user_def f(4))
  have v: "envs s' x = (if x = e then (envs s1 e)\<lparr>env_pgfault_upcall := env_pgfault_upcall (envs s c), env_status := ENV_RUNNABLE\<rparr> else envs s x)" for x
    using i(10) ec by (simp add: s'_def c4)
  have "enough n m xs4 s4" using i(17) by (rule enough_spends) (rule s4(7))
  then have en': "enough n m xs4 s'" by (simp add: enough_def s'_def)
  show ?thesis
    using F f(2) i(4,7-9,13) l' fk ku en' by (intro exI [of _ s'] exI [of _ xs4] exI [of _ g4] exI [of _ q]) (simp add: v cid_def)
qed

section \<open>What the copied entries say\<close>

lemma child_pte_and:
  assumes "take_bit 12 m = m"
  shows "child_pte pte AND m =
    ((if shared pte then pte AND PTE_USER else if copied pte then PTE_P OR PTE_U OR PTE_COW else pte AND 0xFFF) OR PTE_P) AND m"
proof -
  have "take_bit 12 (pte AND PTE_USER) = pte AND PTE_USER" "take_bit 12 (pte AND 0xFFF) = pte AND 0xFFF"
    "take_bit 12 (PTE_P OR PTE_U OR PTE_COW) = PTE_P OR PTE_U OR PTE_COW"
    by (intro low_and, simp add: PTE_USER_def jos_consts)+ (simp add: jos_consts PTE_COW_def)
  then show ?thesis using assms by (auto simp: child_pte_def cow_perm_def leaf_and)
qed

lemma child_pte_flags:
  shows "child_pte pte AND PTE_P \<noteq> 0"
    and "\<not> shared pte \<Longrightarrow> child_pte pte AND PTE_W = 0" and "copied pte \<Longrightarrow> child_pte pte AND PTE_COW \<noteq> 0"
    and "shared pte \<Longrightarrow> pte AND PTE_P \<noteq> 0 \<Longrightarrow> child_pte pte AND PTE_USER = pte AND PTE_USER"
proof -
  have t: "take_bit 12 PTE_P = PTE_P" "take_bit 12 PTE_W = PTE_W" "take_bit 12 PTE_COW = PTE_COW" "take_bit 12 PTE_USER = PTE_USER"
    by (simp_all add: jos_consts PTE_USER_def PTE_COW_def)
  show "child_pte pte AND PTE_P \<noteq> 0" by (simp add: child_pte_and t bit.conj_disj_distrib2 PTE_P_def)
  show "child_pte pte AND PTE_W = 0" if "\<not> shared pte"
    using that by (auto simp: child_pte_and t copied_def jos_consts PTE_COW_def bit.conj_disj_distrib2 and.assoc)
  show "child_pte pte AND PTE_COW \<noteq> 0" if "copied pte"
    using that by (auto simp: child_pte_and t copied_def jos_consts PTE_COW_def bit.conj_disj_distrib2)
  show "child_pte pte AND PTE_USER = pte AND PTE_USER" if "shared pte" "pte AND PTE_P \<noteq> 0"
  proof -
    have "PTE_P = pte AND PTE_P" using that(2) by (simp add: PTE_P_def and_one_eq odd_iff_mod_2_eq_one)
    then have "(pte AND PTE_USER) OR PTE_P = pte AND (PTE_USER OR PTE_P)" by (metis bit.conj_disj_distrib)
    then show ?thesis using that(1) by (simp add: child_pte_and t and.assoc)
  qed
qed

lemma parent_pte_flags:
  shows "pte AND PTE_P \<noteq> 0 \<Longrightarrow> parent_pte pte AND PTE_P \<noteq> 0"
    and "\<not> shared pte \<Longrightarrow> parent_pte pte AND PTE_W = 0" and "copied pte \<Longrightarrow> parent_pte pte AND PTE_COW \<noteq> 0"
    and "\<not> copied pte \<Longrightarrow> parent_pte pte = pte"
proof -
  have p: "parent_pte pte = (if copied pte then child_pte pte else pte)" by (simp add: parent_pte_def child_pte_def copied_def)
  show "pte AND PTE_P \<noteq> 0 \<Longrightarrow> parent_pte pte AND PTE_P \<noteq> 0" using child_pte_flags(1) by (simp add: p)
  show "\<not> shared pte \<Longrightarrow> parent_pte pte AND PTE_W = 0" using child_pte_flags(2) by (simp add: p) (simp add: copied_def)
  show "copied pte \<Longrightarrow> parent_pte pte AND PTE_COW \<noteq> 0" "\<not> copied pte \<Longrightarrow> parent_pte pte = pte"
    using child_pte_flags(3) by (simp_all add: p)
qed

text \<open>
  What parent and child may find at an address the parent had mapped with entry \<open>pte\<close>: the same
  page; a \<open>PTE_SHARE\<close> page with its permissions; any other without write permission, and
  copy-on-write if the parent could write it (or write a copy of it) before.
\<close>

definition dup_ok :: "u64 \<Rightarrow> u64 \<Rightarrow> u64 \<Rightarrow> bool" where
  "dup_ok pte par chd \<longleftrightarrow> par AND PTE_P \<noteq> 0 \<and> chd AND PTE_P \<noteq> 0 \<and> tgt par = tgt pte \<and> tgt chd = tgt pte \<and>
     (if shared pte then par = pte \<and> chd AND PTE_USER = pte AND PTE_USER
      else par AND PTE_W = 0 \<and> chd AND PTE_W = 0 \<and>
        (pte AND PTE_W \<noteq> 0 \<or> pte AND PTE_COW \<noteq> 0 \<longrightarrow> par AND PTE_COW \<noteq> 0 \<and> chd AND PTE_COW \<noteq> 0))"

lemma dup_ok_entries: "pte AND PTE_P \<noteq> 0 \<Longrightarrow> dup_ok pte (parent_pte pte) (child_pte pte)"
  unfolding dup_ok_def using child_pte_flags [of pte] parent_pte_flags [of pte] by (auto simp: copied_def)

section \<open>fork\<close>



section \<open>The page fault handler\<close>



text \<open>Any other fault is a panic.\<close>

lemma pgfault_panics: "err AND FEC_WR = 0 \<or> vpt addr s = Some pte \<and> pte AND PTE_COW = 0 \<Longrightarrow> pgfault addr err s = None"
  by (auto simp: pgfault_def)

section \<open>fork and the fault handler together\<close>

lemma kinv_lcr3:
  assumes "kinv s xs es g"
  shows "kinv (lcr3 v s) xs es g" and "env_pte (lcr3 v s) x a = env_pte s x a"
proof -
  let ?s = "lcr3 v s"
  have f: "envs ?s = envs s" "env_free_list ?s = env_free_list s" "curenv ?s = curenv s" "live ?s = live s"
    by (simp_all add: lcr3_def curenv_def live_def fun_eq_iff)
  have w: "vm_inv ?s xs g = vm_inv s xs g" "addr_ok ?s g r a = addr_ok s g r a" "pte_at ?s r a = pte_at s r a" for r a
    using vm_inv_cong [of ?s s] by (simp_all add: lcr3_def)
  have "kern_ok ?s xs g = kern_ok s xs g" using kern_ok_cong [of ?s s] by (simp add: lcr3_def)
  then show "kinv ?s xs es g" using assms unfolding kinv_def env_chain_def space_ok_def f w by auto
  show "env_pte ?s x a = env_pte s x a" by (simp add: env_pte_def f w split: option.split)
qed

lemma copied_child:
  assumes "pte AND PTE_P \<noteq> 0" and "\<not> shared pte" and "pte AND PTE_W \<noteq> 0 \<or> pte AND PTE_COW \<noteq> 0"
  shows "child_pte pte AND PTE_U \<noteq> 0" and "child_pte pte AND PTE_COW \<noteq> 0"
proof -
  have c: "copied pte" using assms(2,3) by (simp add: copied_def)
  then show "child_pte pte AND PTE_COW \<noteq> 0" by (rule child_pte_flags(3))
  have "take_bit 12 PTE_U = PTE_U" by (simp add: jos_consts)
  then show "child_pte pte AND PTE_U \<noteq> 0" using assms(2) c by (simp add: child_pte_and) (simp add: jos_consts)
qed

lemma not_pftemp: "UTEXT \<le> a \<Longrightarrow> a < UTOP \<Longrightarrow> path a \<noteq> path PFTEMP"
  using path_number [of a PFTEMP] pftemp(2) by (auto simp: word_le_nat_alt jos_consts)




end
