(* ===== verification/Pipe.thy ===== *)
theory Pipe
  imports Fd_Lib "HOL-Library.Sublist"
begin

text \<open>
  Pipes (lib/pipe.c). Reading and writing are modelled as programs that take one step per access to
  the shared page, so that a reader and a writer on different CPUs interleave in every way; the
  positions are signed 32-bit integers as in the code.
\<close>

section \<open>The shared page\<close>

definition PIPEBUFSIZ :: nat where [jos_consts]: "PIPEBUFSIZ = 32"

record Pipe =
  p_rpos :: int
  p_wpos :: int
  p_buf :: "u8 list"

definition zero_pipe :: Pipe where
  "zero_pipe = \<lparr>p_rpos = 0, p_wpos = 0, p_buf = replicate PIPEBUFSIZ 0\<rparr>"

text \<open>The index of a position, \<open>None\<close> when the remainder is negative and the access out of bounds.\<close>

definition slot_of :: "int \<Rightarrow> nat option" where
  "slot_of pos = (let k = pos smod int PIPEBUFSIZ in if k < 0 then None else Some (nat k))"

definition pipe_empty :: "Pipe \<Rightarrow> bool" where
  "pipe_empty p \<longleftrightarrow> p_rpos p = p_wpos p"

text \<open>\<open>sizeof\<close> makes the comparison one of unsigned 64-bit integers.\<close>

definition pipe_full :: "Pipe \<Rightarrow> bool" where
  "pipe_full p \<longleftrightarrow> u64i (u64i (p_rpos p) + int PIPEBUFSIZ) \<le> u64i (p_wpos p)"

section \<open>A reader and a writer\<close>

text \<open>
  Inside \<open>_pipeisclosed\<close>: before \<open>env_runs\<close> is read, before each \<open>pageref\<close>, and before
  \<open>env_runs\<close> is read again.
\<close>

datatype chk = C_start | C_fd u32 | C_page u32 nat | C_end u32 bool

fun pipeisclosed_step :: "u32 \<Rightarrow> nat \<Rightarrow> nat \<Rightarrow> chk \<Rightarrow> bool + chk" where
  "pipeisclosed_step rs fr pr C_start = Inr (C_fd rs)"
| "pipeisclosed_step rs fr pr (C_fd n) = Inr (C_page n fr)"
| "pipeisclosed_step rs fr pr (C_page n r) = Inr (C_end n (r = pr))"
| "pipeisclosed_step rs fr pr (C_end n ret) = (if n = rs then Inl ret else Inr C_start)"

text \<open>
  Where a process is: outside, at the head of the loop over the bytes, at the test for an empty
  (full) pipe, asking whether the other end is closed, before the transfer of the byte, before the
  increment of the position, returned, between the two unmappings of \<open>devpipe_close\<close>, closed.
\<close>

datatype ppc = P_idle | P_for nat | P_while nat | P_closed nat chk | P_byte nat | P_inc nat | P_ret int | P_closing | P_gone

record end_point =
  pc :: ppc
  runs :: u32
  fd_mapped :: bool
  data_mapped :: bool

text \<open>\<open>accepted\<close> and \<open>delivered\<close> record every byte whose position has been passed.\<close>

record psys =
  pip :: Pipe
  rdr :: end_point
  rd_n :: nat
  rd_buf :: "u8 list"
  wtr :: end_point
  wr_buf :: "u8 list"
  accepted :: "u8 list"
  delivered :: "u8 list"

text \<open>Each end has its own Fd page; the page of the pipe is mapped at both ends.\<close>

definition pipe_ref :: "psys \<Rightarrow> nat" where
  "pipe_ref s = of_bool (data_mapped (rdr s)) + of_bool (data_mapped (wtr s))"

definition fd_page_ref :: "end_point \<Rightarrow> nat" where
  "fd_page_ref e = of_bool (fd_mapped e)"

definition set_rpc :: "ppc \<Rightarrow> psys \<Rightarrow> psys" where
  "set_rpc p s = s\<lparr>rdr := (rdr s)\<lparr>pc := p\<rparr>\<rparr>"

definition set_wpc :: "ppc \<Rightarrow> psys \<Rightarrow> psys" where
  "set_wpc p s = s\<lparr>wtr := (wtr s)\<lparr>pc := p\<rparr>\<rparr>"

definition devpipe_read_step :: "psys \<Rightarrow> psys option" where
  "devpipe_read_step s =
     (case pc (rdr s) of
        P_for i \<Rightarrow> Some (set_rpc (if i < rd_n s then P_while i else P_ret (int i)) s)
      | P_while i \<Rightarrow>
          Some (set_rpc (if \<not> pipe_empty (pip s) then P_byte i else if 0 < i then P_ret (int i) else P_closed i C_start) s)
      | P_closed i c \<Rightarrow>
          (case pipeisclosed_step (runs (rdr s)) (fd_page_ref (rdr s)) (pipe_ref s) c of
             Inl True \<Rightarrow> Some (set_rpc (P_ret 0) s)
           | Inl False \<Rightarrow> Some (set_rpc (P_while i) s)
           | Inr c \<Rightarrow> Some (set_rpc (P_closed i c) s))
      | P_byte i \<Rightarrow> do {
          k \<leftarrow> slot_of (p_rpos (pip s));
          Some (set_rpc (P_inc i) (s\<lparr>rd_buf := rd_buf s @ [p_buf (pip s) ! k]\<rparr>)) }
      | P_inc i \<Rightarrow>
          Some (set_rpc (P_for (Suc i)) (s\<lparr>pip := (pip s)\<lparr>p_rpos := i32 (p_rpos (pip s) + 1)\<rparr>,
            delivered := delivered s @ [last (rd_buf s)]\<rparr>))
      | _ \<Rightarrow> None)"

definition devpipe_write_step :: "psys \<Rightarrow> psys option" where
  "devpipe_write_step s =
     (case pc (wtr s) of
        P_for i \<Rightarrow> Some (set_wpc (if i < length (wr_buf s) then P_while i else P_ret (int i)) s)
      | P_while i \<Rightarrow> Some (set_wpc (if pipe_full (pip s) then P_closed i C_start else P_byte i) s)
      | P_closed i c \<Rightarrow>
          (case pipeisclosed_step (runs (wtr s)) (fd_page_ref (wtr s)) (pipe_ref s) c of
             Inl True \<Rightarrow> Some (set_wpc (P_ret 0) s)
           | Inl False \<Rightarrow> Some (set_wpc (P_while i) s)
           | Inr c \<Rightarrow> Some (set_wpc (P_closed i c) s))
      | P_byte i \<Rightarrow> do {
          k \<leftarrow> slot_of (p_wpos (pip s));
          Some (set_wpc (P_inc i) (s\<lparr>pip := (pip s)\<lparr>p_buf := (p_buf (pip s))[k := wr_buf s ! i]\<rparr>\<rparr>)) }
      | P_inc i \<Rightarrow>
          Some (set_wpc (P_for (Suc i)) (s\<lparr>pip := (pip s)\<lparr>p_wpos := i32 (p_wpos (pip s) + 1)\<rparr>,
            accepted := accepted s @ [wr_buf s ! i]\<rparr>))
      | _ \<Rightarrow> None)"

text \<open>\<open>devpipe_close\<close>: the Fd page goes first, then the page of the pipe.\<close>

definition devpipe_close_step :: "end_point \<Rightarrow> end_point option" where
  "devpipe_close_step e =
     (case pc e of
        P_idle \<Rightarrow> Some (e\<lparr>pc := P_closing, fd_mapped := False\<rparr>)
      | P_ret _ \<Rightarrow> Some (e\<lparr>pc := P_closing, fd_mapped := False\<rparr>)
      | P_closing \<Rightarrow> Some (e\<lparr>pc := P_gone, data_mapped := False\<rparr>)
      | _ \<Rightarrow> None)"

definition can_call :: "end_point \<Rightarrow> bool" where
  "can_call e = (case pc e of P_idle \<Rightarrow> True | P_ret _ \<Rightarrow> True | _ \<Rightarrow> False)"

datatype act = Read_step | Write_step | Call_read nat | Call_write "u8 list" | Close_read | Close_write | Resume_read | Resume_write

fun pipe_act :: "act \<Rightarrow> psys \<Rightarrow> psys option" where
  "pipe_act Read_step s = devpipe_read_step s"
| "pipe_act Write_step s = devpipe_write_step s"
| "pipe_act (Call_read n) s = (if can_call (rdr s) then Some (set_rpc (P_for 0) (s\<lparr>rd_n := n, rd_buf := []\<rparr>)) else None)"
| "pipe_act (Call_write bs) s = (if can_call (wtr s) then Some (set_wpc (P_for 0) (s\<lparr>wr_buf := bs\<rparr>)) else None)"
| "pipe_act Close_read s = do { e \<leftarrow> devpipe_close_step (rdr s); Some (s\<lparr>rdr := e\<rparr>) }"
| "pipe_act Close_write s = do { e \<leftarrow> devpipe_close_step (wtr s); Some (s\<lparr>wtr := e\<rparr>) }"
| "pipe_act Resume_read s = Some (s\<lparr>rdr := (rdr s)\<lparr>runs := runs (rdr s) + 1\<rparr>\<rparr>)"
| "pipe_act Resume_write s = Some (s\<lparr>wtr := (wtr s)\<lparr>runs := runs (wtr s) + 1\<rparr>\<rparr>)"

definition fresh_end :: end_point where
  "fresh_end = \<lparr>pc = P_idle, runs = 0, fd_mapped = True, data_mapped = True\<rparr>"

definition new_pipe :: psys where
  "new_pipe = \<lparr>pip = zero_pipe, rdr = fresh_end, rd_n = 0, rd_buf = [], wtr = fresh_end, wr_buf = [], accepted = [], delivered = []\<rparr>"

inductive pipe_reach :: "psys \<Rightarrow> bool" where
  init: "pipe_reach new_pipe"
| step: "pipe_reach s \<Longrightarrow> pipe_act a s = Some s' \<Longrightarrow> pipe_reach s'"

primrec pipe_run :: "act list \<Rightarrow> psys \<Rightarrow> psys option" where
  "pipe_run [] s = Some s"
| "pipe_run (a # as) s = do { s \<leftarrow> pipe_act a s; pipe_run as s }"

lemma pipe_run_reach: "pipe_reach s \<Longrightarrow> pipe_run as s = Some s' \<Longrightarrow> pipe_reach s'"
  by (induction "as" arbitrary: s) (auto simp: bind_eq_Some_conv intro: step)

section \<open>The invariant\<close>

abbreviation nd :: "psys \<Rightarrow> nat" where "nd s \<equiv> length (delivered s)"
abbreviation na :: "psys \<Rightarrow> nat" where "na s \<equiv> length (accepted s)"

text \<open>The ring: the bytes between the two positions are the accepted bytes that are not delivered.\<close>

definition ring_inv :: "psys \<Rightarrow> bool" where
  "ring_inv s \<longleftrightarrow> length (p_buf (pip s)) = PIPEBUFSIZ \<and> p_rpos (pip s) = int (nd s) \<and> p_wpos (pip s) = int (na s) \<and>
     nd s \<le> na s \<and> na s \<le> nd s + PIPEBUFSIZ \<and> delivered s = take (nd s) (accepted s) \<and>
     (\<forall>k. nd s \<le> k \<longrightarrow> k < na s \<longrightarrow> p_buf (pip s) ! (k mod PIPEBUFSIZ) = accepted s ! k)"

text \<open>The reader: the bytes of the current call are the last bytes delivered.\<close>

definition got :: "nat \<Rightarrow> psys \<Rightarrow> bool" where
  "got i s \<longleftrightarrow> length (rd_buf s) = i \<and> suffix (rd_buf s) (delivered s)"

definition read_inv :: "psys \<Rightarrow> bool" where
  "read_inv s \<longleftrightarrow> (case pc (rdr s) of
     P_for i \<Rightarrow> got i s \<and> i \<le> rd_n s
   | P_while i \<Rightarrow> got i s \<and> i < rd_n s
   | P_closed i c \<Rightarrow> i = 0 \<and> got 0 s \<and> i < rd_n s
   | P_byte i \<Rightarrow> got i s \<and> i < rd_n s \<and> nd s < na s
   | P_inc i \<Rightarrow> i < rd_n s \<and> nd s < na s \<and> (\<exists>bs. rd_buf s = bs @ [accepted s ! nd s] \<and> length bs = i \<and> suffix bs (delivered s))
   | P_ret r \<Rightarrow> r = int (length (rd_buf s)) \<and> length (rd_buf s) \<le> rd_n s \<and> suffix (rd_buf s) (delivered s)
   | _ \<Rightarrow> True)"

text \<open>The writer: the bytes of the current call are the last bytes accepted.\<close>

definition put :: "nat \<Rightarrow> psys \<Rightarrow> bool" where
  "put i s \<longleftrightarrow> suffix (take i (wr_buf s)) (accepted s)"

definition write_inv :: "psys \<Rightarrow> bool" where
  "write_inv s \<longleftrightarrow> (case pc (wtr s) of
     P_for i \<Rightarrow> put i s \<and> i \<le> length (wr_buf s)
   | P_while i \<Rightarrow> put i s \<and> i < length (wr_buf s)
   | P_closed i c \<Rightarrow> put i s \<and> i < length (wr_buf s)
   | P_byte i \<Rightarrow> put i s \<and> i < length (wr_buf s) \<and> na s < nd s + PIPEBUFSIZ
   | P_inc i \<Rightarrow> put i s \<and> i < length (wr_buf s) \<and> na s < nd s + PIPEBUFSIZ \<and>
       p_buf (pip s) ! (na s mod PIPEBUFSIZ) = wr_buf s ! i
   | P_ret r \<Rightarrow> r \<noteq> 0 \<longrightarrow> r = int (length (wr_buf s)) \<and> suffix (wr_buf s) (accepted s)
   | _ \<Rightarrow> True)"

text \<open>
  The mappings: an end that is in use has both its pages, and one that asks whether the other end
  is closed gets the answer yes only when the other end has unmapped the page.
\<close>

definition using_end :: "ppc \<Rightarrow> bool" where
  "using_end p \<longleftrightarrow> p \<noteq> P_closing \<and> p \<noteq> P_gone"

definition ask_inv :: "end_point \<Rightarrow> end_point \<Rightarrow> bool" where
  "ask_inv e f \<longleftrightarrow> fd_mapped e = using_end (pc e) \<and> data_mapped e = (pc e \<noteq> P_gone) \<and>
     (\<forall>i n r. pc e = P_closed i (C_page n r) \<longrightarrow> r = 1) \<and>
     (\<forall>i n. pc e = P_closed i (C_end n True) \<longrightarrow> pc f = P_gone)"

definition eof_inv :: "psys \<Rightarrow> bool" where
  "eof_inv s \<longleftrightarrow> ask_inv (rdr s) (wtr s) \<and> ask_inv (wtr s) (rdr s) \<and>
     (pc (rdr s) = P_ret 0 \<longrightarrow> 0 < rd_n s \<longrightarrow> pc (wtr s) = P_gone) \<and>
     (pc (wtr s) = P_ret 0 \<longrightarrow> wr_buf s \<noteq> [] \<longrightarrow> pc (rdr s) = P_gone)"


definition pipe_inv :: "psys \<Rightarrow> bool" where
  "pipe_inv s \<longleftrightarrow> ring_inv s \<and> read_inv s \<and> write_inv s \<and> eof_inv s"

lemma slot_of_nat [simp]: "slot_of (int n) = Some (n mod PIPEBUFSIZ)"
proof -
  have "int n smod int PIPEBUFSIZ = int (n mod PIPEBUFSIZ)"
    by (simp add: signed_modulo_int_def signed_divide_int_def PIPEBUFSIZ_def zmod_int sgn_if)
  then show ?thesis by (simp add: slot_of_def)
qed

lemma set_pc_simps [simp]:
  "pip (set_rpc p s) = pip s" "pip (set_wpc p s) = pip s" "rd_n (set_rpc p s) = rd_n s" "rd_n (set_wpc p s) = rd_n s"
  "rd_buf (set_rpc p s) = rd_buf s" "rd_buf (set_wpc p s) = rd_buf s" "wr_buf (set_rpc p s) = wr_buf s" "wr_buf (set_wpc p s) = wr_buf s"
  "accepted (set_rpc p s) = accepted s" "accepted (set_wpc p s) = accepted s" "delivered (set_rpc p s) = delivered s"
  "delivered (set_wpc p s) = delivered s" "wtr (set_rpc p s) = wtr s" "rdr (set_wpc p s) = rdr s"
  "rdr (set_rpc p s) = (rdr s)\<lparr>pc := p\<rparr>" "wtr (set_wpc p s) = (wtr s)\<lparr>pc := p\<rparr>"
  by (simp_all add: set_rpc_def set_wpc_def)

text \<open>The tests of the two loops, on positions that have not wrapped.\<close>

lemma pipe_empty_iff: "ring_inv s \<Longrightarrow> pipe_empty (pip s) \<longleftrightarrow> nd s = na s"
  by (simp add: ring_inv_def pipe_empty_def)

lemma pipe_full_iff: "ring_inv s \<Longrightarrow> na s < 2 ^ 31 \<Longrightarrow> pipe_full (pip s) \<longleftrightarrow> na s = nd s + PIPEBUFSIZ"
  by (auto simp: ring_inv_def pipe_full_def u64i_def PIPEBUFSIZ_def)

text \<open>A reader that has passed its position, and a writer that has passed its own.\<close>

lemma ring_take:
  assumes "ring_inv s" and "nd s < na s" and "na s < 2 ^ 31"
  shows "ring_inv (s\<lparr>pip := (pip s)\<lparr>p_rpos := i32 (p_rpos (pip s) + 1)\<rparr>, delivered := delivered s @ [accepted s ! nd s]\<rparr>)"
proof -
  have "delivered s @ [accepted s ! nd s] = take (Suc (nd s)) (accepted s)"
    using assms by (metis ring_inv_def take_Suc_conv_app_nth)
  moreover have "i32 (int (nd s) + 1) = int (Suc (nd s))" using assms by (simp add: i32_def)
  ultimately show ?thesis using assms by (simp add: ring_inv_def)
qed

lemma ring_put:
  assumes "ring_inv s" and "na s < nd s + PIPEBUFSIZ" and "Suc (na s) < 2 ^ 31" and "p_buf (pip s) ! (na s mod PIPEBUFSIZ) = b"
  shows "ring_inv (s\<lparr>pip := (pip s)\<lparr>p_wpos := i32 (p_wpos (pip s) + 1)\<rparr>, accepted := accepted s @ [b]\<rparr>)"
proof -
  have "i32 (int (na s) + 1) = int (Suc (na s))" using assms by (simp add: i32_def)
  moreover have "p_buf (pip s) ! (k mod PIPEBUFSIZ) = (accepted s @ [b]) ! k" if "nd s \<le> k" "k < Suc (na s)" for k
    using assms that by (cases "k = na s") (auto simp: ring_inv_def nth_append)
  ultimately show ?thesis using assms by (simp add: ring_inv_def)
qed

lemma ring_store:
  assumes "ring_inv s" and "na s < nd s + PIPEBUFSIZ"
  shows "ring_inv (s\<lparr>pip := (pip s)\<lparr>p_buf := (p_buf (pip s))[na s mod PIPEBUFSIZ := b]\<rparr>\<rparr>)"
proof -
  have "na s mod PIPEBUFSIZ \<noteq> k mod PIPEBUFSIZ" if "nd s \<le> k" "k < na s" for k
  proof
    assume "na s mod PIPEBUFSIZ = k mod PIPEBUFSIZ"
    then have "PIPEBUFSIZ dvd na s - k" using that by (metis mod_eq_dvd_iff_nat less_imp_le)
    then show False using that assms(2) by (auto dest!: dvd_imp_le)
  qed
  then show ?thesis using assms by (auto simp: ring_inv_def)
qed


section \<open>Every step keeps the invariant\<close>

text \<open>A change of the end points alone.\<close>

lemma ring_inv_cong:
  "pip s' = pip s \<Longrightarrow> accepted s' = accepted s \<Longrightarrow> delivered s' = delivered s \<Longrightarrow> ring_inv s' = ring_inv s"
  by (simp add: ring_inv_def)

lemma read_inv_cong:
  "pc (rdr s') = pc (rdr s) \<Longrightarrow> accepted s' = accepted s \<Longrightarrow> delivered s' = delivered s \<Longrightarrow> rd_n s' = rd_n s \<Longrightarrow>
   rd_buf s' = rd_buf s \<Longrightarrow> read_inv s' = read_inv s"
  by (cases "pc (rdr s)") (simp_all add: read_inv_def got_def)

lemma write_inv_cong:
  "pc (wtr s') = pc (wtr s) \<Longrightarrow> accepted s' = accepted s \<Longrightarrow> delivered s' = delivered s \<Longrightarrow> pip s' = pip s \<Longrightarrow>
   wr_buf s' = wr_buf s \<Longrightarrow> write_inv s' = write_inv s"
  by (cases "pc (wtr s)") (simp_all add: write_inv_def put_def)

lemma read_step_ring:
  assumes "ring_inv s" and "read_inv s" and "write_inv s" and "na s < 2 ^ 31" and "devpipe_read_step s = Some s'"
  shows "ring_inv s' \<and> read_inv s' \<and> write_inv s'"
proof (cases "pc (rdr s)")
  case (P_byte i)
  have r: "p_rpos (pip s) = int (nd s)" and b: "p_buf (pip s) ! (nd s mod PIPEBUFSIZ) = accepted s ! nd s"
    using assms(1,2) P_byte by (auto simp: ring_inv_def read_inv_def)
  have s': "s' = set_rpc (P_inc i) (s\<lparr>rd_buf := rd_buf s @ [accepted s ! nd s]\<rparr>)"
    using assms(5) P_byte by (simp add: devpipe_read_step_def r b)
  show ?thesis
    using assms(1,3) ring_inv_cong [of s' s] write_inv_cong [of s' s] assms(2) P_byte
    by (simp add: s' read_inv_def got_def)
next
  case (P_inc i)
  then obtain bs where b: "rd_buf s = bs @ [accepted s ! nd s]" "length bs = i" "suffix bs (delivered s)" "nd s < na s" "i < rd_n s"
    using assms(2) by (auto simp: read_inv_def)
  let ?t = "s\<lparr>pip := (pip s)\<lparr>p_rpos := i32 (p_rpos (pip s) + 1)\<rparr>, delivered := delivered s @ [accepted s ! nd s]\<rparr>"
  have s': "s' = set_rpc (P_for (Suc i)) ?t" using assms(5) P_inc by (simp add: devpipe_read_step_def b(1))
  have "ring_inv s'" using ring_take [OF assms(1) b(4) assms(4)] ring_inv_cong [of s' ?t] by (simp add: s')
  moreover have "read_inv s'" using b by (auto simp: s' read_inv_def got_def suffix_def)
  moreover have "write_inv s'" using assms(3) by (auto simp: s' write_inv_def put_def split: ppc.splits)
  ultimately show ?thesis by simp
next
  case (P_closed i c)
  then obtain p where s': "s' = set_rpc p s" "p = P_ret 0 \<or> p = P_while i \<or> (\<exists>c. p = P_closed i c)"
    using assms(5) by (auto simp: devpipe_read_step_def split: sum.splits bool.splits)
  then have "read_inv s'" using assms(2) P_closed by (auto simp: read_inv_def got_def)
  then show ?thesis using assms(1,3) ring_inv_cong [of s' s] write_inv_cong [of s' s] by (simp add: s'(1))
next
  case (P_for i)
  then have s': "s' = set_rpc (if i < rd_n s then P_while i else P_ret (int i)) s"
    using assms(5) by (simp add: devpipe_read_step_def)
  then have "read_inv s'" using assms(2) P_for by (auto simp: read_inv_def got_def)
  then show ?thesis using assms(1,3) ring_inv_cong [of s' s] write_inv_cong [of s' s] by (simp add: s')
next
  case (P_while i)
  then have s': "s' = set_rpc (if \<not> pipe_empty (pip s) then P_byte i else if 0 < i then P_ret (int i) else P_closed i C_start) s"
    using assms(5) by (simp add: devpipe_read_step_def)
  have "nd s \<le> na s" using assms(1) by (simp add: ring_inv_def)
  then have "read_inv s'" using assms(2) P_while pipe_empty_iff [OF assms(1)] by (auto simp: s' read_inv_def got_def)
  then show ?thesis using assms(1,3) ring_inv_cong [of s' s] write_inv_cong [of s' s] by (simp add: s')
qed (use assms(5) in \<open>simp_all add: devpipe_read_step_def\<close>)

lemma write_step_ring:
  assumes "ring_inv s" and "read_inv s" and "write_inv s" and "na s' < 2 ^ 31" and "na s \<le> na s'" and "devpipe_write_step s = Some s'"
  shows "ring_inv s' \<and> read_inv s' \<and> write_inv s'"
proof (cases "pc (wtr s)")
  case (P_byte i)
  have w: "p_wpos (pip s) = int (na s)" and n: "na s < nd s + PIPEBUFSIZ" and l: "length (p_buf (pip s)) = PIPEBUFSIZ" "0 < PIPEBUFSIZ"
    using assms(1,3) P_byte by (auto simp: ring_inv_def write_inv_def PIPEBUFSIZ_def)
  let ?t = "s\<lparr>pip := (pip s)\<lparr>p_buf := (p_buf (pip s))[na s mod PIPEBUFSIZ := wr_buf s ! i]\<rparr>\<rparr>"
  have s': "s' = set_wpc (P_inc i) ?t" using assms(6) P_byte by (simp add: devpipe_write_step_def w)
  have "ring_inv s'" using ring_store [OF assms(1) n] ring_inv_cong [of s' ?t] by (simp add: s')
  moreover have "write_inv s'" using assms(3) P_byte l by (simp add: s' write_inv_def put_def)
  ultimately show ?thesis using assms(2) read_inv_cong [of s' s] by (simp add: s')
next
  case (P_inc i)
  then have b: "p_buf (pip s) ! (na s mod PIPEBUFSIZ) = wr_buf s ! i" "na s < nd s + PIPEBUFSIZ" "put i s" "i < length (wr_buf s)"
    using assms(3) by (auto simp: write_inv_def)
  let ?t = "s\<lparr>pip := (pip s)\<lparr>p_wpos := i32 (p_wpos (pip s) + 1)\<rparr>, accepted := accepted s @ [wr_buf s ! i]\<rparr>"
  have s': "s' = set_wpc (P_for (Suc i)) ?t" using assms(6) P_inc by (simp add: devpipe_write_step_def)
  have "Suc (na s) < 2 ^ 31" using assms(4) by (simp add: s')
  then have "ring_inv s'" using ring_put [OF assms(1) b(2) _ b(1)] ring_inv_cong [of s' ?t] by (simp add: s')
  moreover have "write_inv s'" using b by (auto simp: s' write_inv_def put_def suffix_def take_Suc_conv_app_nth)
  moreover have "read_inv s'" using assms(2) by (auto simp: s' read_inv_def got_def nth_append split: ppc.splits)
  ultimately show ?thesis by simp
next
  case (P_closed i c)
  then obtain p where s': "s' = set_wpc p s" "p = P_ret 0 \<or> p = P_while i \<or> (\<exists>c. p = P_closed i c)"
    using assms(6) by (auto simp: devpipe_write_step_def split: sum.splits bool.splits)
  then have "write_inv s'" using assms(3) P_closed by (auto simp: write_inv_def put_def)
  then show ?thesis using assms(1,2) ring_inv_cong [of s' s] read_inv_cong [of s' s] by (simp add: s'(1))
next
  case (P_for i)
  then have s': "s' = set_wpc (if i < length (wr_buf s) then P_while i else P_ret (int i)) s"
    using assms(6) by (simp add: devpipe_write_step_def)
  then have "write_inv s'" using assms(3) P_for by (auto simp: write_inv_def put_def)
  then show ?thesis using assms(1,2) ring_inv_cong [of s' s] read_inv_cong [of s' s] by (simp add: s')
next
  case (P_while i)
  then have s': "s' = set_wpc (if pipe_full (pip s) then P_closed i C_start else P_byte i) s"
    using assms(6) by (simp add: devpipe_write_step_def)
  have "na s \<le> nd s + PIPEBUFSIZ" "na s < 2 ^ 31" using assms(1,4,5) by (simp_all add: ring_inv_def)
  then have "write_inv s'" using assms(3) P_while pipe_full_iff [OF assms(1)] by (auto simp: s' write_inv_def put_def)
  then show ?thesis using assms(1,2) ring_inv_cong [of s' s] read_inv_cong [of s' s] by (simp add: s')
qed (use assms(6) in \<open>simp_all add: devpipe_write_step_def\<close>)

text \<open>An end that steps is in use, so the other end has not been told that it is closed.\<close>

lemma ask_inv_step:
  assumes "ask_inv e f" and "using_end (pc e)" and "using_end p"
    and "\<And>i n r. p = P_closed i (C_page n r) \<Longrightarrow> r = 1" and "\<And>i n. p = P_closed i (C_end n True) \<Longrightarrow> pc f = P_gone"
  shows "ask_inv (e\<lparr>pc := p\<rparr>) f"
  using assms by (auto simp: ask_inv_def using_end_def)

lemma ask_inv_other:
  assumes "ask_inv e f" and "pc f = P_gone \<Longrightarrow> pc f' = P_gone"
  shows "ask_inv e f'"
  using assms by (auto simp: ask_inv_def)

lemma eof_inv_reader:
  assumes e: "eof_inv s" and u: "using_end (pc (rdr s))" and p: "rdr s' = (rdr s)\<lparr>pc := p\<rparr>" "using_end p"
    and o: "wtr s' = wtr s" "wr_buf s' = wr_buf s"
    and q: "(\<forall>i n r. p = P_closed i (C_page n r) \<longrightarrow> r = 1) \<and> (\<forall>i n. p = P_closed i (C_end n True) \<longrightarrow> pc (wtr s) = P_gone) \<and>
      (p = P_ret 0 \<longrightarrow> 0 < rd_n s' \<longrightarrow> pc (wtr s) = P_gone)"
  shows "eof_inv s'"
proof -
  have ng: "pc (rdr s) \<noteq> P_gone" using u by (auto simp: using_end_def)
  have a: "ask_inv (rdr s) (wtr s)" "ask_inv (wtr s) (rdr s)" and w: "pc (wtr s) = P_ret 0 \<longrightarrow> wr_buf s = []"
    using e ng by (auto simp: eof_inv_def)
  have "ask_inv (rdr s') (wtr s')" unfolding p(1) o(1) using ask_inv_step [OF a(1) u p(2)] q by blast
  moreover have "ask_inv (wtr s') (rdr s')" unfolding o(1) using ask_inv_other [OF a(2)] ng by blast
  ultimately show ?thesis using w q by (simp add: eof_inv_def o p)
qed

lemma eof_inv_writer:
  assumes e: "eof_inv s" and u: "using_end (pc (wtr s))" and p: "wtr s' = (wtr s)\<lparr>pc := p\<rparr>" "using_end p"
    and o: "rdr s' = rdr s" "rd_n s' = rd_n s"
    and q: "(\<forall>i n r. p = P_closed i (C_page n r) \<longrightarrow> r = 1) \<and> (\<forall>i n. p = P_closed i (C_end n True) \<longrightarrow> pc (rdr s) = P_gone) \<and>
      (p = P_ret 0 \<longrightarrow> wr_buf s' \<noteq> [] \<longrightarrow> pc (rdr s) = P_gone)"
  shows "eof_inv s'"
proof -
  have ng: "pc (wtr s) \<noteq> P_gone" using u by (auto simp: using_end_def)
  have a: "ask_inv (wtr s) (rdr s)" "ask_inv (rdr s) (wtr s)" and w: "pc (rdr s) = P_ret 0 \<longrightarrow> rd_n s = 0"
    using e ng by (auto simp: eof_inv_def)
  have "ask_inv (wtr s') (rdr s')" unfolding p(1) o(1) using ask_inv_step [OF a(1) u p(2)] q by blast
  moreover have "ask_inv (rdr s') (wtr s')" unfolding o(1) using ask_inv_other [OF a(2)] ng by blast
  ultimately show ?thesis using w q by (simp add: eof_inv_def o p)
qed

lemma closed_step:
  assumes "ask_inv e f" and "ask_inv f e" and "pc e = P_closed i c"
    and "pipeisclosed_step (runs e) (fd_page_ref e) (of_bool (data_mapped e) + of_bool (data_mapped f)) c = r"
  shows "(r = Inl True \<longrightarrow> pc f = P_gone) \<and> (\<forall>c'. r = Inr c' \<longrightarrow> ask_inv (e\<lparr>pc := P_closed i c'\<rparr>) f)"
  using assms by (cases c) (auto simp: ask_inv_def using_end_def fd_page_ref_def split: if_splits)

lemma read_step_eof:
  assumes e: "eof_inv s" and r: "read_inv s" and st: "devpipe_read_step s = Some s'"
  shows "eof_inv s'"
proof -
  have u: "using_end (pc (rdr s))" using st by (auto simp: devpipe_read_step_def using_end_def split: ppc.splits)
  have o: "wtr s' = wtr s" "rd_n s' = rd_n s" "wr_buf s' = wr_buf s"
    using st by (auto simp: devpipe_read_step_def bind_eq_Some_conv split: ppc.splits sum.splits bool.splits)
  define p where "p = pc (rdr s')"
  have p1: "rdr s' = (rdr s)\<lparr>pc := p\<rparr>" "using_end p"
    using st by (auto simp: p_def devpipe_read_step_def using_end_def bind_eq_Some_conv split: ppc.splits sum.splits bool.splits if_splits)
  have p2: "(\<forall>i n r. p = P_closed i (C_page n r) \<longrightarrow> r = 1) \<and> (\<forall>i n. p = P_closed i (C_end n True) \<longrightarrow> pc (wtr s) = P_gone) \<and>
    (p = P_ret 0 \<longrightarrow> 0 < rd_n s \<longrightarrow> pc (wtr s) = P_gone)"
  proof (cases "pc (rdr s)")
    case (P_closed i c)
    obtain r where r: "pipeisclosed_step (runs (rdr s)) (fd_page_ref (rdr s)) (pipe_ref s) c = r" by simp
    have q: "(r = Inl True \<longrightarrow> pc (wtr s) = P_gone) \<and> (\<forall>c'. r = Inr c' \<longrightarrow> ask_inv ((rdr s)\<lparr>pc := P_closed i c'\<rparr>) (wtr s))"
      using closed_step [OF _ _ P_closed r [unfolded pipe_ref_def]] e by (simp add: eof_inv_def)
    then show ?thesis
      using st P_closed r by (auto simp: p_def devpipe_read_step_def ask_inv_def split: sum.splits bool.splits)
  qed (use st r in \<open>auto simp: p_def devpipe_read_step_def read_inv_def bind_eq_Some_conv split: if_splits\<close>)
  show ?thesis by (rule eof_inv_reader [OF e u p1 o(1) o(3)]) (use p2 o in simp)
qed

lemma write_step_eof:
  assumes e: "eof_inv s" and r: "write_inv s" and st: "devpipe_write_step s = Some s'"
  shows "eof_inv s'"
proof -
  have u: "using_end (pc (wtr s))" using st by (auto simp: devpipe_write_step_def using_end_def split: ppc.splits)
  have o: "rdr s' = rdr s" "rd_n s' = rd_n s" "wr_buf s' = wr_buf s"
    using st by (auto simp: devpipe_write_step_def bind_eq_Some_conv split: ppc.splits sum.splits bool.splits)
  define p where "p = pc (wtr s')"
  have p1: "wtr s' = (wtr s)\<lparr>pc := p\<rparr>" "using_end p"
    using st by (auto simp: p_def devpipe_write_step_def using_end_def bind_eq_Some_conv split: ppc.splits sum.splits bool.splits if_splits)
  have p2: "(\<forall>i n r. p = P_closed i (C_page n r) \<longrightarrow> r = 1) \<and> (\<forall>i n. p = P_closed i (C_end n True) \<longrightarrow> pc (rdr s) = P_gone) \<and>
    (p = P_ret 0 \<longrightarrow> wr_buf s \<noteq> [] \<longrightarrow> pc (rdr s) = P_gone)"
  proof (cases "pc (wtr s)")
    case (P_closed i c)
    obtain r where r: "pipeisclosed_step (runs (wtr s)) (fd_page_ref (wtr s)) (pipe_ref s) c = r" by simp
    have q: "(r = Inl True \<longrightarrow> pc (rdr s) = P_gone) \<and> (\<forall>c'. r = Inr c' \<longrightarrow> ask_inv ((wtr s)\<lparr>pc := P_closed i c'\<rparr>) (rdr s))"
      using closed_step [OF _ _ P_closed r [unfolded pipe_ref_def add.commute [of "of_bool (data_mapped (rdr s))"]]] e by (simp add: eof_inv_def)
    then show ?thesis
      using st P_closed r by (auto simp: p_def devpipe_write_step_def ask_inv_def split: sum.splits bool.splits)
  qed (use st r in \<open>auto simp: p_def devpipe_write_step_def write_inv_def bind_eq_Some_conv split: if_splits\<close>)
  show ?thesis by (rule eof_inv_writer [OF e u p1 o(1) o(2)]) (use p2 o in simp)
qed

lemma devpipe_close_ask:
  assumes "ask_inv e f" and "devpipe_close_step e = Some e'"
  shows "ask_inv e' f" and "pc e' = P_closing \<or> pc e' = P_gone" and "pc e \<noteq> P_gone"
  using assms by (auto simp: devpipe_close_step_def ask_inv_def using_end_def split: ppc.splits)

lemma ask_inv_runs [simp]: "ask_inv (e\<lparr>runs := n\<rparr>) f = ask_inv e f" "ask_inv e (f\<lparr>runs := n\<rparr>) = ask_inv e f"
  by (simp_all add: ask_inv_def)

text \<open>The actions that are not steps of a running call.\<close>

lemma call_inv:
  assumes "pipe_inv s" and "pipe_act a s = Some s'" and "(\<exists>n. a = Call_read n) \<or> (\<exists>bs. a = Call_write bs)"
  shows "pipe_inv s'"
proof (cases a)
  case (Call_read n)
  then have c: "can_call (rdr s)" and s': "s' = set_rpc (P_for 0) (s\<lparr>rd_n := n, rd_buf := []\<rparr>)"
    using assms(2) by (auto split: if_splits)
  have "eof_inv s'"
    using c assms(1) by (intro eof_inv_reader [of s s' "P_for 0"]) (auto simp: s' pipe_inv_def can_call_def using_end_def split: ppc.splits)
  moreover have "read_inv s'" by (simp add: s' read_inv_def got_def)
  ultimately show ?thesis using assms(1) ring_inv_cong [of s' s] write_inv_cong [of s' s] by (simp add: s' pipe_inv_def)
next
  case (Call_write bs)
  then have c: "can_call (wtr s)" and s': "s' = set_wpc (P_for 0) (s\<lparr>wr_buf := bs\<rparr>)"
    using assms(2) by (auto split: if_splits)
  have "eof_inv s'"
    using c assms(1) by (intro eof_inv_writer [of s s' "P_for 0"]) (auto simp: s' pipe_inv_def can_call_def using_end_def split: ppc.splits)
  moreover have "write_inv s'" by (simp add: s' write_inv_def put_def)
  ultimately show ?thesis using assms(1) ring_inv_cong [of s' s] read_inv_cong [of s' s] by (simp add: s' pipe_inv_def)
qed (use assms(3) in auto)

lemma close_inv:
  assumes "pipe_inv s" and "pipe_act a s = Some s'" and "a = Close_read \<or> a = Close_write"
  shows "pipe_inv s'"
proof (cases a)
  case Close_read
  then obtain e where e: "devpipe_close_step (rdr s) = Some e" and s': "s' = s\<lparr>rdr := e\<rparr>"
    using assms(2) by (auto simp: bind_eq_Some_conv)
  have i: "ask_inv (rdr s) (wtr s)" "ask_inv (wtr s) (rdr s)" "pc (wtr s) = P_ret 0 \<longrightarrow> wr_buf s \<noteq> [] \<longrightarrow> pc (rdr s) = P_gone"
    using assms(1) by (auto simp: pipe_inv_def eof_inv_def)
  note c = devpipe_close_ask [OF i(1) e]
  have "eof_inv s'" using c i ask_inv_other [OF i(2), of e] by (auto simp: s' eof_inv_def)
  moreover have "read_inv s'" using c(2) by (auto simp: s' read_inv_def)
  ultimately show ?thesis using assms(1) ring_inv_cong [of s' s] write_inv_cong [of s' s] by (simp add: s' pipe_inv_def)
next
  case Close_write
  then obtain e where e: "devpipe_close_step (wtr s) = Some e" and s': "s' = s\<lparr>wtr := e\<rparr>"
    using assms(2) by (auto simp: bind_eq_Some_conv)
  have i: "ask_inv (wtr s) (rdr s)" "ask_inv (rdr s) (wtr s)" "pc (rdr s) = P_ret 0 \<longrightarrow> 0 < rd_n s \<longrightarrow> pc (wtr s) = P_gone"
    using assms(1) by (auto simp: pipe_inv_def eof_inv_def)
  note c = devpipe_close_ask [OF i(1) e]
  have "eof_inv s'" using c i ask_inv_other [OF i(2), of e] by (auto simp: s' eof_inv_def)
  moreover have "write_inv s'" using c(2) by (auto simp: s' write_inv_def)
  ultimately show ?thesis using assms(1) ring_inv_cong [of s' s] read_inv_cong [of s' s] by (simp add: s' pipe_inv_def)
qed (use assms(3) in auto)

lemma resume_inv:
  assumes "pipe_inv s" and "pipe_act a s = Some s'" and "a = Resume_read \<or> a = Resume_write"
  shows "pipe_inv s'"
proof (cases a)
  case Resume_read
  then have s': "s' = s\<lparr>rdr := (rdr s)\<lparr>runs := runs (rdr s) + 1\<rparr>\<rparr>" using assms(2) by simp
  have "eof_inv s' = eof_inv s" by (simp add: s' eof_inv_def)
  then show ?thesis using assms(1) ring_inv_cong [of s' s] write_inv_cong [of s' s] read_inv_cong [of s' s] by (simp add: s' pipe_inv_def)
next
  case Resume_write
  then have s': "s' = s\<lparr>wtr := (wtr s)\<lparr>runs := runs (wtr s) + 1\<rparr>\<rparr>" using assms(2) by simp
  have "eof_inv s' = eof_inv s" by (simp add: s' eof_inv_def)
  then show ?thesis using assms(1) ring_inv_cong [of s' s] write_inv_cong [of s' s] read_inv_cong [of s' s] by (simp add: s' pipe_inv_def)
qed (use assms(3) in auto)

lemma accepted_grows: "pipe_act a s = Some s' \<Longrightarrow> na s \<le> na s'"
  by (cases a) (auto simp: devpipe_read_step_def devpipe_write_step_def bind_eq_Some_conv split: ppc.splits sum.splits bool.splits if_splits)

lemma pipe_reach_inv: "pipe_reach s \<Longrightarrow> na s < 2 ^ 31 \<Longrightarrow> pipe_inv s"
proof (induction rule: pipe_reach.induct)
  case init
  show ?case by (simp add: pipe_inv_def new_pipe_def zero_pipe_def fresh_end_def ring_inv_def read_inv_def write_inv_def eof_inv_def
    ask_inv_def using_end_def)
next
  case (step s a s')
  have "na s < 2 ^ 31" and i: "pipe_inv s" using step accepted_grows [OF step(2)] by auto
  then show ?case
    using read_step_ring [of s s'] write_step_ring [of s s'] read_step_eof [of s s'] write_step_eof [of s s'] call_inv [OF i step(2)]
      close_inv [OF i step(2)] resume_inv [OF i step(2)] step(2,4) accepted_grows [OF step(2)]
    by (cases a) (auto simp: pipe_inv_def)
qed

section \<open>Creation\<close>

text \<open>
  The pages a process has mapped in its descriptor and data areas, by page number; \<open>nextp\<close> is the
  number of the next page the kernel hands out and \<open>avail\<close> how many it has.
\<close>

record pmaps =
  fdp :: "nat \<Rightarrow> nat option"
  datap :: "nat \<Rightarrow> nat option"
  fdcont :: "nat \<Rightarrow> Fd"
  nextp :: nat
  avail :: nat

definition alloc_fd_at :: "nat \<Rightarrow> pmaps \<Rightarrow> int \<times> pmaps" where
  "alloc_fd_at n s =
     (if avail s = 0 then (- E_NO_MEM, s)
      else (0, s\<lparr>fdp := (fdp s)(n := Some (nextp s)), fdcont := (fdcont s)(nextp s := zero_fd), nextp := nextp s + 1, avail := avail s - 1\<rparr>))"

definition alloc_data_at :: "nat \<Rightarrow> pmaps \<Rightarrow> int \<times> pmaps" where
  "alloc_data_at n s =
     (if avail s = 0 then (- E_NO_MEM, s)
      else (0, s\<lparr>datap := (datap s)(n := Some (nextp s)), nextp := nextp s + 1, avail := avail s - 1\<rparr>))"

definition unmap_fd_at :: "nat \<Rightarrow> pmaps \<Rightarrow> pmaps" where
  "unmap_fd_at n s = s\<lparr>fdp := (fdp s)(n := None), avail := avail s + 1\<rparr>"

definition unmap_data_at :: "nat \<Rightarrow> pmaps \<Rightarrow> pmaps" where
  "unmap_data_at n s = s\<lparr>datap := (datap s)(n := None), avail := avail s + 1\<rparr>"

definition free_fd :: "pmaps \<Rightarrow> nat option" where
  "free_fd s = find (\<lambda>i. fdp s i = None) [0..<MAXFD]"

definition set_pipe_fd :: "nat \<Rightarrow> u32 \<Rightarrow> pmaps \<Rightarrow> pmaps" where
  "set_pipe_fd n mode s =
     (case fdp s n of None \<Rightarrow> s | Some p \<Rightarrow> s\<lparr>fdcont := (fdcont s)(p := (fdcont s p)\<lparr>fd_dev_id := 112, fd_omode := mode\<rparr>)\<rparr>)"

text \<open>\<open>map_r\<close> is what \<open>sys_page_map\<close> returns for the second mapping of the page.\<close>

definition lib_pipe :: "int \<Rightarrow> pmaps \<Rightarrow> int \<times> (nat \<times> nat) option \<times> pmaps" where
  "lib_pipe map_r s =
     (case free_fd s of
        None \<Rightarrow> (- E_MAX_OPEN, None, s)
      | Some n0 \<Rightarrow>
     (case alloc_fd_at n0 s of (r, s) \<Rightarrow>
      if r < 0 then (r, None, s)
      else case free_fd s of
        None \<Rightarrow> (- E_MAX_OPEN, None, unmap_fd_at n0 s)
      | Some n1 \<Rightarrow>
     (case alloc_fd_at n1 s of (r, s) \<Rightarrow>
      if r < 0 then (r, None, unmap_fd_at n0 s)
      else
     (case alloc_data_at n0 s of (r, s) \<Rightarrow>
      if r < 0 then (r, None, unmap_fd_at n0 (unmap_fd_at n1 s))
      else if map_r < 0 then (map_r, None, unmap_fd_at n0 (unmap_fd_at n1 (unmap_data_at n0 s)))
      else (0, Some (n0, n1), set_pipe_fd n1 O_WRONLY (set_pipe_fd n0 O_RDONLY (s\<lparr>datap := (datap s)(n1 := datap s n0)\<rparr>)))))))"

lemma free_fd_Some: "free_fd s = Some n \<Longrightarrow> n < MAXFD \<and> fdp s n = None"
  by (auto simp: free_fd_def find_Some_iff nth_append)

definition devpipe_stat :: "Pipe \<Rightarrow> int \<times> Stat" where
  "devpipe_stat p = (0, \<lparr>st_name = [60, 112, 105, 112, 101, 62], st_size = i32 (p_wpos p - p_rpos p), st_isdir = False\<rparr>)"

section \<open>Properties\<close>

definition in_call :: "ppc \<Rightarrow> bool" where
  "in_call p \<longleftrightarrow> p \<noteq> P_idle \<and> p \<noteq> P_closing \<and> p \<noteq> P_gone \<and> (\<forall>r. p \<noteq> P_ret r)"

lemma in_call_steps:
  assumes "ring_inv s"
  shows "in_call (pc (rdr s)) \<Longrightarrow> devpipe_read_step s \<noteq> None" and "in_call (pc (wtr s)) \<Longrightarrow> devpipe_write_step s \<noteq> None"
  using assms by (auto simp: in_call_def devpipe_read_step_def devpipe_write_step_def ring_inv_def split: ppc.split sum.split bool.split)

text \<open>
  C37 A pipe is a bounded queue under every interleaving of its reader and its writer: as long as
  fewer than 2^31 bytes have passed, the bytes delivered are a prefix of the bytes accepted and at
  most 32 bytes behind them; a read returns the number of bytes it took, which are the last ones
  delivered, in order; a write that does not return 0 has put its whole buffer, in order; a read or
  a write of at least one byte returns 0 only when the other end has unmapped both its pages; and a
  call never gets stuck on an index outside the buffer.
\<close>

theorem pipe_fifo:
  assumes "pipe_reach s" and "length (accepted s) < 2 ^ 31"
  shows "prefix (delivered s) (accepted s) \<and> length (accepted s) \<le> length (delivered s) + PIPEBUFSIZ \<and>
    (\<forall>r. pc (rdr s) = P_ret r \<longrightarrow> r = int (length (rd_buf s)) \<and> suffix (rd_buf s) (delivered s)) \<and>
    (\<forall>r. pc (wtr s) = P_ret r \<longrightarrow> r \<noteq> 0 \<longrightarrow> r = int (length (wr_buf s)) \<and> suffix (wr_buf s) (accepted s)) \<and>
    (pc (rdr s) = P_ret 0 \<longrightarrow> 0 < rd_n s \<longrightarrow> \<not> fd_mapped (wtr s) \<and> \<not> data_mapped (wtr s)) \<and>
    (pc (wtr s) = P_ret 0 \<longrightarrow> wr_buf s \<noteq> [] \<longrightarrow> \<not> fd_mapped (rdr s) \<and> \<not> data_mapped (rdr s)) \<and>
    (in_call (pc (rdr s)) \<longrightarrow> devpipe_read_step s \<noteq> None) \<and> (in_call (pc (wtr s)) \<longrightarrow> devpipe_write_step s \<noteq> None)"
proof -
  have i: "ring_inv s" "read_inv s" "write_inv s" "eof_inv s"
    using pipe_reach_inv [OF assms] by (simp_all add: pipe_inv_def)
  have "prefix (delivered s) (accepted s)" "length (accepted s) \<le> length (delivered s) + PIPEBUFSIZ"
    using i(1) take_is_prefix [of "nd s" "accepted s"] by (simp_all add: ring_inv_def)
  moreover have "\<forall>r. pc (rdr s) = P_ret r \<longrightarrow> r = int (length (rd_buf s)) \<and> suffix (rd_buf s) (delivered s)"
    using i(2) by (auto simp: read_inv_def)
  moreover have "\<forall>r. pc (wtr s) = P_ret r \<longrightarrow> r \<noteq> 0 \<longrightarrow> r = int (length (wr_buf s)) \<and> suffix (wr_buf s) (accepted s)"
    using i(3) by (auto simp: write_inv_def)
  moreover have "pc e = P_gone \<Longrightarrow> ask_inv e f \<Longrightarrow> \<not> fd_mapped e \<and> \<not> data_mapped e" for e f
    by (simp add: ask_inv_def using_end_def)
  ultimately show ?thesis using i(4) in_call_steps [OF i(1)] unfolding eof_inv_def by blast
qed

definition chat :: "act list" where
  "chat = [Call_read 3, Read_step, Call_write [10, 20], Write_step, Write_step, Write_step, Write_step, Read_step, Read_step, Read_step,
     Write_step, Write_step, Write_step, Write_step, Write_step, Read_step, Read_step, Read_step, Read_step, Read_step, Read_step]"

theorem pipe_fifo_witness:
  "\<exists>s. pipe_run chat new_pipe = Some s \<and> accepted s = [10, 20] \<and> prefix (delivered s) (accepted s) \<and> pc (rdr s) = P_ret 2 \<and>
     suffix (rd_buf s) (delivered s)"
proof -
  define s where "s = the (pipe_run chat new_pipe)"
  have r: "pipe_run chat new_pipe = Some s" "accepted s = [10, 20]" "pc (rdr s) = P_ret 2"
    unfolding s_def by code_simp+
  have "pipe_reach s" using pipe_run_reach [OF pipe_reach.init r(1)] .
  then show ?thesis using pipe_fifo [of s] r by simp
qed

text \<open>
  End of file is announced too early when the writer finishes between the two tests of the
  reader: the reader finds the pipe empty, the writer then puts a byte and closes, and the reader,
  asking only now whether the pipe is closed, returns 0 although a byte is waiting.
\<close>

theorem pipe_early_eof:
  "\<exists>s. pipe_reach s \<and> pc (rdr s) = P_ret 0 \<and> rd_n s = 1 \<and> delivered s = [] \<and> accepted s = [7] \<and> \<not> pipe_empty (pip s)"
proof -
  let ?tr = "[Call_read 1, Read_step, Read_step, Call_write [7], Write_step, Write_step, Write_step, Write_step, Write_step,
    Close_write, Close_write, Read_step, Read_step, Read_step, Read_step]"
  define s where "s = the (pipe_run ?tr new_pipe)"
  have r: "pipe_run ?tr new_pipe = Some s" "pc (rdr s) = P_ret 0 \<and> rd_n s = 1 \<and> delivered s = [] \<and> accepted s = [7] \<and> \<not> pipe_empty (pip s)"
    unfolding s_def by code_simp+
  then show ?thesis using pipe_run_reach [OF pipe_reach.init r(1)] by blast
qed

text \<open>
  Creating a pipe: when it fails, for whatever reason, the process has exactly the pages it had
  before; when it succeeds, two unused descriptors below 32 are open on the same new page, the first
  for reading and the second for writing.
\<close>

lemma pipe_all_or_nothing:
  assumes "\<And>n. fdp s n = None \<Longrightarrow> datap s n = None" and "lib_pipe map_r s = (r, pfd, s')"
  shows "r < 0 \<and> pfd = None \<and> fdp s' = fdp s \<and> datap s' = datap s \<and> avail s' = avail s \<or>
    r = 0 \<and> (\<exists>n0 n1. pfd = Some (n0, n1) \<and> n0 < MAXFD \<and> n1 < MAXFD \<and> n0 \<noteq> n1 \<and> fdp s n0 = None \<and> fdp s n1 = None \<and>
      fdp s' = (fdp s)(n0 \<mapsto> nextp s, n1 \<mapsto> nextp s + 1) \<and> datap s' = (datap s)(n0 \<mapsto> nextp s + 2, n1 \<mapsto> nextp s + 2) \<and>
      fd_dev_id (fdcont s' (nextp s)) = 112 \<and> fd_omode (fdcont s' (nextp s)) = O_RDONLY \<and>
      fd_dev_id (fdcont s' (nextp s + 1)) = 112 \<and> fd_omode (fdcont s' (nextp s + 1)) = O_WRONLY \<and> avail s' + 3 = avail s)"
proof (cases "free_fd s")
  case None
  then show ?thesis using assms(2) by (auto simp: lib_pipe_def E_MAX_OPEN_def)
next
  case (Some n0)
  note n0 = free_fd_Some [OF Some]
  show ?thesis
  proof (cases "avail s = 0")
    case True
    then show ?thesis using assms(2) Some by (auto simp: lib_pipe_def alloc_fd_at_def E_NO_MEM_def)
  next
    case False
    define t where "t = s\<lparr>fdp := (fdp s)(n0 := Some (nextp s)), fdcont := (fdcont s)(nextp s := zero_fd), nextp := nextp s + 1, avail := avail s - 1\<rparr>"
    have t: "alloc_fd_at n0 s = (0, t)" using False by (simp add: alloc_fd_at_def t_def)
    show ?thesis
    proof (cases "free_fd t")
      case None
      then show ?thesis using assms(2) Some t n0 False
        by (auto simp: lib_pipe_def unmap_fd_at_def t_def E_MAX_OPEN_def)
    next
      case (Some n1)
      have n1: "n1 < MAXFD" "n1 \<noteq> n0" "fdp s n1 = None" using free_fd_Some [OF Some] by (auto simp: t_def split: if_splits)
      have d: "datap s n0 = None" "datap s n1 = None" using assms(1) n0 n1 by auto
      show ?thesis
        using assms(2) \<open>free_fd s = Some n0\<close> t Some n0 n1 d False
        by (auto simp: lib_pipe_def alloc_fd_at_def alloc_data_at_def unmap_fd_at_def unmap_data_at_def set_pipe_fd_def t_def
          E_NO_MEM_def fun_upd_idem fun_upd_twist [of n0 n1] split: if_splits)
    qed
  qed
qed

end
