(* ===== verification/Strings.thy ===== *)
theory Strings
  imports Fs
begin

text \<open>
  The string and memory routines shared by the kernel and user programs (lib/string.c), over a byte
  addressed memory. A loop that runs on until it finds a zero byte is undefined when there is none.
  The repeated string instructions of memset and memmove are modelled with their operand width.
\<close>

type_synonym cmem = "nat \<Rightarrow> u8"

text \<open>A string of the memory: its characters, none of them zero, and the terminating zero.\<close>

primrec cstr :: "cmem \<Rightarrow> nat \<Rightarrow> u8 list \<Rightarrow> bool" where
  "cstr m a [] \<longleftrightarrow> m a = 0"
| "cstr m a (x # xs) \<longleftrightarrow> m a = x \<and> x \<noteq> 0 \<and> cstr m (a + 1) xs"

section \<open>Length and copying\<close>

partial_function (option) strlen_loop :: "cmem \<Rightarrow> nat \<Rightarrow> int \<Rightarrow> int option" where
  "strlen_loop m s n = (if m s \<noteq> 0 then strlen_loop m (s + 1) (i32 (n + 1)) else Some n)"

definition strlen :: "cmem \<Rightarrow> nat \<Rightarrow> int option" where
  "strlen m s = strlen_loop m s 0"

partial_function (option) strnlen_loop :: "cmem \<Rightarrow> nat \<Rightarrow> int \<Rightarrow> int \<Rightarrow> int option" where
  "strnlen_loop m s sz n = (if 0 < sz \<and> m s \<noteq> 0 then strnlen_loop m (s + 1) (sz - 1) (i32 (n + 1)) else Some n)"

text \<open>The bound is a \<open>size_t\<close>.\<close>

definition strnlen :: "cmem \<Rightarrow> nat \<Rightarrow> int \<Rightarrow> int option" where
  "strnlen m s sz = strnlen_loop m s (u64i sz) 0"

partial_function (option) strcpy :: "nat \<Rightarrow> nat \<Rightarrow> cmem \<Rightarrow> cmem option" where
  "strcpy dst src m = (let c = m src; m = m(dst := c) in if c \<noteq> 0 then strcpy (dst + 1) (src + 1) m else Some m)"

definition strcat :: "nat \<Rightarrow> nat \<Rightarrow> cmem \<Rightarrow> cmem option" where
  "strcat dst src m = do {
     len \<leftarrow> strlen m dst;
     strcpy (nat (int dst + len)) src m }"

fun strncpy :: "nat \<Rightarrow> nat \<Rightarrow> nat \<Rightarrow> cmem \<Rightarrow> cmem" where
  "strncpy dst src 0 m = m"
| "strncpy dst src (Suc sz) m =
     (let m = m(dst := m src) in strncpy (dst + 1) (if m src \<noteq> 0 then src + 1 else src) sz m)"

text \<open>The loop is entered with the sz before the decrement; it returns the final \<open>dst\<close>.\<close>

fun strlcpy_loop :: "nat \<Rightarrow> nat \<Rightarrow> nat \<Rightarrow> cmem \<Rightarrow> nat \<times> cmem" where
  "strlcpy_loop dst src 0 m = (dst, m(dst := 0))"
| "strlcpy_loop dst src (Suc sz) m =
     (if 0 < sz \<and> m src \<noteq> 0 then strlcpy_loop (dst + 1) (src + 1) sz (m(dst := m src)) else (dst, m(dst := 0)))"

definition strlcpy :: "nat \<Rightarrow> nat \<Rightarrow> nat \<Rightarrow> cmem \<Rightarrow> nat \<times> cmem" where
  "strlcpy dst src sz m =
     (if 0 < sz then (case strlcpy_loop dst src sz m of (d, m) \<Rightarrow> (d - dst, m)) else (0, m))"

section \<open>Comparison and search\<close>

definition byte_diff :: "u8 \<Rightarrow> u8 \<Rightarrow> int" where
  "byte_diff x y = int (unat x) - int (unat y)"

partial_function (option) strcmp :: "cmem \<Rightarrow> nat \<Rightarrow> nat \<Rightarrow> int option" where
  "strcmp m p q = (if m p \<noteq> 0 \<and> m p = m q then strcmp m (p + 1) (q + 1) else Some (byte_diff (m p) (m q)))"

fun strncmp :: "cmem \<Rightarrow> nat \<Rightarrow> nat \<Rightarrow> nat \<Rightarrow> int" where
  "strncmp m p q 0 = 0"
| "strncmp m p q (Suc n) = (if m p \<noteq> 0 \<and> m p = m q then strncmp m (p + 1) (q + 1) n else byte_diff (m p) (m q))"

partial_function (option) strchr :: "cmem \<Rightarrow> nat \<Rightarrow> u8 \<Rightarrow> nat option option" where
  "strchr m s c = (if m s \<noteq> 0 then (if m s = c then Some (Some s) else strchr m (s + 1) c) else Some None)"

partial_function (option) strfind :: "cmem \<Rightarrow> nat \<Rightarrow> u8 \<Rightarrow> nat option" where
  "strfind m s c = (if m s \<noteq> 0 then (if m s = c then Some s else strfind m (s + 1) c) else Some s)"

fun memcmp :: "cmem \<Rightarrow> nat \<Rightarrow> nat \<Rightarrow> nat \<Rightarrow> int" where
  "memcmp m s1 s2 0 = 0"
| "memcmp m s1 s2 (Suc n) = (if m s1 \<noteq> m s2 then byte_diff (m s1) (m s2) else memcmp m (s1 + 1) (s2 + 1) n)"

fun memfind :: "cmem \<Rightarrow> nat \<Rightarrow> u8 \<Rightarrow> nat \<Rightarrow> nat" where
  "memfind m s c 0 = s"
| "memfind m s c (Suc n) = (if m s = c then s else memfind m (s + 1) c n)"

section \<open>Numbers\<close>

definition i64 :: "int \<Rightarrow> int" where
  "i64 x = (x + 2 ^ 63) mod 2 ^ 64 - 2 ^ 63"

definition digit_val :: "u8 \<Rightarrow> int option" where
  "digit_val c =
     (if 48 \<le> c \<and> c \<le> 57 then Some (uint c - 48)
      else if 97 \<le> c \<and> c \<le> 122 then Some (uint c - 97 + 10)
      else if 65 \<le> c \<and> c \<le> 90 then Some (uint c - 65 + 10)
      else None)"

partial_function (option) skip_blank :: "cmem \<Rightarrow> nat \<Rightarrow> nat option" where
  "skip_blank m s = (if m s = 32 \<or> m s = 9 then skip_blank m (s + 1) else Some s)"

partial_function (option) strtol_digits :: "cmem \<Rightarrow> nat \<Rightarrow> int \<Rightarrow> int \<Rightarrow> (int \<times> nat) option" where
  "strtol_digits m s base val =
     (case digit_val (m s) of
        None \<Rightarrow> Some (val, s)
      | Some dig \<Rightarrow> if base \<le> dig then Some (val, s) else strtol_digits m (s + 1) base (i64 (val * base + dig)))"

text \<open>The value and the pointer stored in \<open>*endptr\<close>.\<close>

definition strtol :: "cmem \<Rightarrow> nat \<Rightarrow> int \<Rightarrow> (int \<times> nat) option" where
  "strtol m s base = do {
     s \<leftarrow> skip_blank m s;
     let neg = (m s = 45);
     let s = (if m s = 43 \<or> m s = 45 then s + 1 else s);
     let (s, base) =
       (if (base = 0 \<or> base = 16) \<and> m s = 48 \<and> m (s + 1) = 120 then (s + 2, 16)
        else if base = 0 \<and> m s = 48 then (s + 1, 8)
        else if base = 0 then (s, 10)
        else (s, base));
     (val, s) \<leftarrow> strtol_digits m s base 0;
     Some (if neg then i64 (- val) else val, s)
   }"

section \<open>Filling and moving\<close>

text \<open>\<open>rep stos\<close>: the units are stored upwards.\<close>

fun rep_stos :: "u8 list \<Rightarrow> nat \<Rightarrow> nat \<Rightarrow> cmem \<Rightarrow> cmem" where
  "rep_stos u d 0 m = m"
| "rep_stos u d (Suc n) m = rep_stos u (d + length u) n (upd_bytes d u m)"

definition memset :: "nat \<Rightarrow> u8 \<Rightarrow> nat \<Rightarrow> cmem \<Rightarrow> cmem" where
  "memset v c n m =
     (if n = 0 then m
      else if v mod 4 = 0 \<and> n mod 4 = 0 then
        (let c = ucast c :: u32;
             c = push_bit 24 c OR push_bit 16 c OR push_bit 8 c OR c
         in rep_stos (bytes32 c) v (n div 4) m)
      else rep_stos [c] v n m)"

text \<open>
  \<open>rep movs\<close> with the direction flag clear and set; each unit is read before it is written, and
  the pointers are those of the first byte of the unit.
\<close>

definition movs :: "nat \<Rightarrow> nat \<Rightarrow> nat \<Rightarrow> cmem \<Rightarrow> cmem" where
  "movs w d s m = (\<lambda>a. if d \<le> a \<and> a < d + w then m (s + (a - d)) else m a)"

fun rep_movs_up :: "nat \<Rightarrow> nat \<Rightarrow> nat \<Rightarrow> nat \<Rightarrow> cmem \<Rightarrow> cmem" where
  "rep_movs_up w d s 0 m = m"
| "rep_movs_up w d s (Suc n) m = rep_movs_up w (d + w) (s + w) n (movs w d s m)"

fun rep_movs_down :: "nat \<Rightarrow> nat \<Rightarrow> nat \<Rightarrow> nat \<Rightarrow> cmem \<Rightarrow> cmem" where
  "rep_movs_down w d s 0 m = m"
| "rep_movs_down w d s (Suc n) m = rep_movs_down w (d - w) (s - w) n (movs w d s m)"

definition memmove :: "nat \<Rightarrow> nat \<Rightarrow> nat \<Rightarrow> cmem \<Rightarrow> cmem" where
  "memmove dst src n m =
     (if src < dst \<and> dst < src + n then
        let s = src + n; d = dst + n
        in if s mod 4 = 0 \<and> d mod 4 = 0 \<and> n mod 4 = 0 then rep_movs_down 4 (d - 4) (s - 4) (n div 4) m
           else rep_movs_down 1 (d - 1) (s - 1) n m
      else
        if src mod 4 = 0 \<and> dst mod 4 = 0 \<and> n mod 4 = 0 then rep_movs_up 4 dst src (n div 4) m
        else rep_movs_up 1 dst src n m)"

definition memcpy :: "nat \<Rightarrow> nat \<Rightarrow> nat \<Rightarrow> cmem \<Rightarrow> cmem" where
  "memcpy dst src n m = memmove dst src n m"

section \<open>Moving and filling are what they should be\<close>

lemma rep_movs_up_correct:
  "d \<le> s \<or> s + n * w \<le> d \<Longrightarrow>
   rep_movs_up w d s n m a = (if d \<le> a \<and> a < d + n * w then m (s + (a - d)) else m a)"
proof (induction n arbitrary: d s m)
  case (Suc n)
  have "d + w \<le> s + w \<or> s + w + n * w \<le> d + w" using Suc.prems by auto
  note IH = Suc.IH [OF this, of "movs w d s m"]
  show ?case unfolding rep_movs_up.simps IH using Suc.prems by (auto simp: movs_def)
qed auto

lemma rep_movs_down_correct:
  "s \<le> d \<Longrightarrow> rep_movs_down w (d + n * w) (s + n * w) (Suc n) m a =
     (if d \<le> a \<and> a < d + Suc n * w then m (s + (a - d)) else m a)"
proof (induction n arbitrary: m)
  case 0
  then show ?case by (simp add: movs_def)
next
  case (Suc n)
  have e: "rep_movs_down w (d + Suc n * w) (s + Suc n * w) (Suc (Suc n)) m =
      rep_movs_down w (d + n * w) (s + n * w) (Suc n) (movs w (d + Suc n * w) (s + Suc n * w) m)"
    by (subst rep_movs_down.simps(2)) simp
  show ?case unfolding e Suc.IH [OF Suc.prems] using Suc.prems by (auto simp: movs_def)
qed

lemma rep_stos_correct:
  "rep_stos u d n m a = (if d \<le> a \<and> a < d + n * length u then u ! ((a - d) mod length u) else m a)"
proof (induction n arbitrary: d m)
  case (Suc n)
  have "(a - (d + length u)) mod length u = (a - d) mod length u" if "d + length u \<le> a"
    using that by (metis add_diff_cancel_left' diff_diff_left le_add_diff_inverse mod_add_self1 mod_add_self2 add.commute le_mod_geq le_diff_conv2 add_leD1)
  then show ?case unfolding rep_stos.simps Suc.IH by (auto simp: upd_bytes_def)
qed auto

lemma fill_word: "bytes32 (push_bit 24 (ucast c) OR push_bit 16 (ucast c) OR push_bit 8 (ucast c) OR ucast c) = [c, c, c, c]" for c :: u8
proof -
  have "ucast (push_bit 24 (ucast c) OR push_bit 16 (ucast c) OR push_bit 8 (ucast c) OR ucast c :: u32) = c"
    "ucast (drop_bit 8 (push_bit 24 (ucast c) OR push_bit 16 (ucast c) OR push_bit 8 (ucast c) OR ucast c :: u32)) = c"
    "ucast (drop_bit 16 (push_bit 24 (ucast c) OR push_bit 16 (ucast c) OR push_bit 8 (ucast c) OR ucast c :: u32)) = c"
    "ucast (drop_bit 24 (push_bit 24 (ucast c) OR push_bit 16 (ucast c) OR push_bit 8 (ucast c) OR ucast c :: u32)) = c"
    by (rule bit_word_eqI, auto simp: bit_simps dest: bit_imp_le_length)+
  then show ?thesis by (simp add: bytes32_def)
qed

lemma memset_correct: "memset v c n m a = (if v \<le> a \<and> a < v + n then c else m a)"
proof -
  have c4: "[c, c, c, c] ! (k mod 4) = c" for k
  proof -
    have "k mod 4 = 0 \<or> k mod 4 = 1 \<or> k mod 4 = 2 \<or> k mod 4 = 3" by arith
    then show ?thesis by auto
  qed
  have "n div 4 * 4 = n" if "n mod 4 = 0" using that by (metis div_mult_mod_eq add.right_neutral)
  then show ?thesis using c4 by (auto simp: memset_def Let_def fill_word rep_stos_correct)
qed

text \<open>
  C38 Moving memory is correct for overlapping regions: whatever the overlap and the alignment of
  the two regions, after memmove the destination holds what the source held before and nothing else
  has changed.
\<close>

theorem memmove_correct:
  "memmove dst src n m = (\<lambda>a. if dst \<le> a \<and> a < dst + n then m (src + (a - dst)) else m a)"
proof (rule ext)
  fix a
  have q: "n div 4 * 4 = n" if "n mod 4 = 0" using that by (metis div_mult_mod_eq add.right_neutral)
  show "memmove dst src n m a = (if dst \<le> a \<and> a < dst + n then m (src + (a - dst)) else m a)"
  proof (cases "src < dst \<and> dst < src + n")
    case True
    then have n: "0 < n" by auto
    have w1: "rep_movs_down 1 (dst + n - 1) (src + n - 1) n m a = (if dst \<le> a \<and> a < dst + n then m (src + (a - dst)) else m a)"
      using rep_movs_down_correct [of src dst 1 "n - 1" m a] True n by simp
    have w4: "rep_movs_down 4 (dst + n - 4) (src + n - 4) (n div 4) m a = (if dst \<le> a \<and> a < dst + n then m (src + (a - dst)) else m a)"
      if z: "n mod 4 = 0"
    proof -
      obtain k where k: "n = Suc k * 4" using q [OF z] n by (cases "n div 4") auto
      then show ?thesis using rep_movs_down_correct [of src dst 4 k m a] True by (simp add: mult.commute)
    qed
    show ?thesis using True w1 w4 by (simp add: memmove_def Let_def)
  next
    case False
    then have "dst \<le> src \<or> src + n \<le> dst" by auto
    then show ?thesis
      using rep_movs_up_correct [of dst src n 1 m a] rep_movs_up_correct [of dst src "n div 4" 4 m a] q False
      by (auto simp: memmove_def)
  qed
qed

section \<open>Strings\<close>

lemma cstr_len: "cstr m a xs \<Longrightarrow> strlen_loop m a (int k) = Some (int (k + length xs))" if "k + length xs < 2 ^ 31"
  using that
proof (induction xs arbitrary: a k)
  case Nil
  then show ?case by (simp add: strlen_loop.simps)
next
  case (Cons x xs)
  have "i32 (int k + 1) = int (Suc k)" using Cons.prems(2) by (simp add: i32_def)
  then show ?case using Cons.prems Cons.IH [of "a + 1" "Suc k"] by (subst strlen_loop.simps) simp
qed

lemma strlen_cstr: "cstr m a xs \<Longrightarrow> length xs < 2 ^ 31 \<Longrightarrow> strlen m a = Some (int (length xs))"
  using cstr_len [of 0 xs m a] by (simp add: strlen_def)

lemma strnlen_loop_cstr:
  "cstr m a xs \<Longrightarrow> k + length xs < 2 ^ 31 \<Longrightarrow> 0 \<le> sz \<Longrightarrow> strnlen_loop m a sz (int k) = Some (int k + min sz (int (length xs)))"
proof (induction xs arbitrary: a k sz)
  case Nil
  then show ?case by (subst strnlen_loop.simps) auto
next
  case (Cons x xs)
  have "i32 (int k + 1) = int (Suc k)" using Cons.prems(2) by (simp add: i32_def)
  then show ?case using Cons.prems Cons.IH [of "a + 1" "Suc k" "sz - 1"] by (subst strnlen_loop.simps) auto
qed

lemma strnlen_cstr:
  "cstr m a xs \<Longrightarrow> length xs < 2 ^ 31 \<Longrightarrow> 0 \<le> sz \<Longrightarrow> sz < 2 ^ 64 \<Longrightarrow> strnlen m a sz = Some (min sz (int (length xs)))"
  using strnlen_loop_cstr [of m a xs 0 sz] by (simp add: strnlen_def u64i_def)

lemma cstr_cong: "(\<And>i. i \<le> length xs \<Longrightarrow> m (a + i) = m' (b + i)) \<Longrightarrow> cstr m a xs = cstr m' b xs"
proof (induction xs arbitrary: a b)
  case Nil
  then show ?case using Nil [of 0] by simp
next
  case (Cons x xs)
  have "m (a + 1 + i) = m' (b + 1 + i)" if "i \<le> length xs" for i using Cons.prems [of "Suc i"] that by simp
  then show ?case using Cons.IH [of "a + 1" "b + 1"] Cons.prems [of 0] by simp
qed

lemma cstr_upd: "0 \<notin> set xs \<Longrightarrow> cstr (upd_bytes d (xs @ [0]) m) d xs"
proof -
  have "cstr m' d xs" if "\<And>i. i < length xs \<Longrightarrow> m' (d + i) = xs ! i" "m' (d + length xs) = 0" "0 \<notin> set xs" for m'
    using that
  proof (induction xs arbitrary: d)
    case (Cons x xs)
    have "m' (d + 1 + i) = xs ! i" if "i < length xs" for i using Cons.prems(1) [of "Suc i"] that by simp
    then show ?case using Cons.IH [of "d + 1"] Cons.prems(1) [of 0] Cons.prems(2,3) by simp
  qed simp
  then show "0 \<notin> set xs \<Longrightarrow> ?thesis" by (auto simp: upd_bytes_def nth_append)
qed

lemma upd_bytes_step: "upd_bytes (d + 1) zs (m(d := x)) = upd_bytes d (x # zs) m"
  by (auto simp: upd_bytes_def fun_eq_iff nth_Cons')

lemma cstr_not_zero: "cstr m a xs \<Longrightarrow> 0 \<notin> set xs"
  by (induction xs arbitrary: a) auto

text \<open>A copy upwards to a place that the rest of the source does not reach.\<close>

lemma strcpy_cstr:
  "cstr m src xs \<Longrightarrow> dst \<le> src \<or> src + length xs < dst \<Longrightarrow> strcpy dst src m = Some (upd_bytes dst (xs @ [0]) m)"
proof (induction xs arbitrary: src dst m)
  case Nil
  then have "m(dst := m src) = upd_bytes dst ([] @ [0]) m" by (auto simp: upd_bytes_def)
  then show ?case using Nil by (subst strcpy.simps) (simp add: Let_def)
next
  case (Cons x xs)
  let ?m = "m(dst := x)"
  have "cstr ?m (src + 1) xs = cstr m (src + 1) xs" using Cons.prems(2) by (intro cstr_cong) auto
  then have c: "cstr ?m (src + 1) xs" using Cons.prems(1) by simp
  have "dst + 1 \<le> src + 1 \<or> src + 1 + length xs < dst + 1" using Cons.prems(2) by auto
  from Cons.IH [OF c this] have "strcpy (dst + 1) (src + 1) ?m = Some (upd_bytes (dst + 1) (xs @ [0]) ?m)" .
  then show ?case using Cons.prems upd_bytes_step [of dst "xs @ [0]" m x] by (subst strcpy.simps) (simp add: Let_def)
qed

lemma strcat_cstr:
  assumes x: "cstr m dst xs" and y: "cstr m src ys" and l: "length xs < 2 ^ 31"
    and d: "src + length ys < dst \<or> dst + length xs + length ys < src"
  shows "\<exists>m'. strcat dst src m = Some m' \<and> cstr m' dst (xs @ ys) \<and> (\<forall>a. a < dst \<or> dst + length xs + length ys < a \<longrightarrow> m' a = m a)"
proof -
  let ?m = "upd_bytes (dst + length xs) (ys @ [0]) m"
  have "strcat dst src m = Some ?m"
    using strlen_cstr [OF x l] strcpy_cstr [OF y, of "dst + length xs"] d by (auto simp: strcat_def nat_int_add)
  moreover have "cstr m' (dst) (xs @ ys)" if "cstr m' (dst + length xs) ys" "\<And>i. i < length xs \<Longrightarrow> m' (dst + i) = m (dst + i)" for m'
    using x that
  proof (induction xs arbitrary: dst)
    case (Cons a xs)
    have "m' (dst + 1 + i) = m (dst + 1 + i)" if "i < length xs" for i using Cons.prems(3) [of "Suc i"] that by simp
    then show ?case using Cons.IH [of "dst + 1"] Cons.prems(1,2) Cons.prems(3) [of 0] by simp
  qed simp
  moreover have "cstr ?m (dst + length xs) ys" using cstr_upd cstr_not_zero [OF y] by blast
  ultimately show ?thesis by (intro exI [of _ ?m]) (auto simp: upd_bytes_def)
qed

text \<open>The bounded copies.\<close>

lemma strncpy_zeros: "m src = 0 \<Longrightarrow> src < dst \<or> dst + n \<le> src \<Longrightarrow> strncpy dst src n m = upd_bytes dst (replicate n 0) m"
proof (induction n arbitrary: dst m)
  case (Suc n)
  have "strncpy (dst + 1) src n (m(dst := 0)) = upd_bytes (dst + 1) (replicate n 0) (m(dst := 0))"
    using Suc.prems by (intro Suc.IH) auto
  then show ?case using Suc.prems upd_bytes_step [of dst "replicate n 0" m 0] by (simp add: Let_def)
qed simp

lemma strncpy_cstr:
  "cstr m src xs \<Longrightarrow> src + length xs < dst \<or> dst + n \<le> src \<Longrightarrow>
   strncpy dst src n m = upd_bytes dst (take n xs @ replicate (n - length xs) 0) m"
proof (induction xs arbitrary: src dst m n)
  case Nil
  then show ?case using strncpy_zeros [of m src dst n] by auto
next
  case (Cons x xs)
  show ?case
  proof (cases n)
    case (Suc k)
    let ?m = "m(dst := x)"
    have ne: "src \<noteq> dst" using Cons.prems(2) Suc by auto
    have "cstr ?m (src + 1) xs = cstr m (src + 1) xs" using Cons.prems(2) Suc by (intro cstr_cong) auto
    then have c: "cstr ?m (src + 1) xs" using Cons.prems(1) by simp
    have "src + 1 + length xs < dst + 1 \<or> dst + 1 + k \<le> src + 1" using Cons.prems(2) Suc by auto
    from Cons.IH [OF c this] have "strncpy (dst + 1) (src + 1) k ?m = upd_bytes (dst + 1) (take k xs @ replicate (k - length xs) 0) ?m" .
    then show ?thesis using Cons.prems(1) Suc ne upd_bytes_step [of dst _ m x] by (simp add: Let_def)
  qed simp
qed

lemma strlcpy_loop_cstr:
  "cstr m src xs \<Longrightarrow> src + length xs < dst \<or> dst + n \<le> src \<Longrightarrow> 0 < n \<Longrightarrow>
   strlcpy_loop dst src n m = (dst + min (n - 1) (length xs), upd_bytes dst (take (n - 1) xs @ [0]) m)"
proof (induction xs arbitrary: src dst m n)
  case Nil
  then show ?case by (cases n) (auto simp: upd_bytes_def fun_eq_iff)
next
  case (Cons x xs)
  show ?case
  proof (cases "n = 1")
    case True
    then show ?thesis by (auto simp: upd_bytes_def fun_eq_iff)
  next
    case False
    then obtain k where n: "n = Suc (Suc k)" using Cons.prems(3) by (metis One_nat_def gr0_implies_Suc not_gr0)
    let ?m = "m(dst := x)"
    have "cstr ?m (src + 1) xs = cstr m (src + 1) xs" using Cons.prems(2) n by (intro cstr_cong) auto
    then have c: "cstr ?m (src + 1) xs" using Cons.prems(1) by simp
    have o: "src + 1 + length xs < dst + 1 \<or> dst + 1 + Suc k \<le> src + 1" using Cons.prems(2) n by auto
    have "strlcpy_loop dst src n m = strlcpy_loop (dst + 1) (src + 1) (Suc k) ?m"
      using Cons.prems(1) unfolding n by (subst strlcpy_loop.simps(2)) (simp del: strlcpy_loop.simps)
    also have "\<dots> = (dst + 1 + min (Suc k - 1) (length xs), upd_bytes (dst + 1) (take (Suc k - 1) xs @ [0]) ?m)"
      by (rule Cons.IH [OF c o]) simp
    finally show ?thesis by (simp add: n upd_bytes_step [simplified])
  qed
qed

lemma strlcpy_cstr:
  assumes "cstr m src xs" and "src + length xs < dst \<or> dst + n \<le> src" and "0 < n"
  shows "\<exists>m'. strlcpy dst src n m = (min (n - 1) (length xs), m') \<and> cstr m' dst (take (n - 1) xs) \<and>
    (\<forall>a. a < dst \<or> dst + n \<le> a \<longrightarrow> m' a = m a)"
proof -
  have "0 \<notin> set (take (n - 1) xs)" using cstr_not_zero [OF assms(1)] by (auto dest: in_set_takeD)
  then show ?thesis
    using strlcpy_loop_cstr [OF assms] assms(3) cstr_upd [of "take (n - 1) xs" dst m]
    by (auto simp: strlcpy_def upd_bytes_def)
qed

text \<open>Comparison is lexicographic on unsigned bytes.\<close>

definition str_less :: "u8 list \<Rightarrow> u8 list \<Rightarrow> bool" where
  "str_less xs ys \<longleftrightarrow> (xs, ys) \<in> lexord {(a, b). a < b}"

lemma byte_diff_sign: "byte_diff x y < 0 \<longleftrightarrow> x < y" "byte_diff x y = 0 \<longleftrightarrow> x = y"
  by (simp_all add: byte_diff_def word_less_def word_uint_eq_iff)

lemma strcmp_cstr:
  "cstr m p xs \<Longrightarrow> cstr m q ys \<Longrightarrow> \<exists>r. strcmp m p q = Some r \<and> (r = 0 \<longleftrightarrow> xs = ys) \<and> (r < 0 \<longleftrightarrow> str_less xs ys)"
proof (induction xs arbitrary: p q ys)
  case Nil
  then show ?case by (cases ys) (auto simp: strcmp.simps byte_diff_sign str_less_def word_gt_0)
next
  case (Cons x xs)
  show ?case
  proof (cases ys)
    case Nil
    then show ?thesis using Cons.prems by (subst strcmp.simps) (auto simp: byte_diff_sign str_less_def)
  next
    case (Cons y zs)
    show ?thesis
    proof (cases "x = y")
      case True
      then have "strcmp m p q = strcmp m (p + 1) (q + 1)" using Cons.prems \<open>ys = y # zs\<close> by (subst strcmp.simps) auto
      then show ?thesis using Cons.IH [of "p + 1" "q + 1" zs] Cons.prems \<open>ys = y # zs\<close> True by (auto simp: str_less_def)
    next
      case False
      then have "strcmp m p q = Some (byte_diff x y)" using Cons.prems \<open>ys = y # zs\<close> by (subst strcmp.simps) auto
      then show ?thesis using False \<open>ys = y # zs\<close> by (auto simp: byte_diff_sign str_less_def)
    qed
  qed
qed

lemma memcmp_correct: "memcmp m a b n = 0 \<longleftrightarrow> (\<forall>i < n. m (a + i) = m (b + i))"
proof (induction n arbitrary: a b)
  case (Suc n)
  have "(\<forall>i < Suc n. m (a + i) = m (b + i)) \<longleftrightarrow> m a = m b \<and> (\<forall>i < n. m (a + 1 + i) = m (b + 1 + i))"
    by (auto simp: less_Suc_eq_0_disj)
  then show ?case using Suc.IH [of "a + 1" "b + 1"] by (auto simp: byte_diff_sign)
qed simp

lemma strchr_cstr:
  "cstr m a xs \<Longrightarrow> strchr m a c = Some (if c \<in> set xs then Some (a + length (takeWhile (\<lambda>x. x \<noteq> c) xs)) else None)"
  by (induction xs arbitrary: a) (subst strchr.simps; auto)+

lemma strfind_cstr: "cstr m a xs \<Longrightarrow> strfind m a c = Some (a + length (takeWhile (\<lambda>x. x \<noteq> c) xs))"
  by (induction xs arbitrary: a) (subst strfind.simps; auto)+

end
