(* ===== verification/Printfmt.thy ===== *)
theory Printfmt
  imports Strings Fd_Lib
begin

text \<open>
  Formatted printing (lib/printfmt.c) and its users: the kernel's and the user library's cprintf
  (kern/printf.c, lib/printf.c), snprintf, and fprintf (lib/fprintf.c). The formatter produces the
  sequence of characters it hands to \<open>putch\<close>; each user consumes that sequence. Strings that are
  printed are read from the memory as it is before the output is stored.
\<close>

section \<open>Numbers\<close>

text \<open>A character is the \<open>int\<close> that is passed to \<open>putch\<close>.\<close>

definition digit_char :: "nat \<Rightarrow> int" where
  "digit_char d = (if d < 10 then 48 + int d else 87 + int d)"

partial_function (option) printnum :: "nat \<Rightarrow> nat \<Rightarrow> int \<Rightarrow> int \<Rightarrow> int list option" where
  "printnum num base width padc =
     (if base = 0 then None
      else if base \<le> num then do {
        ds \<leftarrow> printnum (num div base) base (width - 1) padc;
        Some (ds @ [digit_char (num mod base)])
      }
      else Some (replicate (nat (width - 1)) padc @ [digit_char (num mod base)]))"

text \<open>An argument occupies 64 bits; a list that is too short is an access past the arguments.\<close>

definition getuint :: "u64 \<Rightarrow> nat \<Rightarrow> nat" where
  "getuint x lflag = (if 1 \<le> lflag then unat x else unat (ucast x :: u32))"

definition getint :: "u64 \<Rightarrow> nat \<Rightarrow> int" where
  "getint x lflag = (if 1 \<le> lflag then sint x else sint (ucast x :: u32))"

section \<open>Strings\<close>

record fmtst =
  padc :: int
  width :: int
  precision :: int
  lflag :: nat
  altflag :: bool

definition fmt_init :: fmtst where
  "fmt_init = \<lparr>padc = 32, width = - 1, precision = - 1, lflag = 0, altflag = False\<rparr>"

definition lit :: "string \<Rightarrow> nat \<Rightarrow> u8" where
  "lit s k = (if k < length s then of_nat (of_char (s ! k)) else 0)"

text \<open>A plain \<open>char\<close> is signed.\<close>

partial_function (option) put_chars :: "(nat \<Rightarrow> u8) \<Rightarrow> nat \<Rightarrow> int \<Rightarrow> int \<Rightarrow> bool \<Rightarrow> (int list \<times> int) option" where
  "put_chars p i prec wid alt =
     (let ch = sint (p i) in
      if ch \<noteq> 0 \<and> (prec < 0 \<or> 0 \<le> prec - 1) then do {
        (cs, wid) \<leftarrow> put_chars p (i + 1) (if prec < 0 then prec else prec - 1) (wid - 1) alt;
        Some ((if alt \<and> (ch < 32 \<or> 126 < ch) then 63 else ch) # cs, wid)
      }
      else Some ([], wid))"

definition fmt_string :: "(nat \<Rightarrow> u8) \<Rightarrow> fmtst \<Rightarrow> int list option" where
  "fmt_string p st = do {
     (pad, wid) \<leftarrow>
       (if 0 < width st \<and> padc st \<noteq> 45 then do {
          n \<leftarrow> strnlen p 0 (precision st);
          Some (replicate (nat (width st - n)) (padc st), min (width st - n) 0)
        }
        else Some ([], width st));
     (cs, wid) \<leftarrow> put_chars p 0 (precision st) wid (altflag st);
     Some (pad @ cs @ replicate (nat wid) 32)
   }"

definition fmt_num :: "nat \<Rightarrow> nat \<Rightarrow> fmtst \<Rightarrow> int list option" where
  "fmt_num num base st = printnum num base (width st) (padc st)"

definition fmt_signed :: "int \<Rightarrow> fmtst \<Rightarrow> int list option" where
  "fmt_signed x st =
     (if x < 0 then do { ds \<leftarrow> fmt_num (nat (- x)) 10 st; Some (45 # ds) } else fmt_num (nat x) 10 st)"

definition error_string :: "int \<Rightarrow> string option" where
  "error_string e =
     (if e = E_UNSPECIFIED then Some ''unspecified error''
      else if e = E_BAD_ENV then Some ''bad environment''
      else if e = E_INVAL then Some ''invalid parameter''
      else if e = E_NO_MEM then Some ''out of memory''
      else if e = E_NO_FREE_ENV then Some ''out of environments''
      else if e = E_FAULT then Some ''segmentation fault''
      else if e = E_IPC_NOT_RECV then Some ''env is not recving''
      else if e = E_EOF then Some ''unexpected end of file''
      else if e = E_NO_DISK then Some ''no free space on disk''
      else if e = E_MAX_OPEN then Some ''too many files are open''
      else if e = E_NOT_FOUND then Some ''file or block not found''
      else if e = E_BAD_PATH then Some ''invalid path''
      else if e = E_FILE_EXISTS then Some ''file already exists''
      else if e = E_NOT_EXEC then Some ''file is not a valid executable''
      else if e = E_NOT_SUPP then Some ''operation not supported''
      else None)"

text \<open>The two inner calls of \<open>printfmt\<close>, with the formats \<open>"error %d"\<close> and \<open>"%s"\<close>.\<close>

definition fmt_error :: "int \<Rightarrow> int list option" where
  "fmt_error x =
     (let err = (if x < 0 then i32 (- x) else x)
      in if err < 0 then None
      else case (if MAXERROR \<le> err then None else error_string err) of
          None \<Rightarrow> do { ds \<leftarrow> fmt_signed err fmt_init; Some (map (\<lambda>c. int (of_char c)) ''error '' @ ds) }
        | Some s \<Rightarrow> fmt_string (lit s) fmt_init)"

section \<open>The format string\<close>

partial_function (option) width_digits :: "(nat \<Rightarrow> u8) \<Rightarrow> nat \<Rightarrow> int \<Rightarrow> int \<Rightarrow> (int \<times> nat) option" where
  "width_digits fmt k ch prec =
     (let prec = i32 (prec * 10 + ch - 48); ch = sint (fmt k)
      in if ch < 48 \<or> 57 < ch then Some (prec, k) else width_digits fmt (k + 1) ch prec)"

definition process_precision :: "int \<Rightarrow> fmtst \<Rightarrow> fmtst" where
  "process_precision prec st =
     (if width st < 0 then st\<lparr>width := prec, precision := - 1\<rparr> else st\<lparr>precision := prec\<rparr>)"

partial_function (option) back_to_percent :: "(nat \<Rightarrow> u8) \<Rightarrow> nat \<Rightarrow> nat option" where
  "back_to_percent fmt k = (if k = 0 then None else if fmt (k - 1) = 37 then Some k else back_to_percent fmt (k - 1))"

text \<open>One conversion, from the character after the percent sign: output, position and arguments left.\<close>

partial_function (option) fmt_switch :: "cmem \<Rightarrow> (nat \<Rightarrow> u8) \<Rightarrow> nat \<Rightarrow> fmtst \<Rightarrow> u64 list \<Rightarrow> (int list \<times> nat \<times> u64 list) option" where
  "fmt_switch m fmt k st args =
     (let ch = uint (fmt k); k = k + 1 in
      if ch = 45 then fmt_switch m fmt k (st\<lparr>padc := 45\<rparr>) args
      else if ch = 48 then fmt_switch m fmt k (st\<lparr>padc := 48\<rparr>) args
      else if 49 \<le> ch \<and> ch \<le> 57 then do {
        (prec, k) \<leftarrow> width_digits fmt k ch 0;
        fmt_switch m fmt k (process_precision prec st) args
      }
      else if ch = 46 then fmt_switch m fmt k (if width st < 0 then st\<lparr>width := 0\<rparr> else st) args
      else if ch = 35 then fmt_switch m fmt k (st\<lparr>altflag := True\<rparr>) args
      else if ch = 108 then fmt_switch m fmt k (st\<lparr>lflag := lflag st + 1\<rparr>) args
      else if ch = 37 then Some ([37], k, args)
      else if ch \<in> {42, 99, 100, 101, 111, 112, 115, 117, 120} then
        (case args of
           [] \<Rightarrow> None
         | x # args \<Rightarrow>
             if ch = 42 then fmt_switch m fmt k (process_precision (sint (ucast x :: u32)) st) args
             else do {
               cs \<leftarrow> (if ch = 99 then Some [sint (ucast x :: u32)]
                  else if ch = 101 then fmt_error (sint (ucast x :: u32))
                  else if ch = 115 then fmt_string (if x = 0 then lit ''(null)'' else (\<lambda>i. m (unat x + i))) st
                  else if ch = 100 then fmt_signed (getint x (lflag st)) st
                  else if ch = 117 then fmt_num (getuint x (lflag st)) 10 st
                  else if ch = 111 then fmt_num (getuint x (lflag st)) 8 st
                  else if ch = 112 then do { ds \<leftarrow> fmt_num (unat x) 16 st; Some (48 # 120 # ds) }
                  else fmt_num (getuint x (lflag st)) 16 st);
               Some (cs, k, args)
             })
      else do {
        k \<leftarrow> back_to_percent fmt (k - 1);
        Some ([37], k, args)
      })"

partial_function (option) vprintfmt :: "cmem \<Rightarrow> (nat \<Rightarrow> u8) \<Rightarrow> nat \<Rightarrow> u64 list \<Rightarrow> int list option" where
  "vprintfmt m fmt k args =
     (let ch = uint (fmt k) in
      if ch = 37 then do {
        (cs, k, args) \<leftarrow> fmt_switch m fmt (k + 1) fmt_init args;
        cs' \<leftarrow> vprintfmt m fmt k args;
        Some (cs @ cs')
      }
      else if ch = 0 then Some []
      else do {
        cs \<leftarrow> vprintfmt m fmt (k + 1) args;
        Some (ch # cs)
      })"

definition printfmt :: "cmem \<Rightarrow> (nat \<Rightarrow> u8) \<Rightarrow> u64 list \<Rightarrow> int list option" where
  "printfmt m fmt args = vprintfmt m fmt 0 args"

section \<open>snprintf\<close>

record sprintbuf =
  sb_buf :: nat
  sb_ebuf :: nat
  sb_cnt :: int

definition sprintputch :: "int \<Rightarrow> sprintbuf \<times> cmem \<Rightarrow> sprintbuf \<times> cmem" where
  "sprintputch ch = (\<lambda>(b, m).
     let b = b\<lparr>sb_cnt := i32 (sb_cnt b + 1)\<rparr>
     in if sb_buf b < sb_ebuf b then (b\<lparr>sb_buf := sb_buf b + 1\<rparr>, m(sb_buf b := word_of_int ch)) else (b, m))"

definition vsnprintf :: "nat \<Rightarrow> int \<Rightarrow> (nat \<Rightarrow> u8) \<Rightarrow> u64 list \<Rightarrow> cmem \<Rightarrow> (int \<times> cmem) option" where
  "vsnprintf buf n fmt args m =
     (if buf = 0 \<or> n < 1 then Some (- E_INVAL, m)
      else do {
        cs \<leftarrow> vprintfmt m fmt 0 args;
        let (b, m) = fold sprintputch cs (\<lparr>sb_buf = buf, sb_ebuf = nat (int buf + n - 1), sb_cnt = 0\<rparr>, m);
        Some (sb_cnt b, m(sb_buf b := 0))
      })"

definition snprintf :: "nat \<Rightarrow> int \<Rightarrow> (nat \<Rightarrow> u8) \<Rightarrow> u64 list \<Rightarrow> cmem \<Rightarrow> (int \<times> cmem) option" where
  "snprintf buf n fmt args m = vsnprintf buf n fmt args m"

section \<open>cprintf\<close>

text \<open>
  The kernel's \<open>putch\<close>: \<open>*cnt++\<close> increments its own copy of the pointer, not the count. The
  state is the count and the characters on the console.
\<close>

definition kern_putch :: "int \<Rightarrow> int \<times> int list \<Rightarrow> int \<times> int list" where
  "kern_putch ch = (\<lambda>(cnt, out). (cnt, out @ [ch]))"

definition kern_vcprintf :: "cmem \<Rightarrow> (nat \<Rightarrow> u8) \<Rightarrow> u64 list \<Rightarrow> (int \<times> int list) option" where
  "kern_vcprintf m fmt args = do {
     cs \<leftarrow> vprintfmt m fmt 0 args;
     Some (fold kern_putch cs (0, [])) }"

text \<open>The user library's: the strings given to \<open>sys_cputs\<close>, in order.\<close>

record printbuf =
  pb_cnt :: int
  pb_buf :: "u8 list"
  pb_calls :: "u8 list list"

definition putch :: "int \<Rightarrow> printbuf \<Rightarrow> printbuf" where
  "putch ch b =
     (let b = b\<lparr>pb_buf := pb_buf b @ [word_of_int ch]\<rparr>;
          b = (if length (pb_buf b) = 255 then b\<lparr>pb_calls := pb_calls b @ [pb_buf b], pb_buf := []\<rparr> else b)
      in b\<lparr>pb_cnt := i32 (pb_cnt b + 1)\<rparr>)"

definition vcprintf :: "cmem \<Rightarrow> (nat \<Rightarrow> u8) \<Rightarrow> u64 list \<Rightarrow> (int \<times> u8 list list) option" where
  "vcprintf m fmt args = do {
     cs \<leftarrow> vprintfmt m fmt 0 args;
     let b = fold putch cs \<lparr>pb_cnt = 0, pb_buf = [], pb_calls = []\<rparr>;
     Some (pb_cnt b, pb_calls b @ [pb_buf b]) }"

section \<open>fprintf\<close>

record fprintbuf =
  fb_buf :: "u8 list"
  fb_result :: int
  fb_error :: int
  fb_world :: world

definition writebuf :: "(int \<Rightarrow> dev option) \<Rightarrow> int \<Rightarrow> fprintbuf \<Rightarrow> fprintbuf option" where
  "writebuf oth fd b =
     (if 0 < fb_error b then do {
        (result, w) \<leftarrow> lib_write oth fd (\<lambda>k. fb_buf b ! k) (int (length (fb_buf b))) (fb_world b);
        let b = b\<lparr>fb_world := w, fb_result := fb_result b + (if 0 < result then result else 0)\<rparr>;
        Some (if result \<noteq> int (length (fb_buf b)) then b\<lparr>fb_error := (if result < 0 then result else 0)\<rparr> else b)
      }
      else Some b)"

definition fputch :: "(int \<Rightarrow> dev option) \<Rightarrow> int \<Rightarrow> int \<Rightarrow> fprintbuf \<Rightarrow> fprintbuf option" where
  "fputch oth fd ch b = do {
     let b = b\<lparr>fb_buf := fb_buf b @ [word_of_int ch]\<rparr>;
     if length (fb_buf b) = 256 then do { b \<leftarrow> writebuf oth fd b; Some (b\<lparr>fb_buf := []\<rparr>) } else Some b }"

fun fput_all :: "(int \<Rightarrow> dev option) \<Rightarrow> int \<Rightarrow> int list \<Rightarrow> fprintbuf \<Rightarrow> fprintbuf option" where
  "fput_all oth fd [] b = Some b"
| "fput_all oth fd (ch # cs) b = do { b \<leftarrow> fputch oth fd ch b; fput_all oth fd cs b }"

definition vfprintf :: "(int \<Rightarrow> dev option) \<Rightarrow> int \<Rightarrow> cmem \<Rightarrow> (nat \<Rightarrow> u8) \<Rightarrow> u64 list \<Rightarrow> world \<Rightarrow> (int \<times> world) option" where
  "vfprintf oth fd m fmt args w = do {
     cs \<leftarrow> vprintfmt m fmt 0 args;
     b \<leftarrow> fput_all oth fd cs \<lparr>fb_buf = [], fb_result = 0, fb_error = 1, fb_world = w\<rparr>;
     b \<leftarrow> (if fb_buf b \<noteq> [] then writebuf oth fd b else Some b);
     Some (if fb_result b \<noteq> 0 then fb_result b else fb_error b, fb_world b) }"

section \<open>Numbers are printed by their digits\<close>

function digs :: "nat \<Rightarrow> nat \<Rightarrow> nat list" where
  "digs b n = (if b < 2 \<or> n < b then [n] else digs b (n div b) @ [n mod b])"
  by pat_completeness auto
termination by (relation "measure snd") auto

declare digs.simps [simp del]

lemma digs_bound: "2 \<le> b \<Longrightarrow> \<forall>d \<in> set (digs b n). d < b"
  by (induction b n rule: digs.induct) (subst digs.simps, auto)

lemma digs_not_Nil [simp]: "digs b n \<noteq> []"
  by (subst digs.simps) auto

definition horner :: "nat \<Rightarrow> nat \<Rightarrow> nat list \<Rightarrow> nat" where
  "horner b v ds = foldl (\<lambda>v d. v * b + d) v ds"

lemma horner_simps [simp]: "horner b v [] = v" "horner b v (d # ds) = horner b (v * b + d) ds" "horner b v (ds @ ds') = horner b (horner b v ds) ds'"
  by (simp_all add: horner_def)

lemma horner_digs: "2 \<le> b \<Longrightarrow> horner b 0 (digs b n) = n"
  by (induction b n rule: digs.induct) (subst digs.simps, auto)

lemma horner_mono: "1 \<le> b \<Longrightarrow> v \<le> horner b v ds"
proof (induction ds arbitrary: v)
  case (Cons d ds)
  have "v \<le> v * b + d" using Cons.prems by (simp add: trans_le_add1)
  then show ?case using Cons.IH [of "v * b + d"] Cons.prems by simp
qed simp

lemma printnum_spec:
  "2 \<le> b \<Longrightarrow> printnum n b w pad = Some (replicate (nat (w - int (length (digs b n)))) pad @ map digit_char (digs b n))"
proof (induction b n arbitrary: w rule: digs.induct)
  case (1 b n)
  show ?case
  proof (cases "n < b")
    case True
    then show ?thesis using 1(2) by (subst printnum.simps) (simp add: digs.simps [of b n])
  next
    case False
    then show ?thesis using 1 by (subst printnum.simps) (simp add: digs.simps [of b n] algebra_simps)
  qed
qed

text \<open>Reading the digits back.\<close>

lemma digit_val_char: "d < 16 \<Longrightarrow> digit_val (word_of_int (digit_char d)) = Some (int d)"
proof -
  assume "d < 16"
  then have "\<forall>d \<in> set [0..<16]. digit_val (word_of_int (digit_char d)) = Some (int d)"
    by (simp add: upt_rec digit_val_def digit_char_def)
  then show ?thesis using \<open>d < 16\<close> by simp
qed

definition digits_at :: "cmem \<Rightarrow> nat \<Rightarrow> nat list \<Rightarrow> bool" where
  "digits_at m s ds \<longleftrightarrow> (\<forall>i < length ds. m (s + i) = word_of_int (digit_char (ds ! i))) \<and> m (s + length ds) = 0"

lemma digits_at_Cons: "digits_at m s (d # ds) \<longleftrightarrow> m s = word_of_int (digit_char d) \<and> digits_at m (s + 1) ds"
  by (auto simp: digits_at_def less_Suc_eq_0_disj)

lemma i64_small: "- (2 ^ 63) \<le> x \<Longrightarrow> x < 2 ^ 63 \<Longrightarrow> i64 x = x"
  by (simp add: i64_def)

lemma strtol_digits_spec:
  "digits_at m s ds \<Longrightarrow> \<forall>d \<in> set ds. d < b \<Longrightarrow> b \<le> 16 \<Longrightarrow> 1 \<le> b \<Longrightarrow> horner b v ds < 2 ^ 63 \<Longrightarrow>
   strtol_digits m s (int b) (int v) = Some (int (horner b v ds), s + length ds)"
proof (induction ds arbitrary: s v)
  case Nil
  then have "digit_val (m s) = None" by (simp add: digits_at_def digit_val_def)
  then show ?case by (subst strtol_digits.simps) simp
next
  case (Cons d ds)
  have d: "digit_val (m s) = Some (int d)" "d < b" "digits_at m (s + 1) ds"
    using Cons.prems digit_val_char [of d] by (auto simp: digits_at_Cons)
  have "v * b + d < 2 ^ 63" using horner_mono [of b "v * b + d" ds] Cons.prems by simp
  then have "int (v * b + d) < 2 ^ 63" by (metis of_nat_less_iff of_nat_numeral of_nat_power)
  then have "i64 (int v * int b + int d) = int (v * b + d)" by (intro i64_small [THEN trans]) (simp_all add: order_trans [of _ 0])
  then show ?case using Cons.IH [of "s + 1" "v * b + d"] Cons.prems d by (subst strtol_digits.simps) simp
qed

lemma strtol_decimal:
  assumes "digits_at m s (digs 10 n)" and "n < 2 ^ 63"
  shows "strtol_digits m s 10 0 = Some (int n, s + length (digs 10 n))"
  using strtol_digits_spec [OF assms(1) digs_bound, of 0] assms(2) horner_digs [of 10 n] by simp

section \<open>snprintf stays inside its buffer\<close>

lemma fold_sprintputch:
  "fold sprintputch cs (\<lparr>sb_buf = p, sb_ebuf = p + k, sb_cnt = int c\<rparr>, m) =
     (\<lparr>sb_buf = p + min k (length cs), sb_ebuf = p + k, sb_cnt = int (c + length cs)\<rparr>, upd_bytes p (map word_of_int (take k cs)) m)"
  if "c + length cs < 2 ^ 31"
  using that
proof (induction cs arbitrary: p k c m)
  case (Cons x cs)
  have i: "i32 (int c + 1) = int (Suc c)" using Cons.prems by (simp add: i32_def)
  show ?case
  proof (cases k)
    case 0
    then show ?thesis using Cons.IH [where k = 0 and c = "Suc c"] Cons.prems i by (simp add: sprintputch_def)
  next
    case (Suc j)
    have st: "sprintputch x (\<lparr>sb_buf = p, sb_ebuf = p + k, sb_cnt = int c\<rparr>, m) =
        (\<lparr>sb_buf = p + 1, sb_ebuf = (p + 1) + j, sb_cnt = int (Suc c)\<rparr>, m(p := word_of_int x))"
      using i Suc by (simp add: sprintputch_def)
    have "fold sprintputch (x # cs) (\<lparr>sb_buf = p, sb_ebuf = p + k, sb_cnt = int c\<rparr>, m) =
        (\<lparr>sb_buf = p + 1 + min j (length cs), sb_ebuf = (p + 1) + j, sb_cnt = int (Suc c + length cs)\<rparr>,
         upd_bytes (p + 1) (map word_of_int (take j cs)) (m(p := word_of_int x)))"
      unfolding fold_simps comp_apply st using Cons.prems by (intro Cons.IH) simp
    then show ?thesis unfolding upd_bytes_step using Suc by simp
  qed
qed simp

lemma vsnprintf_spec:
  assumes "vprintfmt m fmt 0 args = Some cs" and "length cs < 2 ^ 31" and "buf \<noteq> 0" and "0 < n"
  shows "vsnprintf buf (int n) fmt args m = Some (int (length cs), upd_bytes buf (map word_of_int (take (n - 1) cs) @ [0]) m)"
proof -
  have e: "nat (int buf + int n - 1) = buf + (n - 1)" using assms(4) by simp
  have "(upd_bytes buf zs m)(buf + length zs := 0) = upd_bytes buf (zs @ [0]) m" for zs
    by (auto simp: upd_bytes_def fun_eq_iff nth_append)
  from this [of "map word_of_int (take (n - 1) cs)"] show ?thesis
    using fold_sprintputch [of 0 cs buf "n - 1" m] assms e by (simp add: vsnprintf_def min.commute)
qed


section \<open>Printing and reading an int\<close>

lemma printf_d:
  assumes "- (2 ^ 31) \<le> i" and "i < 2 ^ 31"
  shows "vprintfmt m (lit ''%d'') 0 [word_of_int i] = fmt_signed i fmt_init"
proof -
  have "sint (word_of_int i :: u32) = i" using assms by (simp add: sint_sbintrunc' signed_take_bit_int_eq_self [of 31 i])
  moreover have "ucast (word_of_int i :: u64) = (word_of_int i :: u32)" by (rule bit_word_eqI) (auto simp: bit_simps)
  ultimately have g: "getint (word_of_int i) 0 = i" by (simp add: getint_def)
  have l: "lit ''%d'' 0 = 37" "lit ''%d'' (Suc 0) = 100" "lit ''%d'' (Suc (Suc 0)) = 0" by (simp_all add: lit_def)
  have "fmt_switch m (lit ''%d'') 1 fmt_init [word_of_int i] = do { cs \<leftarrow> fmt_signed i fmt_init; Some (cs, Suc (Suc 0), []) }"
    by (subst fmt_switch.simps) (simp add: l g fmt_init_def)
  moreover have "vprintfmt m (lit ''%d'') (Suc (Suc 0)) [] = Some []" by (subst vprintfmt.simps) (simp add: l)
  ultimately show ?thesis by (subst vprintfmt.simps) (simp add: l split: Option.bind_split)
qed

text \<open>The decimal digits of an int and how they stand in the buffer.\<close>

definition dec :: "int \<Rightarrow> int list" where
  "dec i = (if i < 0 then 45 # map digit_char (digs 10 (nat (- i))) else map digit_char (digs 10 (nat i)))"

lemma fmt_signed_dec: "fmt_signed i fmt_init = Some (dec i)"
  by (simp add: fmt_signed_def fmt_num_def printnum_spec fmt_init_def dec_def)


lemma digs_length: "2 \<le> b \<Longrightarrow> 1 \<le> k \<Longrightarrow> n < b ^ k \<Longrightarrow> length (digs b n) \<le> k"
proof (induction b n arbitrary: k rule: digs.induct)
  case (1 b n)
  show ?case
  proof (cases "n < b")
    case True
    then show ?thesis using 1 by (simp add: digs.simps [of b n])
  next
    case False
    then obtain j where k: "k = Suc j" "1 \<le> j" using 1(3,4) by (cases k; cases "k - 1") auto
    have "n div b < b ^ j" using 1(4) k 1(2) by (simp add: less_mult_imp_div_less mult.commute)
    then show ?thesis using 1(1) [of j] False 1(2) k by (simp add: digs.simps [of b n])
  qed
qed

lemma digit_char_not_blank: "d < 16 \<Longrightarrow> word_of_int (digit_char d) \<notin> {32, 9, 43, 45, 0 :: u8}"
proof -
  assume "d < 16"
  moreover have "\<forall>d \<in> set [0..<16]. word_of_int (digit_char d) \<notin> {32, 9, 43, 45, 0 :: u8}" by (simp add: upt_rec digit_char_def)
  ultimately show ?thesis by simp
qed

lemma strtol_unsigned:
  assumes d: "digits_at m s (digs 10 n)" and n: "n < 2 ^ 63"
  shows "strtol m s 10 = Some (int n, s + length (digs 10 n))"
proof -
  have "hd (digs 10 n) \<in> set (digs 10 n)" by simp
  then have "hd (digs 10 n) < 16" using digs_bound [of 10 n] by fastforce
  moreover have "m s = word_of_int (digit_char (hd (digs 10 n)))"
    using d by (auto simp: digits_at_def hd_conv_nth dest!: spec [of _ 0])
  ultimately have "m s \<notin> {32, 9, 43, 45, 0}" using digit_char_not_blank by simp
  then show ?thesis using strtol_decimal [OF d n] by (simp add: strtol_def skip_blank.simps)
qed

lemma strtol_negative:
  assumes "m s = 45" and d: "digits_at m (s + 1) (digs 10 n)" and n: "n < 2 ^ 63"
  shows "strtol m s 10 = Some (- int n, s + 1 + length (digs 10 n))"
proof -
  have "int n < 2 ^ 63" using n by (metis of_nat_less_iff of_nat_numeral of_nat_power)
  then have "i64 (- int n) = - int n" by (intro i64_small) simp_all
  then show ?thesis using strtol_decimal [OF d n] assms(1) by (simp add: strtol_def skip_blank.simps)
qed

text \<open>
  C40 An int survives printing and parsing: snprintf with the format "%d" into a buffer of at least
  12 bytes, followed by strtol in base 10, gives back the number and stops at the end of the text,
  for every 32-bit int, the smallest included.
\<close>

theorem print_parse_int:
  assumes "- (2 ^ 31) \<le> i" and "i < 2 ^ 31" and "buf \<noteq> 0" and "12 \<le> n"
  shows "\<exists>len m'. snprintf buf (int n) (lit ''%d'') [word_of_int i] m = Some (len, m') \<and> strtol m' buf 10 = Some (i, buf + nat len)"
proof -
  let ?m = "upd_bytes buf (map word_of_int (dec i) @ [0]) m"
  have b: "nat (- i) < 10 ^ 10" "nat i < 10 ^ 10" "nat (- i) < 2 ^ 63" "nat i < 2 ^ 63" using assms(1,2) by auto
  have l: "length (dec i) \<le> 11" using digs_length [of 10 10 "nat (- i)"] digs_length [of 10 10 "nat i"] b by (auto simp: dec_def)
  have "snprintf buf (int n) (lit ''%d'') [word_of_int i] m = Some (int (length (dec i)), ?m)"
    using vsnprintf_spec [of m "lit ''%d''" "[word_of_int i]" "dec i" buf n] printf_d [OF assms(1,2), of m] fmt_signed_dec l assms(3,4)
    by (simp add: snprintf_def)
  moreover have "strtol ?m buf 10 = Some (i, buf + length (dec i))"
  proof (cases "i < 0")
    case True
    have "digits_at ?m (buf + 1) (digs 10 (nat (- i)))" "?m buf = 45"
      using True by (auto simp: digits_at_def dec_def upd_bytes_def nth_append)
    then show ?thesis using strtol_negative [of ?m buf "nat (- i)"] b True by (simp add: dec_def)
  next
    case False
    have "digits_at ?m buf (digs 10 (nat i))" using False by (auto simp: digits_at_def dec_def upd_bytes_def nth_append)
    then show ?thesis using strtol_unsigned [of ?m buf "nat i"] b False by (simp add: dec_def)
  qed
  ultimately show ?thesis by simp
qed

theorem print_parse_int_witness:
  "\<exists>len m'. snprintf 4096 16 (lit ''%d'') [word_of_int (- 2147483648)] (\<lambda>_. 0) = Some (len, m') \<and>
     strtol m' 4096 10 = Some (- 2147483648, 4096 + nat len)"
  using print_parse_int [of "- 2147483648" 4096 16 "\<lambda>_. 0"] by simp

section \<open>cprintf\<close>

lemma fold_putch:
  "c + length cs < 2 ^ 31 \<Longrightarrow> length bs < 255 \<Longrightarrow> \<exists>bs' css'. fold putch cs \<lparr>pb_cnt = int c, pb_buf = bs, pb_calls = css\<rparr> =
     \<lparr>pb_cnt = int (c + length cs), pb_buf = bs', pb_calls = css @ css'\<rparr> \<and> length bs' < 255 \<and>
     concat css' @ bs' = bs @ map word_of_int cs \<and> (\<forall>cs \<in> set css'. length cs = 255)"
proof (induction cs arbitrary: c bs css)
  case (Cons x cs)
  have i: "i32 (int c + 1) = int (Suc c)" using Cons.prems by (simp add: i32_def)
  show ?case
  proof (cases "length bs = 254")
    case True
    then have "putch x \<lparr>pb_cnt = int c, pb_buf = bs, pb_calls = css\<rparr> =
        \<lparr>pb_cnt = int (Suc c), pb_buf = [], pb_calls = css @ [bs @ [word_of_int x]]\<rparr>" using i by (simp add: putch_def)
    moreover obtain bs' css' where "fold putch cs \<lparr>pb_cnt = int (Suc c), pb_buf = [], pb_calls = css @ [bs @ [word_of_int x]]\<rparr> =
        \<lparr>pb_cnt = int (Suc c + length cs), pb_buf = bs', pb_calls = (css @ [bs @ [word_of_int x]]) @ css'\<rparr>" "length bs' < 255"
        "concat css' @ bs' = map word_of_int cs" "\<forall>cs \<in> set css'. length cs = 255"
      using Cons.IH [of "Suc c" "[]" "css @ [bs @ [word_of_int x]]"] Cons.prems by auto
    ultimately show ?thesis using True by (intro exI [of _ bs'] exI [of _ "(bs @ [word_of_int x]) # css'"]) simp
  next
    case False
    then have "putch x \<lparr>pb_cnt = int c, pb_buf = bs, pb_calls = css\<rparr> =
        \<lparr>pb_cnt = int (Suc c), pb_buf = bs @ [word_of_int x], pb_calls = css\<rparr>" using i Cons.prems by (simp add: putch_def)
    then show ?thesis using Cons.IH [of "Suc c" "bs @ [word_of_int x]" css] Cons.prems False by simp
  qed
qed simp

text \<open>The system calls of a user cprintf print exactly the formatted text, at most 255 bytes each.\<close>

lemma vcprintf_correct:
  assumes "vprintfmt m fmt 0 args = Some cs" and "length cs < 2 ^ 31"
  shows "\<exists>css. vcprintf m fmt args = Some (int (length cs), css) \<and> concat css = map word_of_int cs \<and> (\<forall>c \<in> set css. length c \<le> 255)"
  using fold_putch [of 0 cs "[]" "[]"] assms by (auto simp: vcprintf_def)

text \<open>The kernel's cprintf prints the formatted text and returns 0, not its length.\<close>

lemma kern_vcprintf_returns_zero: "vprintfmt m fmt 0 args = Some cs \<Longrightarrow> kern_vcprintf m fmt args = Some (0, cs)"
proof -
  have "fold kern_putch cs (0, out) = (0, out @ cs)" for out by (induction cs arbitrary: out) (auto simp: kern_putch_def)
  then show "vprintfmt m fmt 0 args = Some cs \<Longrightarrow> ?thesis" by (simp add: kern_vcprintf_def)
qed

text \<open>Formatting of the error conversion is what the inner formats give.\<close>

lemma fmt_error_formats:
  assumes "0 \<le> e" and "e < 2 ^ 31" and "(if MAXERROR \<le> e then None else error_string e) = None"
  shows "fmt_error e = vprintfmt m (lit ''error %d'') 0 [word_of_int e]"
proof -
  have "sint (word_of_int e :: u32) = e" using assms by (simp add: sint_sbintrunc' signed_take_bit_int_eq_self [of 31 e])
  moreover have "ucast (word_of_int e :: u64) = (word_of_int e :: u32)" by (rule bit_word_eqI) (auto simp: bit_simps)
  ultimately have g: "getint (word_of_int e) 0 = e" by (simp add: getint_def)
  let ?f = "lit ''error %d''"
  have l: "?f 0 = 101" "?f 1 = 114" "?f 2 = 114" "?f 3 = 111" "?f 4 = 114" "?f 5 = 32" "?f 6 = 37" "?f 7 = 100" "?f 8 = 0"
    by (simp_all add: lit_def)
  have "fmt_switch m ?f 7 fmt_init [word_of_int e] = do { cs \<leftarrow> fmt_signed e fmt_init; Some (cs, 8, []) }"
    by (subst fmt_switch.simps) (simp add: l g fmt_init_def)
  moreover have "vprintfmt m ?f 8 [] = Some []" by (subst vprintfmt.simps) (simp add: l)
  ultimately have e6: "vprintfmt m ?f 6 [word_of_int e] = Some (dec e)"
    by (subst vprintfmt.simps) (simp add: l fmt_signed_dec)
  have st: "vprintfmt m ?f k a = do { cs \<leftarrow> vprintfmt m ?f (k + 1) a; Some (uint (?f k) # cs) }" if "?f k \<noteq> 37" "?f k \<noteq> 0" for k a
  proof -
    have "uint (?f k) \<noteq> 37" "uint (?f k) \<noteq> 0" using that by (metis word_of_int_numeral word_of_int_uint word_of_int_0)+
    then show ?thesis by (subst vprintfmt.simps) simp
  qed
  have "vprintfmt m ?f 0 [word_of_int e] = Some ([101, 114, 114, 111, 114, 32] @ dec e)"
    using st [of 0] st [of 1] st [of 2] st [of 3] st [of 4] st [of 5] l e6 by (simp flip: numeral_2_eq_2)
  then show ?thesis using assms by (simp add: fmt_error_def fmt_signed_dec)
qed

end
