(* ===== verification/Spec2Isabelle.thy ===== *)
theory Spec2Isabelle
  imports Memory_Theorems Kernel_Theorems Sched_Theorems Cache_Theorems Serv_Theorems Fsformat_Theorems Fork_Theorems Pipe Printfmt
begin

text \<open>
  Verification of JOS, the 64-bit teaching operating system in src/lab: an exokernel (kern/), a
  file server that runs as an ordinary environment (fs/), the library user programs are linked
  with (lib/), and the program that builds the disk image (fs/fsformat.c).

  \<^bold>\<open>The program and how its parts meet.\<close> The kernel owns physical memory (an array of page
  descriptors and a free list threaded through it), one four-level page table per environment, a
  fixed table of environments, and the devices. A trap enters \<open>trap\<close>, which dispatches to a
  system call, to the scheduler or to a device, and leaves through \<open>env_run\<close>. Everything else is
  built on the system calls: \<open>fork\<close> duplicates an address space page by page and copies on the
  first write in a page fault handler that runs in user mode; the file server maps disk blocks on
  demand, also in a page fault handler, and offers files over IPC; the library turns descriptors
  into requests to that server and into pipes.

  \<^bold>\<open>Conventions.\<close> A C function is a HOL function that takes and returns the state it works on. A
  panic, a failed assertion, a fault in the kernel, an access outside an object, or a loop that
  never ends is the result \<open>None\<close>; error codes are negative integers as in the source; a pointer is
  an index or an offset, \<open>NULL\<close> an option. Machine integers are words of their width, or integers
  with the conversion written out (\<open>i32\<close>, \<open>u32i\<close>, \<open>i64\<close>), wherever wrap-around can be observed.
  Theory Prelude holds these types, the error codes, the rounding macros and the lemmas on words,
  linked lists and loops that all components share.

  \<^bold>\<open>Kernel memory\<close> (kern/pmap.c, inc/mmu.h, inc/memlayout.h). Kstate holds the constants, the paging
  macros and the state of the kernel as one record: \<open>pages\<close> is the array of \<open>struct Page\<close>, \<open>phys\<close>
  the physical memory as 64-bit words, \<open>envs\<close> the array of \<open>struct Env\<close>. Pmap models the operations
  in the order of the source. Page_Alloc proves the free list to be a list without repetition and
  the allocator an instance of the locale \<open>pool\<close> (theory Pool), which the file system's block
  allocator instantiates as well. Page_Tables and Walk treat the three walk functions as one walk
  along a path of indices, over the invariant \<open>vm_inv\<close>: tables form a tree, every reference count
  is the number of mappings, no mapped page is free. Mapping_Spec derives the effect of
  \<open>page_insert\<close>, \<open>page_remove\<close> and \<open>page_lookup\<close> on every address of every address space;
  User_Mem does so for \<open>user_mem_check\<close>. Memory_Theorems states the properties.

  \<^bold>\<open>Environments, system calls, traps\<close> (kern/env.c, kern/syscall.c, kern/trap.c, kern/sched.c,
  kern/time.c). Kmem models loads and stores through the page tables in force, Env the life of an
  environment including the ELF loader, Syscall all system calls and their dispatcher, Sched the
  scheduler and \<open>env_run\<close>, Trap the trap handler down to the user-mode page fault upcall.
  Kernel_Inv defines the invariant \<open>kinv\<close> of the whole kernel: \<open>vm_inv\<close>, the kernel's own tables,
  the free list of environments, and one separate address space for each live environment.
  Syscall_Spec, Env_Space, Env_Id, Env_Spec and Isolation prove what each call does to the
  mappings of all environments; Kernel_Theorems and Sched_Theorems state the properties: what a
  successful call maps, that an environment cannot touch the address space of one that is not
  itself or its child, that ids of dead environments are refused, that IPC delivers, that the
  scheduler is round robin and a timer interrupt gives every runnable environment its turn.

  \<^bold>\<open>Locks and devices.\<close> Spinlock (kern/spinlock.c) interleaves all CPUs at the granularity of
  their memory accesses and proves mutual exclusion by induction over the reachable states. Console
  (kern/console.c) models the input buffer, the keyboard decoder and the display; E1000
  (kern/e1000.c) the descriptor rings of the network card.

  \<^bold>\<open>File server\<close> (fs/). Block_Cache models the IDE driver and the block cache with its page fault
  handler and dirty bits. Flat_Memory defines the interface as a locale \<open>block_memory\<close>: byte
  accesses and flushes of a flat memory; Cache_Spec interprets it on the model of fs/bc.c, so the
  file system can be modelled on flat memory. Fs_Init and Cache_Theorems treat the start of the
  server on the cache. Fs models fs/fs.c; Fs_Spec, Fs_File, Fs_RW, Fs_Trunc and Fs_Dir carry the
  invariant \<open>fs_ok\<close> and \<open>file_ok\<close> (the blocks of a file are distinct, in use and inside the disk)
  through allocation, reading, writing, truncation and directory search; Fs_Theorems states the
  properties. Serv models the request loop of fs/serv.c, Fd_Lib the descriptors of lib/fd.c and
  lib/file.c on top of it, and Serv_Theorems proves that what \<open>write\<close> stored \<open>read\<close> returns through
  all layers.

  \<^bold>\<open>Disk image\<close> (fs/fsformat.c). Fsformat models the builder over one flat memory; Fsformat_Spec
  describes the finished image; Fsformat_Theorems proves that the file server accepts the image and
  returns the contents of every file that was put on it.

  \<^bold>\<open>User library.\<close> Fork models \<open>fork\<close>, \<open>duppage\<close> and the fault handler of lib/fork.c and
  lib/pgfault.c over the kernel's own system calls, reading page tables as the processor does.
  Fork_Spec, Fork_Loop and Fork_Fault prove the effect of each part; Fork_Theorems proves that the
  child sees the memory of its parent and that neither sees what the other writes. Pipe (lib/pipe.c)
  interleaves a reader and a writer. Strings (lib/string.c) and Printfmt (lib/printfmt.c and its
  users) hold the routines kernel and programs share.

  \<^bold>\<open>Bounds.\<close> Loops are recursive functions with a termination proof or folds over the range the code
  counts through; where a loop may run on (a string without end, a full disk queue), the model has
  \<open>None\<close> for that outcome and the theorems state that the result is \<open>Some\<close>. The theorems on \<open>fork\<close>
  assume free memory in proportion to the pages to be duplicated (three tables for each mapping
  that is made) and reference counts that do not overflow their 16 bits; those on the file system
  assume a disk of at most \<open>DISKSIZE\<close> bytes. Concrete machines for the witnesses are in Sample,
  Sample_Kernel and Sample_Fork, small file systems in the theories that use them.

  \<^bold>\<open>Not modelled.\<close>
  \<^item> The boot loaders (boot/, boot1/), the assembly entry points (kern/entry.S, kern/mpentry.S,
    kern/trapentry.S, lib/entry.S, lib/pfentry.S), kern/entrypgdir.c and the set-up of segments,
    gates and task state: code that runs before or between the states the model describes.
  \<^item> Programming of interrupt controllers, clock chip and PCI bus (kern/lapic.c, kern/picirq.c,
    kern/kclock.c, kern/pci.c, kern/mpconfig.c), kern/init.c and kern/cpu.h: sequences of port and
    register accesses whose effect is defined by the hardware.
  \<^item> The kernel monitor and symbol lookup (kern/monitor.c, kern/kdebug.c), which only print.
  \<^item> kern/pmap1.c, an older copy of kern/pmap.c that the build does not use, and the self tests
    (\<open>check_*\<close> of kern/pmap.c, fs/test.c).
  \<^item> The network stack (net/lwip, a third-party package) and the server around it (net/).
  \<^item> The rest of the library (arguments, console device, IPC loops, malloc, readline, sockets, spawn,
    wait, system call stubs) and the user programs (user/).
\<close>

end
